(* ===== verification/Prelude.thy ===== *)
theory Prelude
  imports Main "HOL-Library.Word"
begin

text \<open>
  Shared material of the development: the machine types of the kernel, the monad
  in which the kernel's C functions are written, the little-endian byte view of
  integers, and generic lemmas on lists and words.
\<close>

section \<open>Machine types\<close>

unbundle bit_operations_syntax

type_synonym u8 = "8 word"
type_synonym u16 = "16 word"
type_synonym u32 = "32 word"

text \<open>
  A byte memory: the addresses of a 32-bit machine, one byte each. C strings and
  arrays of bytes are read out of it as lists.
\<close>

type_synonym memory = "u32 \<Rightarrow> u8"

section \<open>The kernel monad\<close>

text \<open>
  A kernel function runs on the state \<open>'s\<close> and ends in one of four ways. It
  returns a value; it calls \<open>panic\<close>; it gives up the processor (in \<open>sched\<close>)
  and is never run again; or it spins on a lock that another processor holds.
  What the rest of the machine does while the function has given up the
  processor is not chosen by the function: it is a list of state changes, one
  for each time the function is resumed. A function that gives up the
  processor takes the next one; when the list is empty it is not resumed.
\<close>

type_synonym 's schedule = "('s \<Rightarrow> 's) list"

datatype ('a, 's) outcome =
    Ret 'a "'s schedule" 's
  | Panic string 's
  | Asleep 's
  | Spin 's

type_synonym ('s, 'a) kmon = "'s schedule \<Rightarrow> 's \<Rightarrow> ('a, 's) outcome"

definition kreturn :: "'a \<Rightarrow> ('s, 'a) kmon" where
  "kreturn x = (\<lambda>e s. Ret x e s)"

definition kpanic :: "string \<Rightarrow> ('s, 'a) kmon" where
  "kpanic msg = (\<lambda>e s. Panic msg s)"

definition kget :: "('s \<Rightarrow> 'a) \<Rightarrow> ('s, 'a) kmon" where
  "kget f = (\<lambda>e s. Ret (f s) e s)"

definition kmod :: "('s \<Rightarrow> 's) \<Rightarrow> ('s, unit) kmon" where
  "kmod f = (\<lambda>e s. Ret () e (f s))"

definition kspin :: "('s, 'a) kmon" where
  "kspin = (\<lambda>e s. Spin s)"

text \<open>Giving up the processor: the next entry of the schedule, if there is one.\<close>

definition kswitch :: "('s, unit) kmon" where
  "kswitch = (\<lambda>e s. case e of [] \<Rightarrow> Asleep s | f # fs \<Rightarrow> Ret () fs (f s))"

definition kbind :: "('s, 'a) kmon \<Rightarrow> ('a \<Rightarrow> ('s, 'b) kmon) \<Rightarrow> ('s, 'b) kmon" where
  "kbind m f = (\<lambda>e s. case m e s of
       Ret a e' s' \<Rightarrow> f a e' s'
     | Panic msg s' \<Rightarrow> Panic msg s'
     | Asleep s' \<Rightarrow> Asleep s'
     | Spin s' \<Rightarrow> Spin s')"

definition kseq :: "('s, 'a) kmon \<Rightarrow> ('s, 'b) kmon \<Rightarrow> ('s, 'b) kmon" where
  "kseq m n = kbind m (\<lambda>_. n)"

definition kwhen :: "bool \<Rightarrow> ('s, unit) kmon \<Rightarrow> ('s, unit) kmon" where
  "kwhen b m = (if b then m else kreturn ())"

text \<open>
  Following a pointer that may be null. The pointers in question are null only where
  the kernel's own page table is in use, which does not map page 0: using one is a page
  fault, on which \<open>trap\<close> panics.
\<close>

definition kderef :: "'p option \<Rightarrow> ('p \<Rightarrow> ('s, 'a) kmon) \<Rightarrow> ('s, 'a) kmon" where
  "kderef p f = (case p of None \<Rightarrow> kpanic ''trap'' | Some x \<Rightarrow> f x)"

text \<open>A \<open>for\<close> loop whose body runs once for each element of a list.\<close>

fun kfor :: "'x list \<Rightarrow> ('x \<Rightarrow> ('s, unit) kmon) \<Rightarrow> ('s, unit) kmon" where
  "kfor [] f = kreturn ()"
| "kfor (x # xs) f = kseq (f x) (kfor xs f)"

text \<open>
  A loop whose body either leaves the loop with a value or goes round again. The
  loops of the kernel that have no bound go round only after giving up the
  processor, so the entries of the schedule bound the number of rounds; a body
  that went round without giving up the processor would spin for ever, which is
  the outcome \<open>Spin\<close>. \<open>kloop_unfold\<close> below shows that the bound is never what
  ends such a loop.
\<close>

fun kloop_n :: "nat \<Rightarrow> ('s, 'a option) kmon \<Rightarrow> ('s, 'a) kmon" where
  "kloop_n 0 body = kspin"
| "kloop_n (Suc n) body =
     kbind body (\<lambda>r. case r of Some a \<Rightarrow> kreturn a | None \<Rightarrow> kloop_n n body)"

definition kloop :: "('s, 'a option) kmon \<Rightarrow> ('s, 'a) kmon" where
  "kloop body = (\<lambda>e s. kloop_n (Suc (length e)) body e s)"

text \<open>
  A loop on a loop variable, with at most \<open>n\<close> rounds: the body gives the next value
  of the variable (\<open>Inl\<close>) or leaves the loop with a result (\<open>Inr\<close>). It models loops
  that take one round per page or block; every use gives more rounds than the loop
  can take, and a loop that would still go on is \<open>Spin\<close>.
\<close>

fun kiter :: "nat \<Rightarrow> ('x \<Rightarrow> ('s, 'x + 'r) kmon) \<Rightarrow> 'x \<Rightarrow> ('s, 'r) kmon" where
  "kiter 0 body x = kspin"
| "kiter (Suc n) body x =
     kbind (body x) (\<lambda>r. case r of Inl y \<Rightarrow> kiter n body y | Inr v \<Rightarrow> kreturn v)"

definition gives_up :: "('s, 'a option) kmon \<Rightarrow> bool" where
  "gives_up body \<longleftrightarrow> (\<forall>e s e' s'. body e s = Ret None e' s' \<longrightarrow> length e' < length e)"

subsection \<open>Symbolic execution\<close>

named_theorems kmon_run \<open>rules that run a kernel function on a state\<close>

lemma kreturn_run [kmon_run, simp]: "kreturn x e s = Ret x e s"
  by (simp add: kreturn_def)

lemma kpanic_run [kmon_run, simp]: "kpanic msg e s = Panic msg s"
  by (simp add: kpanic_def)

lemma kget_run [kmon_run, simp]: "kget f e s = Ret (f s) e s"
  by (simp add: kget_def)

lemma kmod_run [kmon_run, simp]: "kmod f e s = Ret () e (f s)"
  by (simp add: kmod_def)

lemma kspin_run [kmon_run, simp]: "kspin e s = Spin s"
  by (simp add: kspin_def)

lemma kswitch_run [kmon_run, simp]:
  "kswitch [] s = Asleep s"
  "kswitch (f # fs) s = Ret () fs (f s)"
  by (simp_all add: kswitch_def)

lemma kbind_run [kmon_run, simp]:
  "kbind m f e s = (case m e s of
       Ret a e' s' \<Rightarrow> f a e' s'
     | Panic msg s' \<Rightarrow> Panic msg s'
     | Asleep s' \<Rightarrow> Asleep s'
     | Spin s' \<Rightarrow> Spin s')"
  by (simp add: kbind_def)

lemma kseq_run [kmon_run, simp]:
  "kseq m n e s = (case m e s of
       Ret a e' s' \<Rightarrow> n e' s'
     | Panic msg s' \<Rightarrow> Panic msg s'
     | Asleep s' \<Rightarrow> Asleep s'
     | Spin s' \<Rightarrow> Spin s')"
  by (simp add: kseq_def)

lemma kwhen_run [kmon_run, simp]: "kwhen b m e s = (if b then m e s else Ret () e s)"
  by (simp add: kwhen_def)

lemma kderef_run [kmon_run, simp]:
  "kderef (Some x) f e s = f x e s"
  "kderef None f e s = Panic ''trap'' s"
  by (simp_all add: kderef_def)

lemma if_run [kmon_run]: "(if b then m else n) e s = (if b then m e s else n e s)"
  by simp

lemma option_run [kmon_run]:
  "(case x of None \<Rightarrow> m | Some y \<Rightarrow> n y) e s = (case x of None \<Rightarrow> m e s | Some y \<Rightarrow> n y e s)"
  by (cases x) simp_all

lemma let_run [kmon_run]: "(let x = a in m x) e s = (let x = a in m x e s)"
  by simp

lemma kfor_append: "kfor (xs @ ys) f e s = kseq (kfor xs f) (kfor ys f) e s"
  by (induction xs arbitrary: e s) (auto split: outcome.splits)

lemma kfor_skip:
  assumes "\<And>x. x \<in> set xs \<Longrightarrow> f x e s = Ret () e s"
  shows "kfor (xs @ ys) f e s = kfor ys f e s"
  using assms by (induction xs) simp_all

text \<open>A counted loop, with the invariant indexed by the counter.\<close>

lemma kfor_upto:
  assumes step: "\<And>k s. k < n \<Longrightarrow> I k s \<Longrightarrow> \<exists>t. body k e s = Ret () e t \<and> I (Suc k) t" and "I 0 s"
  shows "\<exists>t. kfor [0..<n] body e s = Ret () e t \<and> I n t"
proof -
  have "\<exists>t. kfor [0..<k] body e s = Ret () e t \<and> I k t" if "k \<le> n" for k
    using that
  proof (induction k)
    case (Suc k)
    then obtain t where t: "kfor [0..<k] body e s = Ret () e t" "I k t" by auto
    obtain u where "body k e t = Ret () e u" "I (Suc k) u" using step [of k t] Suc.prems t(2) by auto
    with t show ?case by (simp add: kfor_append)
  qed (use assms(2) in simp)
  then show ?thesis by blast
qed

lemma sum_run [kmon_run]:
  "(case x of Inl y \<Rightarrow> f y | Inr z \<Rightarrow> g z) e s = (case x of Inl y \<Rightarrow> f y e s | Inr z \<Rightarrow> g z e s)"
  by (cases x) simp_all

lemma kiter_numeral:
  "kiter (numeral k) body x =
     kbind (body x) (\<lambda>r. case r of Inl y \<Rightarrow> kiter (pred_numeral k) body y | Inr v \<Rightarrow> kreturn v)"
  by (simp add: numeral_eq_Suc)

text \<open>Total correctness of \<open>kiter\<close>: \<open>k\<close> bounds the rounds that are left.\<close>

lemma kiter_rule:
  assumes step: "\<And>k x s. I k x s \<Longrightarrow>
      (\<exists>y s' k'. body x e s = Ret (Inl y) e s' \<and> I k' y s' \<and> k' < k)
    \<or> (\<exists>v s'. body x e s = Ret (Inr v) e s' \<and> Q v s')"
    and "I k x s" and "k < n"
  shows "\<exists>v s'. kiter n body x e s = Ret v e s' \<and> Q v s'"
  using assms(2,3)
proof (induction n arbitrary: k x s)
  case (Suc n)
  from step [OF Suc.prems(1)] show ?case
  proof (elim disjE exE conjE)
    fix y s' k' assume "body x e s = Ret (Inl y) e s'" "I k' y s'" "k' < k"
    with Suc.IH [of k' y s'] Suc.prems(2) show ?thesis by (simp add: sum_run)
  qed (simp add: sum_run)
qed simp

lemma kloop_n_fuel:
  assumes "gives_up body" and "length e < n" and "length e < m"
  shows "kloop_n n body e s = kloop_n m body e s"
  using assms(2,3)
proof (induction n arbitrary: m e s)
  case 0
  then show ?case by simp
next
  case (Suc n)
  then obtain m' where m: "m = Suc m'" by (cases m) auto
  show ?case
  proof (cases "body e s")
    case (Ret r e' s')
    show ?thesis
    proof (cases r)
      case None
      with Ret assms(1) have "length e' < length e" by (auto simp: gives_up_def)
      with Suc.prems m have "length e' < n" "length e' < m'" by auto
      from Suc.IH [OF this] show ?thesis using Ret None m by (simp add: option_run)
    qed (use Ret m in \<open>simp add: option_run\<close>)
  qed (use m in simp_all)
qed

lemma kloop_unfold:
  assumes "gives_up body"
  shows "kloop body e s =
    kbind body (\<lambda>r. case r of Some a \<Rightarrow> kreturn a | None \<Rightarrow> kloop body) e s"
proof (cases "body e s")
  case (Ret r e' s')
  show ?thesis
  proof (cases r)
    case None
    with Ret assms have "length e' < length e" by (auto simp: gives_up_def)
    then have "kloop_n (length e) body e' s' = kloop_n (Suc (length e')) body e' s'"
      by (intro kloop_n_fuel [OF assms]) auto
    with Ret None show ?thesis by (simp add: kloop_def option_run)
  qed (use Ret in \<open>simp add: kloop_def option_run\<close>)
qed (simp_all add: kloop_def)

lemma kloop_done:
  "body e s = Ret (Some a) e' s' \<Longrightarrow> kloop body e s = Ret a e' s'"
  by (simp add: kloop_def)

text \<open>
  \<open>runs m s a s'\<close>: without any interference \<open>m\<close> started in \<open>s\<close> returns \<open>a\<close> in
  \<open>s'\<close>, whatever the schedule is, and uses none of the schedule.
\<close>

definition runs :: "('s, 'a) kmon \<Rightarrow> 's \<Rightarrow> 'a \<Rightarrow> 's \<Rightarrow> bool" where
  "runs m s a s' \<longleftrightarrow> (\<forall>e. m e s = Ret a e s')"

lemma runsI: "(\<And>e. m e s = Ret a e s') \<Longrightarrow> runs m s a s'"
  by (simp add: runs_def)

lemma runsD: "runs m s a s' \<Longrightarrow> m e s = Ret a e s'"
  by (simp add: runs_def)

lemma runs_bind: "runs m s a s' \<Longrightarrow> runs (f a) s' b s'' \<Longrightarrow> runs (kbind m f) s b s''"
  by (simp add: runs_def)

lemma runs_seq: "runs m s a s' \<Longrightarrow> runs n s' b s'' \<Longrightarrow> runs (kseq m n) s b s''"
  by (simp add: runs_def)

lemma runs_unique: "runs m s a s' \<Longrightarrow> runs m s b s'' \<Longrightarrow> a = b \<and> s' = s''"
  by (simp add: runs_def)

section \<open>Lists\<close>

lemma find_in: "find P xs = Some x \<Longrightarrow> x \<in> set xs \<and> P x"
  by (induction xs) (auto split: if_splits)

lemma find_split:
  "find P xs = Some x \<Longrightarrow> \<exists>ys zs. xs = ys @ x # zs \<and> (\<forall>y\<in>set ys. \<not> P y) \<and> P x"
proof (induction xs)
  case (Cons a xs)
  show ?case
  proof (cases "P a")
    case True
    with Cons.prems show ?thesis by (intro exI [of _ "[]"] exI [of _ xs]) auto
  next
    case False
    with Cons obtain ys zs where "xs = ys @ x # zs" "\<forall>y\<in>set ys. \<not> P y" "P x" by auto
    with False show ?thesis by (intro exI [of _ "a # ys"] exI [of _ zs]) auto
  qed
qed simp

section \<open>Words\<close>

lemma unat_u32_less [simp]: "unat (x :: u32) < 4294967296"
  using unsigned_less [of x] by simp

lemma unat_u32_le [simp]: "unat (x :: u32) \<le> 4294967295"
  using unat_u32_less [of x] by linarith

lemma sint_u32:
  "sint (w :: u32) = (if uint w < 2147483648 then uint w else uint w - 4294967296)"
proof -
  have b: "0 \<le> uint w" "uint w < 4294967296" using uint_lt2p [of w] by simp_all
  have "sint w = (uint w + 2147483648) mod 4294967296 - 2147483648"
    unfolding sint_uint signed_take_bit_eq_take_bit_shift take_bit_eq_mod by simp
  then show ?thesis
  proof (cases "uint w < 2147483648")
    case False
    have "(uint w + 2147483648) mod 4294967296 = ((uint w - 2147483648) + 4294967296) mod 4294967296"
      by (simp add: add.commute)
    also have "\<dots> = uint w - 2147483648"
      unfolding mod_add_self2 using False b by (intro mod_pos_pos_trivial) auto
    finally show ?thesis using False \<open>sint w = _\<close> by simp
  qed (use b in simp)
qed

text \<open>
  Regions of memory are described with \<open>a - base\<close>, the distance of an address
  from the start of the region, which is right also for a region that wraps around.
\<close>

lemma distance_step: "unat (a - (d + 1)) = unat (a - d) - 1" if "a \<noteq> d" for a d :: u32
proof -
  have "a - d \<noteq> 0" using that by simp
  then have "unat (a - d - 1) = unat (a - d) - 1" by (rule unat_minus_one)
  then show ?thesis by (simp add: diff_diff_eq)
qed

lemma region_step:
  fixes a d :: u32
  assumes "n < 2 ^ 32 - 1"
  shows "unat (a - (d + 1)) < n \<longleftrightarrow> a \<noteq> d \<and> unat (a - d) < Suc n"
proof (cases "a = d")
  case True
  have "d - (d + 1) = - 1" by simp
  then show ?thesis using assms True by (simp add: unsigned_minus_1_eq_mask mask_eq_exp_minus_1)
next
  case False
  then have "0 < unat (a - d)" by (simp add: unat_gt_0)
  with False show ?thesis using distance_step [OF False] by auto
qed

lemma high_bits_zero: "w < 2 ^ k \<Longrightarrow> k \<le> n \<Longrightarrow> \<not> bit (w :: u32) n"
  using less_mask_eq [of w k] by (metis bit_and_iff bit_mask_iff linorder_not_less)

lemma distance_eq_iff: "a - d = b - d \<longleftrightarrow> a = b" for a b d :: u32
  by simp

end
