(* ===== verification/Races.thy ===== *)
theory Races
  imports Prelude
begin

text \<open>
  The parts of \<^verbatim>\<open>proc.c\<close> whose correctness depends on the interleaving of several
  processors, as transition systems at the grain of single memory accesses and lock
  operations: the \<open>cas\<close> loop of \<open>allocpid\<close>, and the protocol of \<open>sleep\<close> and \<open>wakeup\<close>.
\<close>

section \<open>Process numbers under interleaving\<close>

text \<open>
  Several processors in the loop of \<open>allocpid\<close>, at the grain of its memory accesses: the
  read of \<open>nextpid\<close>, and the atomic \<open>cas\<close> that either advances it and ends the call or
  sends the processor back to the read. \<open>pid_out\<close> collects the numbers returned, the
  latest first.
\<close>

datatype pid_pc = PidRead | PidCas u32

record pid_sys =
  pid_next :: u32
  pid_out :: "u32 list"
  pid_pcs :: "nat \<Rightarrow> pid_pc"

fun pid_exec :: "nat \<Rightarrow> pid_sys \<Rightarrow> pid_sys" where
  "pid_exec c s = (case pid_pcs s c of
     PidRead \<Rightarrow> s\<lparr>pid_pcs := (pid_pcs s)(c := PidCas (pid_next s))\<rparr>
   | PidCas v \<Rightarrow>
       if pid_next s = v
       then s\<lparr>pid_next := v + 1, pid_out := (v + 1) # pid_out s, pid_pcs := (pid_pcs s)(c := PidRead)\<rparr>
       else s\<lparr>pid_pcs := (pid_pcs s)(c := PidRead)\<rparr>)"

definition pid_init :: pid_sys where
  "pid_init = \<lparr>pid_next = 1, pid_out = [], pid_pcs = (\<lambda>_. PidRead)\<rparr>"

lemma pid_exec_out:
  assumes "pid_next s = 1 + of_nat (length (pid_out s))"
    "pid_out s = rev (map (\<lambda>k. 2 + of_nat k) [0..<length (pid_out s)])"
  shows "pid_next (pid_exec c s) = 1 + of_nat (length (pid_out (pid_exec c s)))"
    "pid_out (pid_exec c s) = rev (map (\<lambda>k. 2 + of_nat k) [0..<length (pid_out (pid_exec c s))])"
  using assms by (auto split: pid_pc.splits)

lemma pid_run_out:
  "pid_next (fold pid_exec cs pid_init) = 1 + of_nat (length (pid_out (fold pid_exec cs pid_init)))
   \<and> pid_out (fold pid_exec cs pid_init)
     = rev (map (\<lambda>k. 2 + of_nat k) [0..<length (pid_out (fold pid_exec cs pid_init))])"
proof (induction cs rule: rev_induct)
  case Nil
  then show ?case by (simp add: pid_init_def)
next
  case (snoc c cs)
  then show ?case using pid_exec_out [of "fold pid_exec cs pid_init" c] by (simp del: pid_exec.simps)
qed

text \<open>
  C16. \<open>allocpid\<close> never returns a number twice: whatever the interleaving of the processors
  in its \<open>cas\<close> loop, the numbers returned are 2, 3, 4 and so on in this order, so they are
  all different until \<open>nextpid\<close> has run through all 32-bit values.
\<close>

theorem allocpid_unique:
  assumes "length (pid_out (fold pid_exec cs pid_init)) \<le> 2 ^ 32"
  shows "distinct (pid_out (fold pid_exec cs pid_init))
    \<and> rev (pid_out (fold pid_exec cs pid_init))
      = map (\<lambda>k. 2 + of_nat k) [0..<length (pid_out (fold pid_exec cs pid_init))]"
proof -
  let ?out = "pid_out (fold pid_exec cs pid_init)"
  have eq: "?out = rev (map (\<lambda>k. 2 + of_nat k) [0..<length ?out])" using pid_run_out by blast
  have "inj_on (\<lambda>k. 2 + of_nat k :: u32) {0..<length ?out}"
  proof (rule inj_onI)
    fix j k assume "j \<in> {0..<length ?out}" "k \<in> {0..<length ?out}" "2 + of_nat j = (2 + of_nat k :: u32)"
    then have "(of_nat j :: u32) = of_nat k" "j < 4294967296" "k < 4294967296" using assms by auto
    then have "unat (of_nat j :: u32) = unat (of_nat k :: u32)" by simp
    then show "j = k" using \<open>j < _\<close> \<open>k < _\<close> by (simp add: unat_of_nat)
  qed
  then have "distinct (rev (map (\<lambda>k. 2 + of_nat k :: u32) [0..<length ?out]))"
    by (simp add: distinct_map)
  then have "distinct ?out" using eq by metis
  moreover have "rev ?out = map (\<lambda>k. 2 + of_nat k) [0..<length ?out]"
    using arg_cong [OF eq, of rev] by simp
  ultimately show ?thesis by blast
qed

theorem allocpid_unique_witness:
  "rev (pid_out (fold pid_exec [1, 0, 1, 0] pid_init)) = [2]"
  using allocpid_unique [of "[1, 0, 1, 0]"] by (simp add: pid_init_def)

section \<open>No wakeup is lost\<close>

text \<open>
  A process that waits with \<open>while (!cond) sleep(chan, lk)\<close>, and one that acquires \<open>lk\<close>, makes
  the condition true, calls \<open>wakeup(chan)\<close> and releases \<open>lk\<close>, step by step: each acquisition
  and release of \<open>lk\<close> and of the table's lock, the test, and the changes of the state of the
  sleeper. A step of a thread whose lock is taken, or that sleeps, changes nothing.
\<close>

datatype sleeper_pc =
    S_acquire_lk | S_test | S_acquire_ptable | S_release_lk | S_set_sleeping | S_asleep
  | S_release_ptable | S_done

datatype waker_pc =
    W_acquire_lk | W_set_cond | W_acquire_ptable | W_wakeup1 | W_release_ptable | W_release_lk | W_done

record sw_sys =
  sw_cond :: bool
  sw_lk :: bool
  sw_ptable :: bool
  sw_sleeping :: bool
  sw_spc :: sleeper_pc
  sw_wpc :: waker_pc

fun sleeper_exec :: "sw_sys \<Rightarrow> sw_sys" where
  "sleeper_exec s = (case sw_spc s of
     S_acquire_lk \<Rightarrow> if sw_lk s then s else s\<lparr>sw_lk := True, sw_spc := S_test\<rparr>
   | S_test \<Rightarrow> if sw_cond s then s\<lparr>sw_lk := False, sw_spc := S_done\<rparr> else s\<lparr>sw_spc := S_acquire_ptable\<rparr>
   | S_acquire_ptable \<Rightarrow> if sw_ptable s then s else s\<lparr>sw_ptable := True, sw_spc := S_release_lk\<rparr>
   | S_release_lk \<Rightarrow> s\<lparr>sw_lk := False, sw_spc := S_set_sleeping\<rparr>
   | S_set_sleeping \<Rightarrow> s\<lparr>sw_sleeping := True, sw_ptable := False, sw_spc := S_asleep\<rparr>
   | S_asleep \<Rightarrow> if sw_sleeping s \<or> sw_ptable s then s else s\<lparr>sw_ptable := True, sw_spc := S_release_ptable\<rparr>
   | S_release_ptable \<Rightarrow> s\<lparr>sw_ptable := False, sw_spc := S_acquire_lk\<rparr>
   | S_done \<Rightarrow> s)"

fun waker_exec :: "sw_sys \<Rightarrow> sw_sys" where
  "waker_exec s = (case sw_wpc s of
     W_acquire_lk \<Rightarrow> if sw_lk s then s else s\<lparr>sw_lk := True, sw_wpc := W_set_cond\<rparr>
   | W_set_cond \<Rightarrow> s\<lparr>sw_cond := True, sw_wpc := W_acquire_ptable\<rparr>
   | W_acquire_ptable \<Rightarrow> if sw_ptable s then s else s\<lparr>sw_ptable := True, sw_wpc := W_wakeup1\<rparr>
   | W_wakeup1 \<Rightarrow> s\<lparr>sw_sleeping := False, sw_wpc := W_release_ptable\<rparr>
   | W_release_ptable \<Rightarrow> s\<lparr>sw_ptable := False, sw_wpc := W_release_lk\<rparr>
   | W_release_lk \<Rightarrow> s\<lparr>sw_lk := False, sw_wpc := W_done\<rparr>
   | W_done \<Rightarrow> s)"

definition sw_init :: sw_sys where
  "sw_init = \<lparr>sw_cond = False, sw_lk = False, sw_ptable = False, sw_sleeping = False,
     sw_spc = S_acquire_lk, sw_wpc = W_acquire_lk\<rparr>"

inductive sw_reach :: "sw_sys \<Rightarrow> bool" where
  sw_start: "sw_reach sw_init"
| sw_sleeper: "sw_reach s \<Longrightarrow> sw_reach (sleeper_exec s)"
| sw_waker: "sw_reach s \<Longrightarrow> sw_reach (waker_exec s)"

definition sw_inv :: "sw_sys \<Rightarrow> bool" where
  "sw_inv s \<longleftrightarrow>
     (let sl = sw_spc s \<in> {S_test, S_acquire_ptable, S_release_lk};
          wl = sw_wpc s \<in> {W_set_cond, W_acquire_ptable, W_wakeup1, W_release_ptable, W_release_lk};
          sp = sw_spc s \<in> {S_release_lk, S_set_sleeping, S_release_ptable};
          wp = sw_wpc s \<in> {W_wakeup1, W_release_ptable} in
      (sw_lk s \<longleftrightarrow> sl \<or> wl) \<and> \<not> (sl \<and> wl) \<and> (sw_ptable s \<longleftrightarrow> sp \<or> wp) \<and> \<not> (sp \<and> wp)
      \<and> (sw_cond s \<longleftrightarrow> sw_wpc s \<notin> {W_acquire_lk, W_set_cond})
      \<and> (sw_spc s \<in> {S_acquire_ptable, S_release_lk} \<longrightarrow> \<not> sw_cond s)
      \<and> (sw_spc s = S_set_sleeping \<and> sw_cond s \<longrightarrow> sw_wpc s = W_acquire_ptable)
      \<and> (sw_sleeping s \<longrightarrow> sw_spc s = S_asleep
           \<and> (sw_cond s \<longrightarrow> sw_wpc s \<in> {W_acquire_ptable, W_wakeup1})))"

lemma sw_inv_sleeper: "sw_inv s \<Longrightarrow> sw_inv (sleeper_exec s)"
  unfolding sw_inv_def Let_def by (cases "sw_spc s"; cases "sw_wpc s"; simp) auto

lemma sw_inv_waker: "sw_inv s \<Longrightarrow> sw_inv (waker_exec s)"
  unfolding sw_inv_def Let_def by (cases "sw_spc s"; cases "sw_wpc s"; simp) auto

lemma sw_reach_inv: "sw_reach s \<Longrightarrow> sw_inv s"
proof (induction rule: sw_reach.induct)
  case sw_start
  show ?case by (simp add: sw_inv_def sw_init_def)
qed (simp_all only: sw_inv_sleeper sw_inv_waker)

text \<open>
  C4. No wakeup is lost: in every interleaving, once the waker has called \<open>wakeup\<close> the
  waiting process is not asleep; and as long as the condition is true and the process is
  still asleep, the waker is just before that call.
\<close>

theorem no_lost_wakeup:
  assumes "sw_reach s"
  shows "(sw_sleeping s \<and> sw_cond s \<longrightarrow> sw_wpc s \<in> {W_acquire_ptable, W_wakeup1})
    \<and> (sw_wpc s = W_done \<longrightarrow> \<not> sw_sleeping s)"
  using sw_reach_inv [OF assms] unfolding sw_inv_def Let_def
  by (cases "sw_wpc s"; simp)

definition sw_step :: "bool \<Rightarrow> sw_sys \<Rightarrow> sw_sys" where
  "sw_step b = (if b then sleeper_exec else waker_exec)"

lemma sw_reach_fold: "sw_reach s \<Longrightarrow> sw_reach (fold sw_step bs s)"
  by (induction bs arbitrary: s) (simp_all add: sw_step_def sw_sleeper sw_waker del: sleeper_exec.simps waker_exec.simps)

theorem no_lost_wakeup_witness:
  "\<not> sw_sleeping (fold sw_step [True, True, True, True, True, False, False, False, False, False, False] sw_init)"
proof -
  have "sw_wpc (fold sw_step [True, True, True, True, True, False, False, False, False, False, False] sw_init) = W_done"
    by (simp add: sw_init_def sw_step_def)
  then show ?thesis
    using no_lost_wakeup [OF sw_reach_fold [OF sw_start],
        of "[True, True, True, True, True, False, False, False, False, False, False]"] by blast
qed

end
