(* ===== verification/Cstring.thy ===== *)
theory Cstring
  imports Prelude
begin

text \<open>
  The kernel's memory and string routines (\<^verbatim>\<open>string.c\<close>). The routines
  that work on raw memory (\<open>memset\<close>, \<open>memmove\<close>, \<open>memcmp\<close>) act on a byte memory
  indexed by 32-bit addresses, so that overlapping regions and the wrap-around of
  pointers are visible. The string routines read a string through a function from
  offsets to bytes and write an array given as a list.
\<close>

section \<open>Definitions\<close>

text \<open>
  \<open>rep stosb\<close> and \<open>rep stosl\<close> of \<^verbatim>\<open>x86.h\<close>: store a byte (a 32-bit word in
  little-endian order) and step the address, as often as the counter says.
\<close>

fun stosb :: "memory \<Rightarrow> u32 \<Rightarrow> u8 \<Rightarrow> nat \<Rightarrow> memory" where
  "stosb m addr data 0 = m"
| "stosb m addr data (Suc cnt) = stosb (m(addr := data)) (addr + 1) data cnt"

definition store32 :: "memory \<Rightarrow> u32 \<Rightarrow> u32 \<Rightarrow> memory" where
  "store32 m a w = m(a := ucast w, a + 1 := ucast (drop_bit 8 w),
                     a + 2 := ucast (drop_bit 16 w), a + 3 := ucast (drop_bit 24 w))"

definition load32 :: "memory \<Rightarrow> u32 \<Rightarrow> u32" where
  "load32 m a = ucast (m a) OR push_bit 8 (ucast (m (a + 1)))
      OR push_bit 16 (ucast (m (a + 2))) OR push_bit 24 (ucast (m (a + 3)))"

fun stosl :: "memory \<Rightarrow> u32 \<Rightarrow> u32 \<Rightarrow> nat \<Rightarrow> memory" where
  "stosl m addr data 0 = m"
| "stosl m addr data (Suc cnt) = stosl (store32 m addr data) (addr + 4) data cnt"

definition memset :: "memory \<Rightarrow> u32 \<Rightarrow> u32 \<Rightarrow> u32 \<Rightarrow> memory" where
  "memset m dst c n =
     (if dst mod 4 = 0 \<and> n mod 4 = 0 then
        (let c = c AND 0xFF in
         stosl m dst (push_bit 24 c OR push_bit 16 c OR push_bit 8 c OR c) (unat (n div 4)))
      else stosb m dst (ucast c) (unat n))"

fun memcmp_loop :: "memory \<Rightarrow> u32 \<Rightarrow> u32 \<Rightarrow> nat \<Rightarrow> int" where
  "memcmp_loop m s1 s2 0 = 0"
| "memcmp_loop m s1 s2 (Suc n) =
     (if m s1 \<noteq> m s2 then uint (m s1) - uint (m s2)
      else memcmp_loop m (s1 + 1) (s2 + 1) n)"

definition memcmp :: "memory \<Rightarrow> u32 \<Rightarrow> u32 \<Rightarrow> u32 \<Rightarrow> int" where
  "memcmp m v1 v2 n = memcmp_loop m v1 v2 (unat n)"

text \<open>The two loops of \<open>memmove\<close>: downwards from the ends, or upwards.\<close>

fun copy_down :: "memory \<Rightarrow> u32 \<Rightarrow> u32 \<Rightarrow> nat \<Rightarrow> memory" where
  "copy_down m d s 0 = m"
| "copy_down m d s (Suc n) = copy_down (m(d - 1 := m (s - 1))) (d - 1) (s - 1) n"

fun copy_up :: "memory \<Rightarrow> u32 \<Rightarrow> u32 \<Rightarrow> nat \<Rightarrow> memory" where
  "copy_up m d s 0 = m"
| "copy_up m d s (Suc n) = copy_up (m(d := m s)) (d + 1) (s + 1) n"

definition memmove :: "memory \<Rightarrow> u32 \<Rightarrow> u32 \<Rightarrow> u32 \<Rightarrow> memory" where
  "memmove m dst src n =
     (if src < dst \<and> dst < src + n then copy_down m (dst + n) (src + n) (unat n)
      else copy_up m dst src (unat n))"

definition memcpy :: "memory \<Rightarrow> u32 \<Rightarrow> u32 \<Rightarrow> u32 \<Rightarrow> memory" where
  "memcpy m dst src n = memmove m dst src n"

fun strncmp_loop :: "(nat \<Rightarrow> u8) \<Rightarrow> (nat \<Rightarrow> u8) \<Rightarrow> nat \<Rightarrow> nat \<Rightarrow> int" where
  "strncmp_loop p q i 0 = 0"
| "strncmp_loop p q i (Suc n) =
     (if p i \<noteq> 0 \<and> p i = q i then strncmp_loop p q (Suc i) n
      else uint (p i) - uint (q i))"

definition strncmp :: "(nat \<Rightarrow> u8) \<Rightarrow> (nat \<Rightarrow> u8) \<Rightarrow> nat \<Rightarrow> int" where
  "strncmp p q n = strncmp_loop p q 0 n"

fun zero_loop :: "u8 list \<Rightarrow> nat \<Rightarrow> nat \<Rightarrow> u8 list" where
  "zero_loop s i 0 = s"
| "zero_loop s i (Suc n) = zero_loop (s[i := 0]) (Suc i) n"

fun strncpy_loop :: "u8 list \<Rightarrow> (nat \<Rightarrow> u8) \<Rightarrow> nat \<Rightarrow> nat \<Rightarrow> u8 list" where
  "strncpy_loop s t i 0 = s"
| "strncpy_loop s t i (Suc n) =
     (if t i \<noteq> 0 then strncpy_loop (s[i := t i]) t (Suc i) n
      else zero_loop (s[i := t i]) (Suc i) n)"

definition strncpy :: "u8 list \<Rightarrow> (nat \<Rightarrow> u8) \<Rightarrow> int \<Rightarrow> u8 list" where
  "strncpy s t n = strncpy_loop s t 0 (nat n)"

text \<open>\<open>k\<close> is what \<open>--n > 0\<close> leaves to copy before the final \<open>*s = 0\<close>.\<close>

fun safestrcpy_loop :: "u8 list \<Rightarrow> (nat \<Rightarrow> u8) \<Rightarrow> nat \<Rightarrow> nat \<Rightarrow> u8 list" where
  "safestrcpy_loop s t i 0 = s[i := 0]"
| "safestrcpy_loop s t i (Suc k) =
     (if t i \<noteq> 0 then safestrcpy_loop (s[i := t i]) t (Suc i) k
      else s[i := t i, Suc i := 0])"

definition safestrcpy :: "u8 list \<Rightarrow> (nat \<Rightarrow> u8) \<Rightarrow> int \<Rightarrow> u8 list" where
  "safestrcpy s t n = (if n \<le> 0 then s else safestrcpy_loop s t 0 (nat (n - 1)))"

text \<open>\<open>strlen\<close> has no bound: it returns only if it meets a zero byte.\<close>

partial_function (option) strlen_from :: "(nat \<Rightarrow> u8) \<Rightarrow> nat \<Rightarrow> nat option" where
  "strlen_from s n = (if s n \<noteq> 0 then strlen_from s (Suc n) else Some n)"

definition strlen :: "(nat \<Rightarrow> u8) \<Rightarrow> nat option" where
  "strlen s = strlen_from s 0"

section \<open>Filling memory\<close>

lemma stosb_eq:
  "n < 2 ^ 32 \<Longrightarrow> stosb m d c n = (\<lambda>a. if unat (a - d) < n then c else m a)"
proof (induction n arbitrary: m d)
  case 0
  then show ?case by simp
next
  case (Suc n)
  then have IH: "stosb (m(d := c)) (d + 1) c n =
      (\<lambda>a. if unat (a - (d + 1)) < n then c else (m(d := c)) a)"
    by simp
  have "n < 2 ^ 32 - 1" using Suc.prems by simp
  then show ?case
    by (auto simp: IH region_step fun_eq_iff)
qed

lemma stosb_append: "stosb m d c (j + k) = stosb (stosb m d c j) (d + of_nat j) c k"
  by (induction j arbitrary: m d) (simp_all add: algebra_simps)

definition splat :: "u8 \<Rightarrow> u32 \<Rightarrow> bool" where
  "splat c w \<longleftrightarrow> ucast w = c \<and> ucast (drop_bit 8 w) = c \<and> ucast (drop_bit 16 w) = c
     \<and> ucast (drop_bit 24 w) = c"

lemma store32_stosb: "splat c w \<Longrightarrow> store32 m d w = stosb m d c 4"
  by (simp add: store32_def splat_def numeral_eq_Suc add.assoc)

lemma stosl_stosb: "splat c w \<Longrightarrow> stosl m d w k = stosb m d c (4 * k)"
proof (induction k arbitrary: m d)
  case 0
  then show ?case by simp
next
  case (Suc k)
  then have "stosl m d w (Suc k) = stosb (stosb m d c 4) (d + 4) c (4 * k)"
    by (simp add: store32_stosb)
  also have "\<dots> = stosb m d c (4 + 4 * k)"
    by (simp only: stosb_append) simp
  finally show ?case by simp
qed

lemma memset_word_splat:
  fixes c :: u32
  defines "b \<equiv> c AND 0xFF"
  shows "splat (ucast c) (push_bit 24 b OR push_bit 16 b OR push_bit 8 b OR b)"
proof -
  have ff: "(0xFF :: u32) = mask 8" by (simp add: mask_eq_exp_minus_1)
  show ?thesis unfolding splat_def b_def ff
    by (intro conjI; intro bit_word_eqI) (auto simp: bit_simps)
qed

lemma memset_eq:
  "memset m dst c n = (\<lambda>a. if unat (a - dst) < unat n then ucast c else m a)"
proof (cases "dst mod 4 = 0 \<and> n mod 4 = 0")
  case True
  then have "unat (n mod 4) = 0" by simp
  then have "unat n mod 4 = 0" by (simp only: unat_mod unat_numeral) simp
  moreover have "unat (n div 4) = unat n div 4" by (simp only: unat_div unat_numeral) simp
  ultimately have n: "4 * unat (n div 4) = unat n" by presburger
  have "memset m dst c n = stosb m dst (ucast c) (unat n)"
    using True unfolding memset_def Let_def
    by (simp only: simp_thms if_True stosl_stosb [OF memset_word_splat] n)
  then show ?thesis by (simp add: stosb_eq)
next
  case False
  then have "memset m dst c n = stosb m dst (ucast c) (unat n)"
    unfolding memset_def by (rule if_not_P)
  then show ?thesis by (simp add: stosb_eq)
qed

section \<open>Copying memory\<close>

lemma copy_up_eq:
  assumes "n < 2 ^ 32" and "d = s \<or> n \<le> unat (d - s)"
  shows "copy_up m d s n = (\<lambda>a. if unat (a - d) < n then m (s + (a - d)) else m a)"
  using assms
proof (induction n arbitrary: m d s)
  case 0
  then show ?case by simp
next
  case (Suc n)
  have IH: "copy_up (m(d := m s)) (d + 1) (s + 1) n =
      (\<lambda>a. if unat (a - (d + 1)) < n then (m(d := m s)) (s + 1 + (a - (d + 1)))
           else (m(d := m s)) a)"
    by (rule Suc.IH) (use Suc.prems in auto)
  have src: "s + (a - d) \<noteq> d" if "a \<noteq> d" "unat (a - d) < Suc n" for a
  proof
    assume "s + (a - d) = d"
    then have "a - d = d - s" by (simp add: algebra_simps)
    with that Suc.prems(2) show False by auto
  qed
  have off: "s + 1 + (a - (d + 1)) = s + (a - d)" for a by simp
  have "n < 2 ^ 32 - 1" using Suc.prems by simp
  then show ?case
    by (auto simp: IH region_step fun_eq_iff src off)
qed

lemma copy_down_eq:
  assumes "n < 2 ^ 32" and "d = s \<or> n \<le> unat (s - d)"
  shows "copy_down m (d + of_nat n) (s + of_nat n) n =
    (\<lambda>a. if unat (a - d) < n then m (s + (a - d)) else m a)"
  using assms
proof (induction n arbitrary: m)
  case 0
  then show ?case by simp
next
  case (Suc n)
  let ?m = "m(d + of_nat n := m (s + of_nat n))"
  have IH: "copy_down ?m (d + of_nat n) (s + of_nat n) n =
      (\<lambda>a. if unat (a - d) < n then ?m (s + (a - d)) else ?m a)"
    by (rule Suc.IH) (use Suc.prems in auto)
  have un: "unat (of_nat n :: u32) = n" using Suc.prems(1) by (simp add: unat_of_nat)
  have here: "a = d + of_nat n" if "unat (a - d) = n" for a
  proof -
    have "a - d = of_nat n" using that un by (simp only: word_unat_eq_iff)
    then show ?thesis by (simp add: algebra_simps)
  qed
  have src: "s + (a - d) \<noteq> d + of_nat n" if "unat (a - d) < n" for a
  proof
    assume "s + (a - d) = d + of_nat n"
    then have eq: "of_nat n - (a - d) = s - d" by (simp add: algebra_simps)
    have "unat (of_nat n - (a - d)) = n - unat (a - d)"
      using that un by (subst unat_sub) (auto simp: word_le_nat_alt)
    then have "unat (s - d) \<le> n" unfolding eq by linarith
    then have "s = d" using Suc.prems(2) by auto
    with eq have "of_nat n = a - d" by (simp only: diff_self right_minus_eq)
    then have "unat (a - d) = n" using un by metis
    with that show False by simp
  qed
  have step: "copy_down m (d + of_nat (Suc n)) (s + of_nat (Suc n)) (Suc n) =
      copy_down ?m (d + of_nat n) (s + of_nat n) n"
    by simp
  show ?case
  proof
    fix a
    consider "unat (a - d) < n" | "unat (a - d) = n" | "n < unat (a - d)" by linarith
    then show "copy_down m (d + of_nat (Suc n)) (s + of_nat (Suc n)) (Suc n) a =
        (if unat (a - d) < Suc n then m (s + (a - d)) else m a)"
    proof cases
      case 1
      then show ?thesis unfolding step IH using src by simp
    next
      case 2
      then show ?thesis unfolding step IH using here [OF 2] by simp
    next
      case 3
      then have "a \<noteq> d + of_nat n" using un by auto
      with 3 show ?thesis unfolding step IH by simp
    qed
  qed
qed

lemma memmove_eq:
  assumes "unat src + unat n < 2 ^ 32" and "unat dst + unat n \<le> 2 ^ 32"
  shows "memmove m dst src n =
    (\<lambda>a. if unat (a - dst) < unat n then m (src + (a - dst)) else m a)"
proof -
  have last: "unat (src + n) = unat src + unat n"
    using assms(1) by (simp add: unat_plus_if')
  show ?thesis
  proof (cases "src < dst \<and> dst < src + n")
    case True
    then have "unat n \<le> unat (src - dst)"
      using assms by (auto simp: unat_sub_if' word_less_nat_alt last)
    moreover have "memmove m dst src n = copy_down m (dst + n) (src + n) (unat n)"
      using True by (simp add: memmove_def)
    ultimately show ?thesis
      using copy_down_eq [of "unat n" dst src m] by simp
  next
    case False
    then have "dst = src \<or> unat n \<le> unat (dst - src)"
      using assms by (auto simp: unat_sub_if' word_less_nat_alt last word_unat_eq_iff)
    moreover have "memmove m dst src n = copy_up m dst src (unat n)"
      unfolding memmove_def using False by (rule if_not_P)
    ultimately show ?thesis
      using copy_up_eq [of "unat n" dst src m] by simp
  qed
qed

section \<open>Strings\<close>

text \<open>The C string held in the first \<open>n\<close> bytes from offset \<open>i\<close>.\<close>

definition cstr :: "(nat \<Rightarrow> u8) \<Rightarrow> nat \<Rightarrow> nat \<Rightarrow> u8 list" where
  "cstr s i n = takeWhile (\<lambda>b. b \<noteq> 0) (map s [i..<i + n])"

lemma cstr_0 [simp]: "cstr s i 0 = []"
  by (simp add: cstr_def)

lemma cstr_Suc: "cstr s i (Suc n) = (if s i \<noteq> 0 then s i # cstr s (Suc i) n else [])"
  by (simp add: cstr_def upt_rec [of i])

lemma length_cstr: "length (cstr s i n) \<le> n"
  using length_takeWhile_le [of "\<lambda>b. b \<noteq> 0" "map s [i..<i + n]"] by (simp add: cstr_def)

lemma strncmp_loop_zero:
  "strncmp_loop p q i n = 0 \<longleftrightarrow> cstr p i n = cstr q i n"
  by (induction p q i n rule: strncmp_loop.induct) (auto simp: cstr_Suc word_uint_eq_iff)

lemma strncmp_zero: "strncmp p q n = 0 \<longleftrightarrow> cstr p 0 n = cstr q 0 n"
  by (simp add: strncmp_def strncmp_loop_zero)

lemma zero_loop_eq:
  "i + n \<le> length s \<Longrightarrow> zero_loop s i n = take i s @ replicate n 0 @ drop (i + n) s"
proof (induction s i n rule: zero_loop.induct)
  case (2 s i n)
  then show ?case
    by (simp add: take_Suc_conv_app_nth upd_conv_take_nth_drop add.commute)
qed simp

lemma strncpy_loop_eq:
  "i + n \<le> length s \<Longrightarrow>
   strncpy_loop s t i n =
     take i s @ cstr t i n @ replicate (n - length (cstr t i n)) 0 @ drop (i + n) s"
proof (induction s t i n rule: strncpy_loop.induct)
  case (2 s t i n)
  show ?case
  proof (cases "t i = 0")
    case True
    with "2.prems" show ?thesis
      by (simp add: zero_loop_eq cstr_Suc upd_conv_take_nth_drop add.commute)
  next
    case False
    with "2.IH" "2.prems" show ?thesis
      by (simp add: cstr_Suc upd_conv_take_nth_drop add.commute)
  qed
qed simp

lemma strncpy_eq:
  assumes "0 \<le> n" and "nat n \<le> length s"
  shows "strncpy s t n =
    cstr t 0 (nat n) @ replicate (nat n - length (cstr t 0 (nat n))) 0 @ drop (nat n) s"
  using strncpy_loop_eq [of 0 "nat n" s t] assms by (simp add: strncpy_def)

lemma safestrcpy_loop_eq:
  "i + k < length s \<Longrightarrow>
   \<exists>tail. safestrcpy_loop s t i k = take i s @ cstr t i k @ 0 # tail
     \<and> length (safestrcpy_loop s t i k) = length s"
proof (induction s t i k rule: safestrcpy_loop.induct)
  case (1 s t i)
  then show ?case by (simp add: upd_conv_take_nth_drop)
next
  case (2 s t i k)
  show ?case
  proof (cases "t i = 0")
    case True
    with "2.prems" have "safestrcpy_loop s t i (Suc k) = take i s @ 0 # (drop (Suc i) s)[0 := 0]"
      by (simp add: upd_conv_take_nth_drop [of i s] list_update_append min_def)
    moreover have "length (safestrcpy_loop s t i (Suc k)) = length s" using True by simp
    ultimately show ?thesis using True by (simp add: cstr_Suc)
  next
    case False
    with "2.IH" "2.prems" show ?thesis
      by (auto simp: cstr_Suc upd_conv_take_nth_drop)
  qed
qed

lemma safestrcpy_string:
  assumes "0 < n" and "nat n \<le> length s"
  shows "takeWhile (\<lambda>b. b \<noteq> 0) (safestrcpy s t n) = cstr t 0 (nat n - 1)"
    and "length (safestrcpy s t n) = length s"
proof -
  obtain tail where tail: "safestrcpy s t n = cstr t 0 (nat (n - 1)) @ 0 # tail"
    and len: "length (safestrcpy s t n) = length s"
    using safestrcpy_loop_eq [of 0 "nat (n - 1)" s t] assms
    by (fastforce simp: safestrcpy_def)
  have n: "nat (n - 1) = nat n - 1" using assms(1) by simp
  have "\<forall>b \<in> set (cstr t 0 k). b \<noteq> 0" for k
    by (auto simp: cstr_def dest: set_takeWhileD)
  then show "takeWhile (\<lambda>b. b \<noteq> 0) (safestrcpy s t n) = cstr t 0 (nat n - 1)"
    by (simp add: tail takeWhile_append n)
  show "length (safestrcpy s t n) = length s" by (rule len)
qed

lemma strlen_from_Some:
  assumes "s j = 0" and "n \<le> j"
  shows "\<exists>k. strlen_from s n = Some k \<and> n \<le> k \<and> s k = 0 \<and> (\<forall>i. n \<le> i \<and> i < k \<longrightarrow> s i \<noteq> 0)"
  using assms(2)
proof (induction "j - n" arbitrary: n)
  case 0
  with assms(1) show ?case by (subst strlen_from.simps) auto
next
  case (Suc d)
  show ?case
  proof (cases "s n = 0")
    case True
    then show ?thesis by (subst strlen_from.simps) auto
  next
    case False
    from Suc have "d = j - Suc n" "Suc n \<le> j" by auto
    from Suc.hyps(1) [OF this] obtain k where
      k: "strlen_from s (Suc n) = Some k" "Suc n \<le> k" "s k = 0"
      "\<forall>i. Suc n \<le> i \<and> i < k \<longrightarrow> s i \<noteq> 0" by auto
    from k(1) False have "strlen_from s n = Some k" by (subst strlen_from.simps) simp
    moreover have "s i \<noteq> 0" if "n \<le> i" "i < k" for i
      using k(4) False that by (cases "i = n") auto
    ultimately show ?thesis using k by auto
  qed
qed

section \<open>Properties\<close>

text \<open>
  C30. \<open>memmove\<close> copies correctly whether or not the regions overlap and whichever loop it
  takes: afterwards the destination holds what the source held before, and every byte
  outside the destination is unchanged.
\<close>

theorem memmove_correct:
  assumes "unat src + unat n < 2 ^ 32" "unat dst + unat n \<le> 2 ^ 32"
  shows "(\<forall>k<unat n. memmove m dst src n (dst + of_nat k) = m (src + of_nat k))
    \<and> (\<forall>a. unat n \<le> unat (a - dst) \<longrightarrow> memmove m dst src n a = m a)"
proof -
  have "unat (of_nat k :: u32) = k" if "k < unat n" for k
  proof -
    have "k < 4294967296" using that unat_u32_less [of n] by linarith
    then show ?thesis by (simp add: unat_of_nat)
  qed
  then show ?thesis by (simp add: memmove_eq [OF assms])
qed

theorem memmove_correct_witness:
  "memmove (\<lambda>a. ucast a) 12 10 5 (12 + of_nat 4) = 14 \<and> memmove (\<lambda>a. ucast a) 12 10 5 11 = 11"
proof -
  have "unat (11 - 12 :: u32) = 4294967295"
    by (simp add: unsigned_minus_1_eq_mask mask_eq_exp_minus_1)
  then show ?thesis
    using memmove_correct [of 10 5 12 "\<lambda>a. ucast a"] by (auto dest: spec [of _ 4])
qed

text \<open>
  C31. \<open>safestrcpy\<close> always leaves a terminated string: for \<open>n > 0\<close> and a buffer of at
  least \<open>n\<close> bytes, the buffer keeps its length, has a zero byte among its first \<open>n\<close>
  bytes, and the string before it is the source string cut to \<open>n - 1\<close> bytes.
\<close>

theorem safestrcpy_terminated:
  assumes "0 < n" "nat n \<le> length s"
  shows "length (safestrcpy s t n) = length s
    \<and> takeWhile (\<lambda>b. b \<noteq> 0) (safestrcpy s t n) = cstr t 0 (nat n - 1)
    \<and> length (takeWhile (\<lambda>b. b \<noteq> 0) (safestrcpy s t n)) < nat n"
  using safestrcpy_string [OF assms, of t] length_cstr [of t 0 "nat n - 1"] assms(1) by simp

theorem safestrcpy_terminated_witness:
  "takeWhile (\<lambda>b. b \<noteq> 0) (safestrcpy [9, 9, 9, 9, 9] (\<lambda>i. of_nat (Suc i)) 4) = [1, 2, 3]"
  using safestrcpy_terminated [of 4 "[9, 9, 9, 9, 9]" "\<lambda>i. of_nat (Suc i)"]
  by (simp add: cstr_def upt_rec)

end
