(* ===== verification/Mmu.thy ===== *)
theory Mmu
  imports Prelude
begin

text \<open>
  The memory-management constants and macros of the kernel
  (\<^verbatim>\<open>mmu.h\<close>, \<^verbatim>\<open>memlayout.h\<close>): rounding to pages, the split of a
  virtual address into directory index, table index and offset, page-table
  entries, and the segment and gate descriptors that \<open>seginit\<close>, \<open>switchuvm\<close>
  and \<open>tvinit\<close> build.
\<close>

section \<open>Constants and address macros\<close>

abbreviation (input) EXTMEM :: u32 where "EXTMEM \<equiv> 0x100000"
abbreviation (input) PHYSTOP :: u32 where "PHYSTOP \<equiv> 0xE000000"
abbreviation (input) DEVSPACE :: u32 where "DEVSPACE \<equiv> 0xFE000000"
abbreviation (input) KERNBASE :: u32 where "KERNBASE \<equiv> 0x80000000"
abbreviation (input) KERNLINK :: u32 where "KERNLINK \<equiv> 0x80100000"
abbreviation (input) PGSIZE :: u32 where "PGSIZE \<equiv> 4096"
abbreviation (input) PTE_P :: u32 where "PTE_P \<equiv> 0x001"
abbreviation (input) PTE_W :: u32 where "PTE_W \<equiv> 0x002"
abbreviation (input) PTE_U :: u32 where "PTE_U \<equiv> 0x004"
abbreviation (input) PTE_PS :: u32 where "PTE_PS \<equiv> 0x080"

definition V2P :: "u32 \<Rightarrow> u32" where
  "V2P a = a - KERNBASE"

definition P2V :: "u32 \<Rightarrow> u32" where
  "P2V a = a + KERNBASE"

definition PDX :: "u32 \<Rightarrow> u32" where
  "PDX va = drop_bit 22 va AND 0x3FF"

definition PTX :: "u32 \<Rightarrow> u32" where
  "PTX va = drop_bit 12 va AND 0x3FF"

definition PGADDR :: "u32 \<Rightarrow> u32 \<Rightarrow> u32 \<Rightarrow> u32" where
  "PGADDR d t off = push_bit 22 d OR push_bit 12 t OR off"

definition PGROUNDUP :: "u32 \<Rightarrow> u32" where
  "PGROUNDUP sz = (sz + PGSIZE - 1) AND NOT (PGSIZE - 1)"

definition PGROUNDDOWN :: "u32 \<Rightarrow> u32" where
  "PGROUNDDOWN a = a AND NOT (PGSIZE - 1)"

definition PTE_ADDR :: "u32 \<Rightarrow> u32" where
  "PTE_ADDR pte = pte AND NOT 0xFFF"

definition PTE_FLAGS :: "u32 \<Rightarrow> u32" where
  "PTE_FLAGS pte = pte AND 0xFFF"

section \<open>Descriptors\<close>

record segdesc =
  lim_15_0 :: u16
  base_15_0 :: u16
  base_23_16 :: u8
  sd_type :: "4 word"
  sd_s :: "1 word"
  sd_dpl :: "2 word"
  sd_p :: "1 word"
  lim_19_16 :: "4 word"
  sd_avl :: "1 word"
  sd_rsv1 :: "1 word"
  sd_db :: "1 word"
  sd_g :: "1 word"
  base_31_24 :: u8

definition SEG :: "4 word \<Rightarrow> u32 \<Rightarrow> u32 \<Rightarrow> 2 word \<Rightarrow> segdesc" where
  "SEG ty base lim dpl =
     \<lparr>lim_15_0 = ucast (drop_bit 12 lim AND 0xffff), base_15_0 = ucast (base AND 0xffff),
      base_23_16 = ucast (drop_bit 16 base AND 0xff), sd_type = ty, sd_s = 1,
      sd_dpl = dpl, sd_p = 1, lim_19_16 = ucast (drop_bit 28 lim), sd_avl = 0,
      sd_rsv1 = 0, sd_db = 1, sd_g = 1, base_31_24 = ucast (drop_bit 24 base)\<rparr>"

definition SEG16 :: "4 word \<Rightarrow> u32 \<Rightarrow> u32 \<Rightarrow> 2 word \<Rightarrow> segdesc" where
  "SEG16 ty base lim dpl =
     \<lparr>lim_15_0 = ucast (lim AND 0xffff), base_15_0 = ucast (base AND 0xffff),
      base_23_16 = ucast (drop_bit 16 base AND 0xff), sd_type = ty, sd_s = 1,
      sd_dpl = dpl, sd_p = 1, lim_19_16 = ucast (drop_bit 16 lim), sd_avl = 0,
      sd_rsv1 = 0, sd_db = 1, sd_g = 0, base_31_24 = ucast (drop_bit 24 base)\<rparr>"

record gatedesc =
  off_15_0 :: u16
  gd_cs :: u16
  gd_args :: "5 word"
  gd_rsv1 :: "3 word"
  gd_type :: "4 word"
  gd_s :: "1 word"
  gd_dpl :: "2 word"
  gd_p :: "1 word"
  off_31_16 :: u16

definition SETGATE :: "bool \<Rightarrow> u16 \<Rightarrow> u32 \<Rightarrow> 2 word \<Rightarrow> gatedesc" where
  "SETGATE istrap sel off d =
     \<lparr>off_15_0 = ucast (off AND 0xffff), gd_cs = sel, gd_args = 0, gd_rsv1 = 0,
      gd_type = (if istrap then 0xF else 0xE), gd_s = 0, gd_dpl = d, gd_p = 1,
      off_31_16 = ucast (drop_bit 16 off)\<rparr>"

section \<open>Rounding and splitting addresses\<close>

lemma mask12: "(0xFFF :: u32) = mask 12" and mask10: "(0x3FF :: u32) = mask 10"
  by (simp_all add: mask_eq_exp_minus_1)

lemma PGROUNDDOWN_shift: "PGROUNDDOWN a = push_bit 12 (drop_bit 12 a)"
proof -
  have m: "(PGSIZE - 1 :: u32) = mask 12" by (simp add: mask_eq_exp_minus_1)
  show ?thesis unfolding PGROUNDDOWN_def m
    by (rule bit_word_eqI) (auto simp: bit_simps)
qed

lemma PGROUNDDOWN_eq: "unat (PGROUNDDOWN a) = unat a div 4096 * 4096"
proof -
  have "unat a div 4096 * 4096 < 4294967296"
    using div_times_less_eq_dividend [of "unat a" 4096] unat_u32_less [of a] by linarith
  then show ?thesis
    unfolding PGROUNDDOWN_shift
    unfolding unsigned_push_bit_eq unat_drop_bit_eq
    unfolding push_bit_eq_mult drop_bit_eq_div take_bit_eq_mod by simp
qed

lemma PGROUNDUP_down: "PGROUNDUP sz = PGROUNDDOWN (sz + 4095)"
  by (simp add: PGROUNDUP_def PGROUNDDOWN_def add.commute)

lemma PGROUNDUP_eq:
  assumes "unat sz + 4095 < 2 ^ 32"
  shows "unat (PGROUNDUP sz) = (unat sz + 4095) div 4096 * 4096"
  using assms by (simp add: PGROUNDUP_down PGROUNDDOWN_eq unat_plus_if')

text \<open>Within the last page of the address space the sum wraps and the result is 0.\<close>

lemma PGROUNDUP_wraps:
  assumes "2 ^ 32 \<le> unat sz + 4095"
  shows "PGROUNDUP sz = 0"
proof -
  have "unat (sz + 4095) = unat sz + 4095 - 4294967296"
    using assms by (simp add: unat_plus_if')
  then have "unat (sz + 4095) < 4096" using unat_u32_less [of sz] by linarith
  then have "unat (PGROUNDDOWN (sz + 4095)) = 0" by (simp add: PGROUNDDOWN_eq)
  then show ?thesis by (simp add: PGROUNDUP_down unat_eq_0)
qed

lemma PGROUNDUP_ge:
  assumes "unat sz + 4095 < 2 ^ 32"
  shows "sz \<le> PGROUNDUP sz"
  using PGROUNDUP_eq [OF assms] by (simp add: word_le_nat_alt)

lemma PGROUNDDOWN_le: "PGROUNDDOWN a \<le> a"
  by (simp add: word_le_nat_alt PGROUNDDOWN_eq)

lemma PDX_less: "PDX va < 1024"
  using and_mask_less' [of 10 "drop_bit 22 va"] by (simp add: PDX_def mask10)

lemma PTX_less: "PTX va < 1024"
  using and_mask_less' [of 10 "drop_bit 12 va"] by (simp add: PTX_def mask10)

lemma PGADDR_split: "PGADDR (PDX va) (PTX va) (PTE_FLAGS va) = va"
proof (rule bit_word_eqI)
  fix n assume n: "n < LENGTH(32)"
  consider "n < 12" | "12 \<le> n \<and> n < 22" | "22 \<le> n" by linarith
  then show "bit (PGADDR (PDX va) (PTX va) (PTE_FLAGS va)) n = bit va n"
    unfolding PGADDR_def PDX_def PTX_def PTE_FLAGS_def mask10 mask12
    by cases (use n in \<open>auto simp: bit_simps\<close>)
qed

lemma PDX_PGADDR:
  assumes "d < 1024" and "t < 1024" and "off < 4096"
  shows "PDX (PGADDR d t off) = d" and "PTX (PGADDR d t off) = t"
    and "PTE_FLAGS (PGADDR d t off) = off"
proof -
  have hi: "10 \<le> n \<Longrightarrow> \<not> bit d n" "10 \<le> n \<Longrightarrow> \<not> bit t n" "12 \<le> n \<Longrightarrow> \<not> bit off n" for n
    using assms high_bits_zero [of d 10] high_bits_zero [of t 10] high_bits_zero [of off 12]
    by simp_all
  show "PDX (PGADDR d t off) = d"
  proof (rule bit_word_eqI)
    fix n show "bit (PDX (PGADDR d t off)) n = bit d n"
      unfolding PGADDR_def PDX_def mask10
      by (cases "n < 10") (simp_all add: bit_simps hi)
  qed
  show "PTX (PGADDR d t off) = t"
  proof (rule bit_word_eqI)
    fix n show "bit (PTX (PGADDR d t off)) n = bit t n"
      unfolding PGADDR_def PTX_def mask10
      by (cases "n < 10") (simp_all add: bit_simps hi)
  qed
  show "PTE_FLAGS (PGADDR d t off) = off"
  proof (rule bit_word_eqI)
    fix n show "bit (PTE_FLAGS (PGADDR d t off)) n = bit off n"
      unfolding PGADDR_def PTE_FLAGS_def mask12
      by (cases "n < 12") (simp_all add: bit_simps hi)
  qed
qed

lemma PTE_ADDR_FLAGS: "PTE_ADDR pte OR PTE_FLAGS pte = pte"
  unfolding PTE_ADDR_def PTE_FLAGS_def mask12
  by (rule bit_word_eqI) (auto simp: bit_simps)

lemma PTE_of_parts:
  assumes "PTE_FLAGS pa = 0" and "PTE_ADDR flags = 0"
  shows "PTE_ADDR (pa OR flags) = pa" and "PTE_FLAGS (pa OR flags) = flags"
proof -
  have lo: "\<not> bit pa n" if "n < 12" for n
    using arg_cong [OF assms(1), of "\<lambda>w. bit w n"] that
    by (simp add: PTE_FLAGS_def mask12 bit_simps)
  have hi: "\<not> bit flags n" if "12 \<le> n" for n
    using arg_cong [OF assms(2), of "\<lambda>w. bit w n"] that
    by (auto simp: PTE_ADDR_def mask12 bit_simps dest: bit_imp_le_length)
  show "PTE_ADDR (pa OR flags) = pa"
  proof (rule bit_word_eqI)
    fix n assume "n < LENGTH(32)"
    then show "bit (PTE_ADDR (pa OR flags)) n = bit pa n"
      unfolding PTE_ADDR_def mask12
      by (cases "n < 12") (simp_all add: bit_simps lo hi)
  qed
  show "PTE_FLAGS (pa OR flags) = flags"
  proof (rule bit_word_eqI)
    fix n show "bit (PTE_FLAGS (pa OR flags)) n = bit flags n"
      unfolding PTE_FLAGS_def mask12
      by (cases "n < 12") (simp_all add: bit_simps lo hi)
  qed
qed

lemma V2P_P2V [simp]: "V2P (P2V a) = a" and P2V_V2P [simp]: "P2V (V2P a) = a"
  by (simp_all add: V2P_def P2V_def)

section \<open>Properties\<close>

text \<open>
  C32. A virtual address is its directory index, table index and offset, and nothing
  else: \<open>PGADDR\<close> puts together what \<open>PDX\<close>, \<open>PTX\<close> and the low 12 bits take apart, for
  every address, and the parts come back from \<open>PGADDR\<close> for every choice of them in range.
\<close>

theorem PGADDR_round_trip:
  "PGADDR (PDX va) (PTX va) (PTE_FLAGS va) = va
   \<and> (d < 1024 \<and> t < 1024 \<and> off < 4096 \<longrightarrow>
      PDX (PGADDR d t off) = d \<and> PTX (PGADDR d t off) = t \<and> PTE_FLAGS (PGADDR d t off) = off)"
  using PGADDR_split PDX_PGADDR by blast

theorem PGADDR_round_trip_witness:
  "PDX (PGADDR 513 7 0x123) = 513 \<and> PTX (PGADDR 513 7 0x123) = 7"
  using PGADDR_round_trip [where d = 513 and t = 7 and off = "0x123"] by simp

end
