(* ===== verification/Pages.thy ===== *)
theory Pages
  imports Cstring Mmu
begin

text \<open>
  Words and pages of the byte memory: how \<open>load32\<close>, \<open>store32\<close>, \<open>memset\<close> and
  \<open>memmove\<close> act on aligned words and on whole pages. No code of its own.
\<close>

section \<open>Words in memory\<close>

text \<open>Aligned words do not overlap; a word that is aligned lies in one page.\<close>

definition aligned4 :: "u32 \<Rightarrow> bool" where
  "aligned4 a \<longleftrightarrow> unat a mod 4 = 0"

lemma aligned_add:
  fixes a :: u32
  assumes "aligned4 a" "k < 4"
  shows "unat (a + of_nat k) = unat a + k" "unat a mod 4 = 0"
proof -
  show m: "unat a mod 4 = 0"
    using assms(1) by (simp add: aligned4_def)
  then obtain q where q: "unat a = 4 * q" by (auto simp: mod_eq_0_iff_dvd elim: dvdE)
  have "q < 1073741824" using unat_u32_less [of a] unfolding q by linarith
  then have "unat a + k < 4294967296"
    using assms(2) unfolding q by linarith
  moreover have "unat (of_nat k :: u32) = k"
    using assms(2) by (simp add: unat_of_nat)
  ultimately show "unat (a + of_nat k) = unat a + k"
    by (simp add: unat_plus_if')
qed

lemma aligned_disjoint:
  fixes a b :: u32
  assumes "aligned4 a" "aligned4 b" "a \<noteq> b" "i < 4" "j < 4"
  shows "a + of_nat i \<noteq> b + of_nat j"
proof
  assume "a + of_nat i = b + of_nat j"
  then have "unat a + i = unat b + j"
    using aligned_add [OF assms(1,4)] aligned_add [OF assms(2,5)] by metis
  moreover obtain p q where "unat a = 4 * p" "unat b = 4 * q"
    using aligned_add(2) [OF assms(1,4)] aligned_add(2) [OF assms(2,5)]
    by (auto simp: mod_eq_0_iff_dvd elim!: dvdE)
  ultimately have "p = q" "unat a = 4 * p" "unat b = 4 * q"
    using assms(4,5) by linarith+
  then show False using assms(3) by (simp add: word_unat_eq_iff)
qed

lemma word_nat_cases: "(\<forall>i<4. P i) \<longleftrightarrow> P 0 \<and> P 1 \<and> P 2 \<and> P (3::nat)"
  by (auto simp: numeral_eq_Suc less_Suc_eq)

lemma load32_cong:
  assumes "\<And>k. k < 4 \<Longrightarrow> m (a + of_nat k) = m' (a + of_nat k)"
  shows "load32 m a = load32 m' a"
  using assms [of 0] assms [of 1] assms [of 2] assms [of 3] by (simp add: load32_def)

lemma load32_store32 [simp]: "load32 (store32 m a w) a = w"
proof (rule bit_word_eqI)
  fix n assume "n < LENGTH(32)"
  then consider "n < 8" | "8 \<le> n \<and> n < 16" | "16 \<le> n \<and> n < 24" | "24 \<le> n \<and> n < 32" by fastforce
  then show "bit (load32 (store32 m a w) a) n = bit w n"
    by cases (auto simp: load32_def store32_def bit_simps)
qed

lemma store32_other:
  assumes "\<And>k. k < 4 \<Longrightarrow> b \<noteq> a + of_nat k"
  shows "store32 m a w b = m b"
  using assms [of 0] assms [of 1] assms [of 2] assms [of 3] by (simp add: store32_def)

lemma load32_store32_other:
  assumes "aligned4 a" "aligned4 b" "a \<noteq> b"
  shows "load32 (store32 m a w) b = load32 m b"
  by (rule load32_cong) (use assms aligned_disjoint [OF assms] in \<open>auto intro!: store32_other dest: sym\<close>)

lemma PGROUNDDOWN_aligned_add:
  assumes "aligned4 a" "k < 4"
  shows "PGROUNDDOWN (a + of_nat k) = PGROUNDDOWN a"
proof -
  obtain q where "unat a = 4 * q"
    using aligned_add(2) [OF assms] by (auto simp: mod_eq_0_iff_dvd elim: dvdE)
  then have "(unat a + k) div 4096 = unat a div 4096"
    using assms(2) div_mult2_eq [of "4 * q + k" 4 1024] div_mult2_eq [of "4 * q" 4 1024] by simp
  then show ?thesis
    using aligned_add(1) [OF assms] by (simp add: word_unat_eq_iff PGROUNDDOWN_eq)
qed

lemma store32_other_page:
  assumes "aligned4 a" "PGROUNDDOWN b \<noteq> PGROUNDDOWN a"
  shows "store32 m a w b = m b"
  by (rule store32_other) (use assms PGROUNDDOWN_aligned_add in metis)

lemma load32_page_cong:
  assumes "aligned4 a" "\<And>b. PGROUNDDOWN b = PGROUNDDOWN a \<Longrightarrow> m b = m' b"
  shows "load32 m a = load32 m' a"
  by (rule load32_cong) (simp add: assms PGROUNDDOWN_aligned_add)

lemma load32_zero: "(\<And>b. PGROUNDDOWN b = PGROUNDDOWN a \<Longrightarrow> m b = 0) \<Longrightarrow> aligned4 a \<Longrightarrow> load32 m a = 0"
  using load32_page_cong [of a m "\<lambda>_. 0"] by (simp add: load32_def)

section \<open>Pages\<close>

abbreviation page_aligned :: "u32 \<Rightarrow> bool" where
  "page_aligned v \<equiv> PGROUNDDOWN v = v"

lemma page_aligned_mod: "page_aligned v \<longleftrightarrow> v mod 4096 = 0"
proof -
  have "page_aligned v \<longleftrightarrow> unat v div 4096 * 4096 = unat v"
    by (simp add: word_unat_eq_iff PGROUNDDOWN_eq)
  also have "\<dots> \<longleftrightarrow> unat v mod 4096 = 0"
    using div_mult_mod_eq [of "unat v" 4096] by linarith
  also have "\<dots> \<longleftrightarrow> v mod 4096 = 0" by (simp add: word_unat_eq_iff unat_mod)
  finally show ?thesis .
qed

lemma page_aligned_unat: "page_aligned v \<Longrightarrow> unat v mod 4096 = 0"
  unfolding page_aligned_mod by (simp add: word_unat_eq_iff unat_mod)

lemma page_aligned_PGROUNDDOWN [simp]: "page_aligned (PGROUNDDOWN a)"
  by (simp add: word_unat_eq_iff PGROUNDDOWN_eq)

lemma page_aligned_word: "page_aligned v \<Longrightarrow> aligned4 v"
proof -
  assume "page_aligned v"
  then have "unat v mod 4096 = 0" by (rule page_aligned_unat)
  then have "unat v mod 4 = 0" by (auto simp: mod_eq_0_iff_dvd intro: dvd_trans [rotated])
  then show ?thesis by (simp add: aligned4_def)
qed

lemma in_page:
  assumes "page_aligned v"
  shows "unat (a - v) < 4096 \<longleftrightarrow> PGROUNDDOWN a = v"
proof -
  have v: "unat v mod 4096 = 0"
    using assms by (rule page_aligned_unat)
  then obtain q where q: "unat v = 4096 * q" by (auto simp: mod_eq_0_iff_dvd elim: dvdE)
  define d r where "d = unat a div 4096" and "r = unat a mod 4096"
  have a: "unat a = 4096 * d + r" and r: "r < 4096" by (simp_all add: d_def r_def)
  have "unat (a - v) < 4096 \<longleftrightarrow> d = q"
  proof (cases "v \<le> a")
    case True
    then have "unat (a - v) = unat a - unat v" "unat v \<le> unat a"
      by (simp_all add: unat_sub word_le_nat_alt)
    then show ?thesis unfolding a q using r by linarith
  next
    case False
    then have "unat (a - v) = 4294967296 + unat a - unat v" and "unat a < unat v"
      by (simp_all add: unat_sub_if' word_le_nat_alt)
    moreover have "q < 1048576" using unat_u32_less [of v] unfolding q by linarith
    ultimately show ?thesis unfolding a q using r by linarith
  qed
  then have "unat (a - v) < 4096 \<longleftrightarrow> unat a div 4096 * 4096 = unat v"
    by (simp add: d_def q)
  then show ?thesis by (simp add: word_unat_eq_iff PGROUNDDOWN_eq)
qed

lemma memset_page:
  "page_aligned v \<Longrightarrow> memset m v c 4096 = (\<lambda>a. if PGROUNDDOWN a = v then ucast c else m a)"
  by (simp add: memset_eq in_page)

lemma memmove_page:
  assumes "page_aligned d" "page_aligned s" "s < 0xFFFFF000" "d < 0xFFFFF000"
  shows "memmove m d s 4096 = (\<lambda>a. if PGROUNDDOWN a = d then m (s + (a - d)) else m a)"
proof -
  have "unat s + unat (4096 :: u32) < 2 ^ 32" "unat d + unat (4096 :: u32) \<le> 2 ^ 32"
    using assms(3,4) by (simp_all add: word_less_nat_alt)
  from memmove_eq [OF this] show ?thesis by (simp add: in_page assms(1))
qed

section \<open>Byte strings in memory\<close>

text \<open>Reading and writing a run of bytes, as the copy loops of the kernel do.\<close>

fun put_bytes :: "memory \<Rightarrow> u32 \<Rightarrow> u8 list \<Rightarrow> memory" where
  "put_bytes m a [] = m"
| "put_bytes m a (b # bs) = put_bytes (m(a := b)) (a + 1) bs"

definition get_bytes :: "memory \<Rightarrow> u32 \<Rightarrow> nat \<Rightarrow> u8 list" where
  "get_bytes m a n = map (\<lambda>i. m (a + of_nat i)) [0..<n]"

text \<open>The four bytes of a word, the least significant one first.\<close>

definition bytes_of_word :: "u32 \<Rightarrow> u8 list" where
  "bytes_of_word w = [ucast w, ucast (drop_bit 8 w), ucast (drop_bit 16 w), ucast (drop_bit 24 w)]"

definition word_of_bytes :: "u8 list \<Rightarrow> u32" where
  "word_of_bytes bs = ucast (bs ! 0) OR push_bit 8 (ucast (bs ! 1))
     OR push_bit 16 (ucast (bs ! 2)) OR push_bit 24 (ucast (bs ! 3))"

lemma word_of_bytes_of_word [simp]: "word_of_bytes (bytes_of_word w) = w"
  using load32_store32 [of "\<lambda>_. 0" 0 w]
  by (simp add: word_of_bytes_def bytes_of_word_def load32_def store32_def)

lemma length_bytes_of_word [simp]: "length (bytes_of_word w) = 4"
  by (simp add: bytes_of_word_def)

lemma length_get_bytes [simp]: "length (get_bytes m a n) = n"
  by (simp add: get_bytes_def)

lemma put_bytes_eq:
  assumes "length bs < 2 ^ 32"
  shows "put_bytes m a bs = (\<lambda>b. if unat (b - a) < length bs then bs ! unat (b - a) else m b)"
  using assms
proof (induction bs arbitrary: m a)
  case (Cons x xs)
  show ?case
  proof
    fix b
    have "unat (b - (a + 1)) < length xs \<longleftrightarrow> b \<noteq> a \<and> unat (b - a) < Suc (length xs)"
      using Cons.prems by (intro region_step) simp
    moreover have "unat (b - a) = Suc (unat (b - (a + 1)))" if "b \<noteq> a"
      using distance_step [OF that] that unat_gt_0 [of "b - a"] by simp
    ultimately show "put_bytes m a (x # xs) b =
        (if unat (b - a) < length (x # xs) then (x # xs) ! unat (b - a) else m b)"
      using Cons by (cases "b = a") auto
  qed
qed simp

lemma get_put_bytes:
  assumes "length bs < 2 ^ 32"
  shows "get_bytes (put_bytes m a bs) a (length bs) = bs"
  by (rule nth_equalityI) (use assms in \<open>simp_all add: get_bytes_def put_bytes_eq unat_of_nat\<close>)

end
