(* ===== verification/Spinlock.thy ===== *)
theory Spinlock
  imports Mmu
begin

text \<open>
  Processors and spin locks (\<^verbatim>\<open>spinlock.c\<close>, and \<open>mycpu\<close> and \<open>cpuid\<close> of
  \<^verbatim>\<open>proc.c\<close>). The kernel functions are seen from the processor that runs
  them. A critical section is run as a whole; the interleaving of the instructions
  of \<open>acquire\<close> and \<open>release\<close> on several processors is the step relation at the end.
\<close>

section \<open>State\<close>

text \<open>
  The per-processor state (\<open>struct cpu\<close>). \<open>cproc\<close> is \<open>proc\<close>, the process that the
  processor runs, as an index into the process table.
\<close>

record cpu =
  apicid :: u8
  ts_ss0 :: u16
  ts_esp0 :: u32
  ts_iomb :: u16
  gdt :: "segdesc list"
  started :: bool
  ncli :: int
  intena :: bool
  cproc :: "nat option"

text \<open>Every spin lock of the kernel, by the object it belongs to.\<close>

datatype lockid =
    PTABLE_LOCK | BCACHE_LOCK | LOG_LOCK | ICACHE_LOCK | FTABLE_LOCK
  | TICKS_LOCK | KMEM_LOCK | CONS_LOCK | IDE_LOCK
  | BUF_LOCK nat | INODE_LOCK nat | PIPE_LOCK u32

text \<open>
  \<open>struct spinlock\<close>. The call stack \<open>pcs\<close>, kept for debugging, is not modelled.
\<close>

record spinlock =
  lk_locked :: bool
  lk_name :: string
  lk_cpu :: "nat option"

text \<open>
  The machine as the kernel sees it: the processors that \<open>mpinit\<close> found, the local
  APIC number of the processor that runs, its interrupt flag (\<open>FL_IF\<close> in
  \<open>eflags\<close>), the bytes sent to the serial port, the cursor and the cells
  of the screen, the flags \<open>cons.locking\<close> and \<open>panicked\<close> of the console, and the spin
  locks. The other components extend this record.
\<close>

record mach =
  cpus :: "cpu list"
  ncpu :: nat
  lapic_id :: u8
  intr_on :: bool
  uart_out :: "u8 list"
  cga_pos :: int
  crt :: "nat \<Rightarrow> u16"
  cons_locking :: bool
  panicked :: bool
  locks :: "lockid \<Rightarrow> spinlock"

section \<open>Operations\<close>

definition initlock :: "lockid \<Rightarrow> string \<Rightarrow> ('a mach_scheme, unit) kmon" where
  "initlock lk name =
     kmod (\<lambda>s. s\<lparr>locks := (locks s)(lk := \<lparr>lk_locked = False, lk_name = name, lk_cpu = None\<rparr>)\<rparr>)"

definition mycpu :: "('a mach_scheme, nat) kmon" where
  "mycpu = kbind (kget intr_on) (\<lambda>fl.
     if fl then kpanic ''mycpu called with interrupts enabled\<newline>''
     else kbind (kget (\<lambda>s. find (\<lambda>i. apicid (cpus s ! i) = lapic_id s) [0..<ncpu s])) (\<lambda>r.
       case r of Some i \<Rightarrow> kreturn i | None \<Rightarrow> kpanic ''unknown apicid\<newline>''))"

definition cpuid :: "('a mach_scheme, nat) kmon" where
  "cpuid = mycpu"

definition cpu_upd :: "nat \<Rightarrow> (cpu \<Rightarrow> cpu) \<Rightarrow> 'a mach_scheme \<Rightarrow> 'a mach_scheme" where
  "cpu_upd c f s = s\<lparr>cpus := (cpus s)[c := f (cpus s ! c)]\<rparr>"

definition pushcli :: "('a mach_scheme, unit) kmon" where
  "pushcli = kbind (kget intr_on) (\<lambda>eflags.
     kseq (kmod (\<lambda>s. s\<lparr>intr_on := False\<rparr>))
     (kbind mycpu (\<lambda>c.
      kbind (kget (\<lambda>s. ncli (cpus s ! c))) (\<lambda>n.
      kseq (kwhen (n = 0) (kmod (cpu_upd c (\<lambda>p. p\<lparr>intena := eflags\<rparr>))))
      (kmod (cpu_upd c (\<lambda>p. p\<lparr>ncli := ncli p + 1\<rparr>)))))))"

definition popcli :: "('a mach_scheme, unit) kmon" where
  "popcli = kbind (kget intr_on) (\<lambda>fl.
     if fl then kpanic ''popcli - interruptible''
     else kbind mycpu (\<lambda>c.
       kseq (kmod (cpu_upd c (\<lambda>p. p\<lparr>ncli := ncli p - 1\<rparr>)))
       (kbind (kget (\<lambda>s. cpus s ! c)) (\<lambda>p.
        if ncli p < 0 then kpanic ''popcli''
        else kwhen (ncli p = 0 \<and> intena p) (kmod (\<lambda>s. s\<lparr>intr_on := True\<rparr>))))))"

definition holding :: "lockid \<Rightarrow> ('a mach_scheme, bool) kmon" where
  "holding lk = kbind (kget (\<lambda>s. locks s lk)) (\<lambda>l.
     if lk_locked l then kbind mycpu (\<lambda>c. kreturn (lk_cpu l = Some c)) else kreturn False)"

text \<open>\<open>xchg(&lk->locked, 1)\<close>: set the word, return the old one.\<close>

definition xchg_locked :: "lockid \<Rightarrow> ('a mach_scheme, bool) kmon" where
  "xchg_locked lk = kbind (kget (\<lambda>s. lk_locked (locks s lk))) (\<lambda>old.
     kseq (kmod (\<lambda>s. s\<lparr>locks := (locks s)(lk := (locks s lk)\<lparr>lk_locked := True\<rparr>)\<rparr>))
     (kreturn old))"

definition acquire :: "lockid \<Rightarrow> ('a mach_scheme, unit) kmon" where
  "acquire lk =
     kseq pushcli
     (kbind (holding lk) (\<lambda>h.
      if h then kpanic ''acquire''
      else kbind (xchg_locked lk) (\<lambda>old.
        if old then kspin
        else kbind mycpu (\<lambda>c.
          kmod (\<lambda>s. s\<lparr>locks := (locks s)(lk := (locks s lk)\<lparr>lk_cpu := Some c\<rparr>)\<rparr>)))))"

definition release :: "lockid \<Rightarrow> ('a mach_scheme, unit) kmon" where
  "release lk = kbind (holding lk) (\<lambda>h.
     if \<not> h then kpanic ''release''
     else
       kseq (kmod (\<lambda>s. s\<lparr>locks := (locks s)(lk := (locks s lk)\<lparr>lk_cpu := None\<rparr>)\<rparr>))
       (kseq (kmod (\<lambda>s. s\<lparr>locks := (locks s)(lk := (locks s lk)\<lparr>lk_locked := False\<rparr>)\<rparr>))
       popcli))"

section \<open>Running critical sections\<close>

text \<open>
  \<open>cpu_ok c xs n l i\<close>: in a machine with processors \<open>xs\<close>, of which the first \<open>n\<close>
  are in use, the processor with APIC number \<open>l\<close> is number \<open>c\<close>, its nesting depth is
  not negative, and its interrupt flag \<open>i\<close> is what the depth and \<open>intena\<close> say.
\<close>

definition cpu_if :: "nat \<Rightarrow> cpu list \<Rightarrow> bool" where
  "cpu_if c xs \<longleftrightarrow> ncli (xs ! c) = 0 \<and> intena (xs ! c)"

definition cpu_ok :: "nat \<Rightarrow> cpu list \<Rightarrow> nat \<Rightarrow> u8 \<Rightarrow> bool \<Rightarrow> bool" where
  "cpu_ok c xs n l i \<longleftrightarrow>
     find (\<lambda>j. apicid (xs ! j) = l) [0..<n] = Some c \<and> n \<le> length xs
     \<and> 0 \<le> ncli (xs ! c) \<and> i = cpu_if c xs"

abbreviation on_cpu :: "nat \<Rightarrow> 'a mach_scheme \<Rightarrow> bool" where
  "on_cpu c s \<equiv> cpu_ok c (cpus s) (ncpu s) (lapic_id s) (intr_on s)"

text \<open>One level of \<open>pushcli\<close> more, or less, on processor \<open>c\<close>.\<close>

definition deeper :: "nat \<Rightarrow> cpu list \<Rightarrow> cpu list" where
  "deeper c xs = xs[c := (xs ! c)\<lparr>ncli := ncli (xs ! c) + 1\<rparr>]"

definition shallower :: "nat \<Rightarrow> cpu list \<Rightarrow> cpu list" where
  "shallower c xs = xs[c := (xs ! c)\<lparr>ncli := ncli (xs ! c) - 1\<rparr>]"

lemma cpu_ok_less: "cpu_ok c xs n l i \<Longrightarrow> c < length xs"
  by (auto simp: cpu_ok_def find_Some_iff)

lemma cpu_ok_if: "cpu_ok c xs n l i \<Longrightarrow> cpu_if c xs = i"
  by (simp add: cpu_ok_def)

lemma length_deeper [simp]: "length (deeper c xs) = length xs"
  by (simp add: deeper_def)

lemma nth_deeper: "deeper c xs ! j = (if j = c \<and> c < length xs then (xs ! c)\<lparr>ncli := ncli (xs ! c) + 1\<rparr> else xs ! j)"
  by (cases "c < length xs") (auto simp: deeper_def nth_list_update list_update_beyond)

lemma shallower_deeper [simp]: "shallower c (deeper c xs) = xs"
  by (cases "c < length xs") (simp_all add: deeper_def shallower_def list_update_beyond)

lemma cpu_ok_deeper: "cpu_ok c xs n l i \<Longrightarrow> cpu_ok c (deeper c xs) n l False"
  using cpu_ok_less [of c xs n l i]
  by (auto simp: cpu_ok_def cpu_if_def nth_deeper find_Some_iff)

lemma ncli_deeper: "cpu_ok c xs n l i \<Longrightarrow> ncli (deeper c xs ! c) = ncli (xs ! c) + 1"
  using cpu_ok_less [of c xs n l i] by (simp add: nth_deeper)

lemma ncli_nonneg: "cpu_ok c xs n l i \<Longrightarrow> 0 \<le> ncli (xs ! c)"
  by (simp add: cpu_ok_def)

lemma mycpu_run: "on_cpu c s \<Longrightarrow> \<not> intr_on s \<Longrightarrow> mycpu e s = Ret c e s"
  by (simp add: mycpu_def cpu_ok_def)

lemma pushcli_run:
  assumes "on_cpu c s"
  shows "pushcli e s = Ret () e (s\<lparr>cpus := deeper c (cpus s), intr_on := False\<rparr>)"
proof -
  have c: "c < length (cpus s)" and f: "find (\<lambda>j. apicid (cpus s ! j) = lapic_id s) [0..<ncpu s] = Some c"
    and i: "intr_on s = (ncli (cpus s ! c) = 0 \<and> intena (cpus s ! c))"
    using assms cpu_ok_less by (auto simp: cpu_ok_def cpu_if_def)
  have m: "mycpu e (s\<lparr>intr_on := False\<rparr>) = Ret c e (s\<lparr>intr_on := False\<rparr>)"
    by (simp add: mycpu_def f)
  have "(cpus s ! c)\<lparr>intena := intr_on s\<rparr> = cpus s ! c" if "ncli (cpus s ! c) = 0"
    using that i by simp
  then show ?thesis
    using c by (auto simp: pushcli_def m cpu_upd_def deeper_def kmon_run)
qed

lemma popcli_run:
  assumes "on_cpu c s" "0 < ncli (cpus s ! c)"
  shows "popcli e s =
    Ret () e (s\<lparr>cpus := shallower c (cpus s), intr_on := cpu_if c (shallower c (cpus s))\<rparr>)"
proof -
  have c: "c < length (cpus s)" and f: "find (\<lambda>j. apicid (cpus s ! j) = lapic_id s) [0..<ncpu s] = Some c"
    and i: "\<not> intr_on s"
    using assms cpu_ok_less by (auto simp: cpu_ok_def cpu_if_def)
  show ?thesis
    using c assms i mycpu_run [OF assms(1) i]
    by (cases s) (auto simp: popcli_def cpu_upd_def shallower_def cpu_if_def kmon_run)
qed

definition lk_free :: "spinlock \<Rightarrow> bool" where
  "lk_free l \<longleftrightarrow> \<not> lk_locked l \<and> lk_cpu l = None"

definition lk_held :: "nat \<Rightarrow> spinlock \<Rightarrow> bool" where
  "lk_held c l \<longleftrightarrow> lk_locked l \<and> lk_cpu l = Some c"

definition lk_take :: "nat \<Rightarrow> spinlock \<Rightarrow> spinlock" where
  "lk_take c l = l\<lparr>lk_locked := True, lk_cpu := Some c\<rparr>"

definition lk_drop :: "spinlock \<Rightarrow> spinlock" where
  "lk_drop l = l\<lparr>lk_cpu := None, lk_locked := False\<rparr>"

lemma lk_held_take [simp]: "lk_held c (lk_take d l) \<longleftrightarrow> c = d"
  by (auto simp: lk_held_def lk_take_def)

lemma lk_free_drop [simp]: "lk_free (lk_drop l)"
  by (simp add: lk_free_def lk_drop_def)

lemma lk_drop_take [simp]: "lk_drop (lk_take c l) = lk_drop l"
  by (simp add: lk_drop_def lk_take_def)

lemma lk_drop_free: "lk_free l \<Longrightarrow> lk_drop l = l"
  by (simp add: lk_drop_def lk_free_def)

lemma lk_not_free_take [simp]: "\<not> lk_free (lk_take c l)"
  by (simp add: lk_free_def lk_take_def)

lemma acquire_run:
  assumes "on_cpu c s" "lk_free (locks s lk)"
  shows "acquire lk e s = Ret () e
    (s\<lparr>cpus := deeper c (cpus s), intr_on := False, locks := (locks s)(lk := lk_take c (locks s lk))\<rparr>)"
proof -
  have "on_cpu c (s\<lparr>cpus := deeper c (cpus s), intr_on := False, locks := l\<rparr>)" for l
    using assms(1) by (simp add: cpu_ok_deeper)
  then have "mycpu e (s\<lparr>cpus := deeper c (cpus s), intr_on := False, locks := l\<rparr>)
    = Ret c e (s\<lparr>cpus := deeper c (cpus s), intr_on := False, locks := l\<rparr>)" for l
    by (rule mycpu_run) simp
  with assms show ?thesis
    by (simp add: acquire_def pushcli_run holding_def xchg_locked_def lk_free_def lk_take_def kmon_run)
qed

lemma acquire_held:
  assumes "on_cpu c s" "lk_held c (locks s lk)"
  shows "acquire lk e s = Panic ''acquire'' (s\<lparr>cpus := deeper c (cpus s), intr_on := False\<rparr>)"
proof -
  have "on_cpu c (s\<lparr>cpus := deeper c (cpus s), intr_on := False\<rparr>)"
    using assms(1) by (simp add: cpu_ok_deeper)
  then have "mycpu e (s\<lparr>cpus := deeper c (cpus s), intr_on := False\<rparr>)
    = Ret c e (s\<lparr>cpus := deeper c (cpus s), intr_on := False\<rparr>)"
    by (rule mycpu_run) simp
  with assms show ?thesis
    by (simp add: acquire_def pushcli_run holding_def lk_held_def kmon_run)
qed

lemma release_run:
  assumes "on_cpu c s" "0 < ncli (cpus s ! c)" "lk_held c (locks s lk)"
  shows "release lk e s = Ret ()  e
    (s\<lparr>cpus := shallower c (cpus s), intr_on := cpu_if c (shallower c (cpus s)),
       locks := (locks s)(lk := lk_drop (locks s lk))\<rparr>)"
proof -
  have i: "\<not> intr_on s"
    using assms by (auto simp: cpu_ok_def cpu_if_def)
  let ?t = "s\<lparr>locks := (locks s)(lk := lk_drop (locks s lk))\<rparr>"
  have "popcli e ?t = Ret () e
      (?t\<lparr>cpus := shallower c (cpus ?t), intr_on := cpu_if c (shallower c (cpus ?t))\<rparr>)"
    by (rule popcli_run) (use assms in simp_all)
  with assms(3) mycpu_run [OF assms(1) i] show ?thesis
    by (simp add: release_def holding_def lk_held_def lk_drop_def kmon_run)
qed

text \<open>
  Leaving the critical section entered in \<open>s\<close>: the processor and the locks are as
  they were in \<open>s\<close>, whatever else the section changed.
\<close>

lemma release_section:
  assumes "on_cpu c s" "lk_free (locks s lk)"
    and "cpus t = deeper c (cpus s)" "\<not> intr_on t" "ncpu t = ncpu s" "lapic_id t = lapic_id s"
    and "locks t = (locks s)(lk := lk_take c (locks s lk))"
  shows "release lk e t = Ret () e (t\<lparr>cpus := cpus s, intr_on := intr_on s, locks := locks s\<rparr>)"
proof -
  have "on_cpu c t" "0 < ncli (cpus t ! c)" "lk_held c (locks t lk)"
    using assms ncli_nonneg [OF assms(1)]
    by (simp_all add: cpu_ok_deeper ncli_deeper [OF assms(1)])
  from release_run [OF this] show ?thesis
    using assms by (simp add: cpu_ok_if [OF assms(1)] lk_drop_free)
qed

lemma release_not_held:
  assumes "on_cpu c s" "\<not> intr_on s" "\<not> lk_held c (locks s lk)"
  shows "release lk e s = Panic ''release'' s"
  using assms mycpu_run [OF assms(1,2)]
  by (auto simp: release_def holding_def lk_held_def kmon_run)

lemma holding_run:
  assumes "on_cpu c s" "\<not> intr_on s"
  shows "holding lk e s = Ret (lk_held c (locks s lk)) e s"
  using mycpu_run [OF assms] by (auto simp: holding_def lk_held_def kmon_run)

section \<open>Interleaved processors\<close>

text \<open>
  One lock used by several processors, at the grain of its memory accesses. A
  processor's program point is where it is in \<open>acquire\<close> or \<open>release\<close>: reading
  \<open>locked\<close> and \<open>cpu\<close> in \<open>holding\<close>, spinning on \<open>xchg\<close>, recording itself, in the
  critical section, clearing \<open>cpu\<close>, and storing 0 into \<open>locked\<close>.
\<close>

datatype spc =
    Outside | AcqHold1 | AcqHold2 | AcqXchg | AcqSetCpu | Critical
  | RelHold1 | RelHold2 | RelClearCpu | RelStore | Panicked string

record spin_sys =
  sp_locked :: bool
  sp_cpu :: "nat option"
  sp_pc :: "nat \<Rightarrow> spc"

definition spin_init :: spin_sys where
  "spin_init = \<lparr>sp_locked = False, sp_cpu = None, sp_pc = (\<lambda>_. Outside)\<rparr>"

definition goto :: "nat \<Rightarrow> spc \<Rightarrow> spin_sys \<Rightarrow> spin_sys" where
  "goto c p s = s\<lparr>sp_pc := (sp_pc s)(c := p)\<rparr>"

fun spin_exec :: "nat \<Rightarrow> spin_sys \<Rightarrow> spin_sys" where
  "spin_exec c s = (case sp_pc s c of
     Outside \<Rightarrow> goto c AcqHold1 s
   | AcqHold1 \<Rightarrow> goto c (if sp_locked s then AcqHold2 else AcqXchg) s
   | AcqHold2 \<Rightarrow> goto c (if sp_cpu s = Some c then Panicked ''acquire'' else AcqXchg) s
   | AcqXchg \<Rightarrow> goto c (if sp_locked s then AcqXchg else AcqSetCpu) (s\<lparr>sp_locked := True\<rparr>)
   | AcqSetCpu \<Rightarrow> goto c Critical (s\<lparr>sp_cpu := Some c\<rparr>)
   | Critical \<Rightarrow> goto c RelHold1 s
   | RelHold1 \<Rightarrow> goto c (if sp_locked s then RelHold2 else Panicked ''release'') s
   | RelHold2 \<Rightarrow> goto c (if sp_cpu s = Some c then RelClearCpu else Panicked ''release'') s
   | RelClearCpu \<Rightarrow> goto c RelStore (s\<lparr>sp_cpu := None\<rparr>)
   | RelStore \<Rightarrow> goto c Outside (s\<lparr>sp_locked := False\<rparr>)
   | Panicked m \<Rightarrow> s)"

inductive spin_reach :: "spin_sys \<Rightarrow> bool" where
  reach_init: "spin_reach spin_init"
| reach_step: "spin_reach s \<Longrightarrow> spin_reach (spin_exec c s)"

fun in_lock :: "spc \<Rightarrow> bool" where
  "in_lock AcqSetCpu = True"
| "in_lock Critical = True"
| "in_lock RelHold1 = True"
| "in_lock RelHold2 = True"
| "in_lock RelClearCpu = True"
| "in_lock RelStore = True"
| "in_lock _ = False"

fun is_owner :: "spc \<Rightarrow> bool" where
  "is_owner Critical = True"
| "is_owner RelHold1 = True"
| "is_owner RelHold2 = True"
| "is_owner RelClearCpu = True"
| "is_owner _ = False"

text \<open>\<open>h\<close> is the processor inside the lock, if there is one.\<close>

definition spin_inv :: "nat option \<Rightarrow> spin_sys \<Rightarrow> bool" where
  "spin_inv h s \<longleftrightarrow>
     (\<forall>c. in_lock (sp_pc s c) \<longleftrightarrow> h = Some c) \<and> (sp_locked s \<longleftrightarrow> h \<noteq> None)
   \<and> (\<forall>c. is_owner (sp_pc s c) \<longleftrightarrow> sp_cpu s = Some c) \<and> (\<forall>c m. sp_pc s c \<noteq> Panicked m)"

lemma spin_inv_init: "spin_inv None spin_init"
  by (simp add: spin_inv_def spin_init_def)

lemma is_owner_in_lock: "is_owner p \<Longrightarrow> in_lock p"
  by (cases p) simp_all

lemma spin_inv_exec:
  assumes inv: "spin_inv h s"
  shows "\<exists>h'. spin_inv h' (spin_exec c s)"
proof -
  have c: "in_lock (sp_pc s c) = (h = Some c)" "is_owner (sp_pc s c) = (sp_cpu s = Some c)"
    using inv by (auto simp: spin_inv_def)
  have o: "h = Some d" if "sp_cpu s = Some d" for d
    using inv that is_owner_in_lock by (auto simp: spin_inv_def)
  show ?thesis
  proof (cases "sp_pc s c")
    case AcqXchg
    with inv c have "spin_inv (if sp_locked s then h else Some c) (spin_exec c s)"
      by (auto simp: spin_inv_def goto_def)
    then show ?thesis ..
  next
    case RelStore
    with inv c have "spin_inv None (spin_exec c s)"
      by (auto simp: spin_inv_def goto_def)
    then show ?thesis ..
  qed (use inv c o in \<open>auto simp: spin_inv_def goto_def intro!: exI [of _ h]\<close>)
qed

lemma spin_reach_inv: "spin_reach s \<Longrightarrow> \<exists>h. spin_inv h s"
  by (induction rule: spin_reach.induct) (auto simp del: spin_exec.simps intro: spin_inv_init spin_inv_exec)

text \<open>
  C3. Mutual exclusion: whatever the interleaving of the processors' memory accesses,
  two processors are never both between their \<open>xchg\<close> and their store of 0 into
  \<open>locked\<close>, and no processor that pairs \<open>acquire\<close> with \<open>release\<close> panics in them.
\<close>

theorem spinlock_mutual_exclusion:
  assumes "spin_reach s"
  shows "(in_lock (sp_pc s c) \<and> in_lock (sp_pc s d) \<longrightarrow> c = d) \<and> sp_pc s c \<noteq> Panicked m"
  using spin_reach_inv [OF assms] by (auto simp: spin_inv_def)

lemma spin_reach_fold: "spin_reach s \<Longrightarrow> spin_reach (fold spin_exec cs s)"
  by (induction cs arbitrary: s) (simp_all del: spin_exec.simps add: reach_step)

theorem spinlock_mutual_exclusion_witness:
  "sp_pc (fold spin_exec [0,0,0,0,1,1,1,1] spin_init) 0 = Critical
   \<and> \<not> in_lock (sp_pc (fold spin_exec [0,0,0,0,1,1,1,1] spin_init) 1)"
  using spinlock_mutual_exclusion
    [OF spin_reach_fold [OF reach_init], of "[0,0,0,0,1,1,1,1]" 0 1 "''release''"]
  by (simp add: spin_init_def goto_def)

subsection \<open>Nesting\<close>

lemma nested_cli:
  assumes "on_cpu c s"
  shows "kseq (kfor (replicate n ()) (\<lambda>_. pushcli)) (kfor (replicate n ()) (\<lambda>_. popcli)) e s = Ret () e s"
  using assms
proof (induction n arbitrary: s)
  case (Suc n)
  let ?t = "s\<lparr>cpus := deeper c (cpus s), intr_on := False\<rparr>"
  have t: "on_cpu c ?t" using Suc.prems by (simp add: cpu_ok_deeper)
  have pop: "popcli e ?t = Ret () e s" for e
    using popcli_run [OF t] Suc.prems ncli_deeper [OF Suc.prems] ncli_nonneg [OF Suc.prems]
    by (simp add: cpu_ok_if)
  have last: "kfor (replicate (Suc n) ()) (\<lambda>_. popcli) e' s'
      = kseq (kfor (replicate n ()) (\<lambda>_. popcli)) popcli e' s'" for e' and s' :: "'a mach_scheme"
    using kfor_append [of "replicate n ()" "[()]" "\<lambda>_. popcli" e' s']
    by (auto simp: replicate_append_same split: outcome.splits)
  show ?case
    using Suc.IH [OF t] pushcli_run [OF Suc.prems, of e] pop
    by (simp only: kseq_run last) (auto split: outcome.splits)
qed simp

text \<open>The first \<open>pushcli\<close> records the interrupt flag, whatever was recorded before.\<close>

lemma pushcli_records:
  assumes "find (\<lambda>j. apicid (cpus s ! j) = lapic_id s) [0..<ncpu s] = Some c" "c < length (cpus s)"
    "ncli (cpus s ! c) = 0"
  shows "pushcli e s = pushcli e (s\<lparr>cpus := (cpus s)[c := (cpus s ! c)\<lparr>intena := intr_on s\<rparr>]\<rparr>)"
proof -
  let ?t = "s\<lparr>cpus := (cpus s)[c := (cpus s ! c)\<lparr>intena := intr_on s\<rparr>]\<rparr>"
  have "(\<lambda>j. apicid (cpus ?t ! j) = lapic_id ?t) = (\<lambda>j. apicid (cpus s ! j) = lapic_id s)"
    using assms(2) by (auto simp: nth_list_update)
  then have "mycpu e (s\<lparr>intr_on := False\<rparr>) = Ret c e (s\<lparr>intr_on := False\<rparr>)"
    "mycpu e (?t\<lparr>intr_on := False\<rparr>) = Ret c e (?t\<lparr>intr_on := False\<rparr>)"
    using assms(1) by (simp_all add: mycpu_def)
  with assms(2,3) show ?thesis
    by (auto simp: pushcli_def cpu_upd_def)
qed


text \<open>A machine with one processor, on which the properties are run.\<close>

definition one_cpu :: cpu where
  "one_cpu = \<lparr>apicid = 3, ts_ss0 = 0, ts_esp0 = 0, ts_iomb = 0, gdt = replicate 6 (SEG 0 0 0 0),
     started = True, ncli = 0, intena = True, cproc = Some 0\<rparr>"

definition one_mach :: mach where
  "one_mach = \<lparr>cpus = [one_cpu], ncpu = 1, lapic_id = 3, intr_on = True, uart_out = [], cga_pos = 0, crt = (\<lambda>_. 0), cons_locking = True, panicked = False,
     locks = (\<lambda>_. \<lparr>lk_locked = False, lk_name = [], lk_cpu = None\<rparr>)\<rparr>"


end
