(* ===== verification/Printf.thy ===== *)
theory Printf
  imports Spinlock
begin

text \<open>
  Console output (\<^verbatim>\<open>console.c\<close>: \<open>printint\<close>, \<open>cprintf\<close>, \<open>consputc\<close>, \<open>cgaputc\<close>;
  \<^verbatim>\<open>uart.c\<close>: \<open>uartputc\<close>). Console input is in the theory of the console
  device.
\<close>

section \<open>Characters\<close>

text \<open>
  Characters are C ints; \<open>BACKSPACE\<close> is outside the range of a byte. The serial port is
  present and takes every byte.
\<close>

abbreviation (input) BACKSPACE :: int where "BACKSPACE \<equiv> 0x100"

definition uartputc :: "int \<Rightarrow> ('a mach_scheme, unit) kmon" where
  "uartputc c = kmod (\<lambda>s. s\<lparr>uart_out := uart_out s @ [word_of_int c]\<rparr>)"

text \<open>The screen after the last 23 rows moved up and the rows from \<open>pos\<close> were cleared.\<close>

definition scroll :: "nat \<Rightarrow> (nat \<Rightarrow> u16) \<Rightarrow> nat \<Rightarrow> u16" where
  "scroll pos cells i =
     (if pos \<le> i \<and> i < 24 * 80 then 0 else if i < 23 * 80 then cells (i + 80) else cells i)"

text \<open>Moving the cursor to \<open>pos\<close>, at most one row below the last one that is shown.\<close>

definition cga_move :: "int \<Rightarrow> ('a mach_scheme, unit) kmon" where
  "cga_move pos =
     (if pos < 0 \<or> pos > 25 * 80 then kpanic ''pos under/overflow''
      else
        kbind (if pos div 80 \<ge> 24 then
                 kseq (kmod (\<lambda>s. s\<lparr>crt := scroll (nat (pos - 80)) (crt s)\<rparr>)) (kreturn (pos - 80))
               else kreturn pos) (\<lambda>pos.
        kmod (\<lambda>s. s\<lparr>cga_pos := pos, crt := (crt s)(nat pos := 0x0720)\<rparr>)))"

definition cgaputc :: "int \<Rightarrow> ('a mach_scheme, unit) kmon" where
  "cgaputc c = kbind (kget cga_pos) (\<lambda>pos.
     if c = 10 then cga_move (pos + (80 - pos mod 80))
     else if c = BACKSPACE then cga_move (if pos > 0 then pos - 1 else pos)
     else kseq (kmod (\<lambda>s. s\<lparr>crt := (crt s)(nat pos := (word_of_int c AND 0xff) OR 0x0700)\<rparr>))
               (cga_move (pos + 1)))"

definition consputc :: "int \<Rightarrow> ('a mach_scheme, unit) kmon" where
  "consputc c = kbind (kget panicked) (\<lambda>stop.
     if stop then kspin
     else kseq (if c = BACKSPACE then kseq (uartputc 8) (kseq (uartputc 32) (uartputc 8)) else uartputc c)
               (cgaputc c))"

section \<open>Numbers and formats\<close>

text \<open>
  The digits that \<open>printint\<close> stores in its buffer, the last one first. The base is 10
  or 16 in every call; a base below 2, for which the loop would not end, is cut off.
\<close>

definition digit :: "nat \<Rightarrow> char" where
  "digit d = ''0123456789abcdef'' ! d"

function digits_from :: "nat \<Rightarrow> nat \<Rightarrow> string" where
  "digits_from base x =
     digit (x mod base) # (if x div base = 0 \<or> base < 2 then [] else digits_from base (x div base))"
  by pat_completeness auto

termination digits_from
proof (relation "measure snd")
  fix base x :: nat
  assume "\<not> (x div base = 0 \<or> base < 2)"
  then have "0 < x" "1 < base" by (auto intro: Nat.gr0I)
  then show "((base, x div base), base, x) \<in> measure snd" by simp
qed simp

declare digits_from.simps [simp del]

definition printint_buf :: "u32 \<Rightarrow> nat \<Rightarrow> bool \<Rightarrow> string" where
  "printint_buf xx base sign =
     (if sign \<and> sint xx < 0 then digits_from base (unat (- xx)) @ ''-''
      else digits_from base (unat xx))"

definition printint :: "u32 \<Rightarrow> nat \<Rightarrow> bool \<Rightarrow> string" where
  "printint xx base sign = rev (printint_buf xx base sign)"

text \<open>An argument of \<open>cprintf\<close>: a word, or a pointer to a string.\<close>

datatype fmt_arg = Word u32 | Str "string option"

fun fmt_word :: "fmt_arg list \<Rightarrow> u32" where
  "fmt_word (Word w # as) = w"
| "fmt_word as = 0"

fun fmt_str :: "fmt_arg list \<Rightarrow> string" where
  "fmt_str (Str (Some s) # as) = s"
| "fmt_str as = ''(null)''"

fun cformat :: "string \<Rightarrow> fmt_arg list \<Rightarrow> string" where
  "cformat [] as = []"
| "cformat [c] as = (if c = CHR ''%'' then [] else [c])"
| "cformat (c # d # cs) as =
     (if c \<noteq> CHR ''%'' then c # cformat (d # cs) as
      else if d = CHR ''d'' then printint (fmt_word as) 10 True @ cformat cs (tl as)
      else if d = CHR ''x'' \<or> d = CHR ''p'' then printint (fmt_word as) 16 False @ cformat cs (tl as)
      else if d = CHR ''s'' then fmt_str as @ cformat cs (tl as)
      else if d = CHR ''%'' then CHR ''%'' # cformat cs as
      else CHR ''%'' # d # cformat cs as)"

definition cputs :: "string \<Rightarrow> ('a mach_scheme, unit) kmon" where
  "cputs str = kfor str (\<lambda>c. consputc (int (of_char c)))"

definition cprintf :: "string \<Rightarrow> fmt_arg list \<Rightarrow> ('a mach_scheme, unit) kmon" where
  "cprintf fmt as = kbind (kget cons_locking) (\<lambda>locking.
     kseq (kwhen locking (acquire CONS_LOCK))
     (kseq (cputs (cformat fmt as))
     (kwhen locking (release CONS_LOCK))))"

section \<open>The buffer of \<open>printint\<close>\<close>

lemma length_digits_from:
  assumes "2 \<le> base" "x < base ^ Suc k"
  shows "length (digits_from base x) \<le> Suc k"
  using assms(2)
proof (induction k arbitrary: x)
  case 0
  then show ?case by (simp add: digits_from.simps [of base x])
next
  case (Suc k)
  then have "x div base < base ^ Suc k" using assms(1)
    by (simp add: less_mult_imp_div_less mult.commute)
  from Suc.IH [OF this] show ?case by (simp add: digits_from.simps [of base x])
qed

text \<open>
  C29. \<open>printint\<close> never writes past its 16-byte buffer: for base 10, signed, and for
  base 16, unsigned, at most 11 and 8 characters are stored, for every 32-bit value.
\<close>

theorem printint_fits:
  "length (printint_buf xx 10 True) \<le> 11 \<and> length (printint_buf xx 16 False) \<le> 8"
proof -
  have "length (digits_from 10 (unat x)) \<le> Suc 9" for x :: u32
    by (rule length_digits_from) (simp_all add: less_trans [OF unat_u32_less])
  moreover have "length (digits_from 16 (unat x)) \<le> Suc 7" for x :: u32
    by (rule length_digits_from) (simp_all add: less_trans [OF unat_u32_less])
  ultimately have "length (digits_from 10 (unat x)) \<le> 10" "length (digits_from 16 (unat x)) \<le> 8" for x :: u32
    by simp_all
  from this [of xx] this [of "- xx"] show ?thesis by (simp add: printint_buf_def)
qed

section \<open>The cursor\<close>

text \<open>
  \<open>printed s s'\<close>: output went from \<open>s\<close> to \<open>s'\<close>. The states agree but for the console
  output, and the cursor is on the screen.
\<close>

definition no_output :: "'a mach_scheme \<Rightarrow> 'a mach_scheme" where
  "no_output s = s\<lparr>uart_out := [], cga_pos := 0, crt := (\<lambda>_. 0)\<rparr>"

definition printed :: "'a mach_scheme \<Rightarrow> 'a mach_scheme \<Rightarrow> bool" where
  "printed s s' \<longleftrightarrow> 0 \<le> cga_pos s' \<and> cga_pos s' < 24 * 80 \<and> no_output s' = no_output s"

lemma printed_refl: "0 \<le> cga_pos s \<Longrightarrow> cga_pos s < 24 * 80 \<Longrightarrow> printed s s"
  by (simp add: printed_def)

lemma printed_trans: "printed s t \<Longrightarrow> printed t u \<Longrightarrow> printed s u"
  by (simp add: printed_def)

lemma printedD:
  assumes "printed s s'"
  shows "0 \<le> cga_pos s'" "cga_pos s' < 24 * 80" "panicked s' = panicked s" "cpus s' = cpus s"
    "intr_on s' = intr_on s" "ncpu s' = ncpu s" "lapic_id s' = lapic_id s" "locks s' = locks s"
proof -
  have no: "no_output s' = no_output s" using assms by (simp add: printed_def)
  show "panicked s' = panicked s" "cpus s' = cpus s" "intr_on s' = intr_on s" "ncpu s' = ncpu s"
    "lapic_id s' = lapic_id s" "locks s' = locks s"
    using arg_cong [OF no, of panicked] arg_cong [OF no, of cpus] arg_cong [OF no, of intr_on]
      arg_cong [OF no, of ncpu] arg_cong [OF no, of lapic_id] arg_cong [OF no, of locks]
    by (simp_all add: no_output_def)
qed (use assms in \<open>simp_all add: printed_def\<close>)

lemma cga_move_run:
  assumes "0 \<le> pos" "pos \<le> 1920"
  shows "\<exists>s'. cga_move pos e s = Ret () e s' \<and> printed s s'"
proof (cases "24 \<le> pos div 80")
  case True
  then have "80 \<le> pos" by linarith
  have "cga_move pos e s = Ret () e (s\<lparr>cga_pos := pos - 80,
      crt := (scroll (nat (pos - 80)) (crt s))(nat (pos - 80) := 0x0720)\<rparr>)"
    using True assms by (simp add: cga_move_def kmon_run)
  with \<open>80 \<le> pos\<close> assms(2) show ?thesis by (simp add: printed_def no_output_def)
next
  case False
  then have "pos < 1920" by linarith
  have "cga_move pos e s = Ret () e (s\<lparr>cga_pos := pos, crt := (crt s)(nat pos := 0x0720)\<rparr>)"
    using False assms by (simp add: cga_move_def kmon_run)
  with \<open>pos < 1920\<close> assms(1) show ?thesis by (simp add: printed_def no_output_def)
qed

lemma next_row:
  fixes pos :: int
  assumes "0 \<le> pos" "pos < 1920"
  shows "0 \<le> pos + (80 - pos mod 80)" "pos + (80 - pos mod 80) \<le> 1920"
proof -
  have "pos mod 80 < 80" "0 \<le> pos mod 80" by simp_all
  moreover have "pos = 80 * (pos div 80) + pos mod 80" by simp
  moreover have "pos div 80 < 24" using assms(2) by linarith
  ultimately show "0 \<le> pos + (80 - pos mod 80)" "pos + (80 - pos mod 80) \<le> 1920"
    using assms(1) by linarith+
qed

lemma cgaputc_run:
  assumes "0 \<le> cga_pos s" "cga_pos s < 24 * 80"
  shows "\<exists>s'. cgaputc c e s = Ret () e s' \<and> printed s s'"
proof -
  consider "c = 10" | "c = BACKSPACE" | "c \<noteq> 10" "c \<noteq> BACKSPACE" by blast
  then show ?thesis
  proof cases
    case 1
    with cga_move_run [of "cga_pos s + (80 - cga_pos s mod 80)" e s] next_row [of "cga_pos s"] assms
    show ?thesis by (simp add: cgaputc_def)
  next
    case 2
    with cga_move_run [of "if cga_pos s > 0 then cga_pos s - 1 else cga_pos s" e s] assms
    show ?thesis by (auto simp: cgaputc_def)
  next
    case 3
    let ?s = "s\<lparr>crt := (crt s)(nat (cga_pos s) := (word_of_int c AND 0xff) OR 0x0700)\<rparr>"
    have "printed s ?s" using assms by (simp add: printed_def no_output_def)
    moreover obtain s' where "cga_move (cga_pos s + 1) e ?s = Ret () e s'" "printed ?s s'"
      using cga_move_run [of "cga_pos s + 1" e ?s] assms by auto
    ultimately show ?thesis using 3 printed_trans [of s ?s s'] by (simp add: cgaputc_def)
  qed
qed

lemma consputc_run:
  assumes "0 \<le> cga_pos s" "cga_pos s < 24 * 80" "\<not> panicked s"
  shows "\<exists>s'. consputc c e s = Ret () e s' \<and> printed s s'"
proof -
  have "\<exists>s'. cgaputc c e (s\<lparr>uart_out := out\<rparr>) = Ret () e s' \<and> printed s s'" for out
  proof -
    have "printed s (s\<lparr>uart_out := out\<rparr>)" using assms by (simp add: printed_def no_output_def)
    moreover obtain s' where "cgaputc c e (s\<lparr>uart_out := out\<rparr>) = Ret () e s'" "printed (s\<lparr>uart_out := out\<rparr>) s'"
      using cgaputc_run [of "s\<lparr>uart_out := out\<rparr>" c e] assms by auto
    ultimately show ?thesis using printed_trans by blast
  qed
  then show ?thesis
    using assms(3) by (cases "c = BACKSPACE") (simp_all add: consputc_def uartputc_def kmon_run)
qed

lemma cputs_run:
  assumes "0 \<le> cga_pos s" "cga_pos s < 24 * 80" "\<not> panicked s"
  shows "\<exists>s'. cputs str e s = Ret () e s' \<and> printed s s'"
  using assms
proof (induction str arbitrary: s)
  case Nil
  then show ?case by (simp add: cputs_def printed_refl)
next
  case (Cons ch str)
  obtain t where t: "consputc (int (of_char ch)) e s = Ret () e t" "printed s t"
    using consputc_run [OF Cons.prems] by blast
  with Cons.IH [of t] printedD [OF t(2)] Cons.prems(3) obtain u where "cputs str e t = Ret () e u" "printed t u"
    by auto
  with t printed_trans [of s t u] show ?case by (simp add: cputs_def)
qed

text \<open>
  C28. Printing keeps the cursor on the screen: started with the cursor in the 24 rows
  that are shown, \<open>cprintf\<close> returns for every format and arguments, never reaches the panic
  for a cursor out of range, leaves the cursor in those rows, and changes nothing but the
  console output.
\<close>

theorem cprintf_cursor:
  assumes "on_cpu c s" "lk_free (locks s CONS_LOCK)" "0 \<le> cga_pos s" "cga_pos s < 24 * 80" "\<not> panicked s"
  shows "\<exists>s'. cprintf fmt as e s = Ret () e s' \<and> printed s s'"
proof (cases "cons_locking s")
  case True
  let ?t = "s\<lparr>cpus := deeper c (cpus s), intr_on := False,
    locks := (locks s)(CONS_LOCK := lk_take c (locks s CONS_LOCK))\<rparr>"
  obtain u where u: "cputs (cformat fmt as) e ?t = Ret () e u" "printed ?t u"
    using cputs_run [of ?t "cformat fmt as" e] assms(3-5) by auto
  note U = printedD [OF u(2)]
  have "release CONS_LOCK e u = Ret () e (u\<lparr>cpus := cpus s, intr_on := intr_on s, locks := locks s\<rparr>)"
    by (rule release_section [where c = c]) (use assms(1,2) U in simp_all)
  moreover have "no_output (u\<lparr>cpus := cpus s, intr_on := intr_on s, locks := locks s\<rparr>) = no_output s"
  proof -
    have "no_output (u\<lparr>cpus := cpus s, intr_on := intr_on s, locks := locks s\<rparr>)
        = (no_output u)\<lparr>cpus := cpus s, intr_on := intr_on s, locks := locks s\<rparr>"
      by (cases u) (simp add: no_output_def)
    also have "\<dots> = (no_output ?t)\<lparr>cpus := cpus s, intr_on := intr_on s, locks := locks s\<rparr>"
      using u(2) by (simp add: printed_def)
    also have "\<dots> = no_output s" by (cases s) (simp add: no_output_def)
    finally show ?thesis .
  qed
  ultimately have "\<exists>s'. release CONS_LOCK e u = Ret () e s' \<and> printed s s'"
    using U(1,2) by (simp add: printed_def)
  then show ?thesis
    using assms(1,2) True u(1) by (simp add: cprintf_def acquire_run [where c = c])
next
  case False
  then show ?thesis
    using cputs_run [of s "cformat fmt as" e] assms(3-5) by (auto simp: cprintf_def)
qed

theorem cprintf_cursor_witness:
  "\<exists>s'. cprintf ''%d%s\<newline>'' [Word 7, Str None] [] (one_mach\<lparr>cga_pos := 1919\<rparr>) = Ret () [] s'
     \<and> printed (one_mach\<lparr>cga_pos := 1919\<rparr>) s'"
  by (rule cprintf_cursor [of 0])
     (simp_all add: one_mach_def one_cpu_def cpu_ok_def cpu_if_def lk_free_def)

end
