(* ===== verification/Kalloc.thy ===== *)
theory Kalloc
  imports Pages Printf "HOL-Library.Multiset"
begin

text \<open>
  The physical page allocator (\<^verbatim>\<open>kalloc.c\<close>): a free list threaded through the
  free pages themselves. The abstract allocator is a list of free pages; the
  operations on memory refine \<open>hd\<close>, \<open>tl\<close> and \<open>#\<close> on it.
\<close>

section \<open>State and operations\<close>

text \<open>
  \<open>ram\<close> is the physical memory, indexed by the kernel addresses at which the kernel
  sees it (\<open>P2V\<close> of the physical ones). \<open>kernel_end\<close> is the linker's \<open>end\<close>.
\<close>

record kmem = mach +
  ram :: memory
  kernel_end :: u32
  use_lock :: bool
  freelist :: u32

definition kfree :: "u32 \<Rightarrow> ('a kmem_scheme, unit) kmon" where
  "kfree v = kbind (kget kernel_end) (\<lambda>kend.
     if v mod PGSIZE \<noteq> 0 \<or> v < kend \<or> PHYSTOP \<le> V2P v then kpanic ''kfree''
     else
       kseq (kmod (\<lambda>s. s\<lparr>ram := memset (ram s) v 1 PGSIZE\<rparr>))
       (kseq (kbind (kget use_lock) (\<lambda>u. kwhen u (acquire KMEM_LOCK)))
       (kseq (kmod (\<lambda>s. s\<lparr>ram := store32 (ram s) v (freelist s)\<rparr>))
       (kseq (kmod (\<lambda>s. s\<lparr>freelist := v\<rparr>))
       (kbind (kget use_lock) (\<lambda>u. kwhen u (release KMEM_LOCK)))))))"

definition kalloc :: "('a kmem_scheme, u32) kmon" where
  "kalloc =
     kseq (kbind (kget use_lock) (\<lambda>u. kwhen u (acquire KMEM_LOCK)))
     (kbind (kget freelist) (\<lambda>r.
      kseq (kwhen (r \<noteq> 0) (kmod (\<lambda>s. s\<lparr>freelist := load32 (ram s) r\<rparr>)))
      (kseq (kbind (kget use_lock) (\<lambda>u. kwhen u (release KMEM_LOCK)))
      (kreturn r))))"

text \<open>
  The loop of \<open>freerange\<close>. It ends for every \<open>vend\<close>: a page that \<open>kfree\<close> accepts
  is below \<open>PHYSTOP\<close>, so the pointer never wraps.
\<close>

function freerange_from ::
  "u32 \<Rightarrow> u32 \<Rightarrow> 'a kmem_scheme schedule \<Rightarrow> 'a kmem_scheme \<Rightarrow> (unit, 'a kmem_scheme) outcome" where
  "freerange_from p vend e s =
     (if p + PGSIZE \<le> vend then
        (case kfree p e s of
           Ret _ e' s' \<Rightarrow> freerange_from (p + PGSIZE) vend e' s'
         | Panic msg s' \<Rightarrow> Panic msg s'
         | Asleep s' \<Rightarrow> Asleep s'
         | Spin s' \<Rightarrow> Spin s')
      else Ret () e s)"
  by pat_completeness auto

lemma kfree_range: "kfree v e s = Ret x e' s' \<Longrightarrow> V2P v < PHYSTOP"
  by (auto simp: kfree_def kmon_run split: if_splits)

termination freerange_from
proof (relation "measure (\<lambda>(p, _). 2 ^ 32 - unat (V2P p))")
  fix p vend :: u32 and e and s :: "'a kmem_scheme" and x e' s'
  assume "kfree p e s = Ret x e' s'"
  then have "V2P p < PHYSTOP" by (rule kfree_range)
  then have "unat (V2P p) < 234881024" by (simp add: word_less_nat_alt)
  moreover from this have "unat (V2P p + 4096) = unat (V2P p) + 4096"
    by (simp add: unat_plus_if')
  moreover have "V2P (p + 4096) = V2P p + 4096" by (simp add: V2P_def)
  ultimately show "((p + PGSIZE, vend, e', s'), p, vend, e, s) \<in> measure (\<lambda>(p, _). 2 ^ 32 - unat (V2P p))"
    by simp
qed simp

declare freerange_from.simps [simp del]

definition freerange :: "u32 \<Rightarrow> u32 \<Rightarrow> ('a kmem_scheme, unit) kmon" where
  "freerange vstart vend = freerange_from (PGROUNDUP vstart) vend"

definition kinit1 :: "u32 \<Rightarrow> u32 \<Rightarrow> ('a kmem_scheme, unit) kmon" where
  "kinit1 vstart vend =
     kseq (initlock KMEM_LOCK ''kmem'')
     (kseq (kmod (\<lambda>s. s\<lparr>use_lock := False\<rparr>))
     (freerange vstart vend))"

definition kinit2 :: "u32 \<Rightarrow> u32 \<Rightarrow> ('a kmem_scheme, unit) kmon" where
  "kinit2 vstart vend =
     kseq (freerange vstart vend) (kmod (\<lambda>s. s\<lparr>use_lock := True\<rparr>))"

section \<open>The free list\<close>

text \<open>
  \<open>run_list m p ps\<close>: following the \<open>next\<close> pointers in memory \<open>m\<close> from \<open>p\<close> visits
  the pages \<open>ps\<close> and ends at a null pointer.
\<close>

fun run_list :: "memory \<Rightarrow> u32 \<Rightarrow> u32 list \<Rightarrow> bool" where
  "run_list m p [] \<longleftrightarrow> p = 0"
| "run_list m p (q # qs) \<longleftrightarrow> p = q \<and> q \<noteq> 0 \<and> run_list m (load32 m q) qs"

text \<open>A page that the allocator manages.\<close>

definition kpage :: "u32 \<Rightarrow> u32 \<Rightarrow> bool" where
  "kpage kend v \<longleftrightarrow> page_aligned v \<and> kend \<le> v \<and> V2P v < PHYSTOP"

text \<open>
  The allocator's invariant: the free pages are \<open>ps\<close>, each once, each a page it
  manages. \<open>KERNBASE < kernel_end\<close> is how the kernel is linked.
\<close>

definition kmem_inv :: "u32 list \<Rightarrow> memory \<Rightarrow> u32 \<Rightarrow> u32 \<Rightarrow> bool" where
  "kmem_inv ps m kend fl \<longleftrightarrow>
     run_list m fl ps \<and> distinct ps \<and> (\<forall>p\<in>set ps. kpage kend p) \<and> KERNBASE < kend"

abbreviation free_pages :: "u32 list \<Rightarrow> 'a kmem_scheme \<Rightarrow> bool" where
  "free_pages ps s \<equiv> kmem_inv ps (ram s) (kernel_end s) (freelist s)"

lemma kpage_nonzero: "kpage kend v \<Longrightarrow> KERNBASE < kend \<Longrightarrow> v \<noteq> 0"
  by (auto simp: kpage_def)

lemma kpage_aligned: "kpage kend v \<Longrightarrow> page_aligned v"
  by (simp add: kpage_def)

lemma run_list_cong:
  assumes "\<And>q. q \<in> set ps \<Longrightarrow> load32 m q = load32 m' q"
  shows "run_list m p ps \<longleftrightarrow> run_list m' p ps"
  using assms by (induction ps arbitrary: p) auto

text \<open>
  Whatever happens in memory outside the free pages does not disturb the allocator.
\<close>

lemma kmem_inv_frame:
  assumes "kmem_inv ps m kend fl" "\<And>a. PGROUNDDOWN a \<in> set ps \<Longrightarrow> m' a = m a"
  shows "kmem_inv ps m' kend fl"
proof -
  have "load32 m' q = load32 m q" if "q \<in> set ps" for q
  proof (rule load32_page_cong)
    have "page_aligned q" using assms(1) that by (auto simp: kmem_inv_def intro: kpage_aligned)
    then show "aligned4 q" by (rule page_aligned_word)
    show "m' b = m b" if "PGROUNDDOWN b = PGROUNDDOWN q" for b
      using that assms(2) [of b] \<open>q \<in> set ps\<close> \<open>page_aligned q\<close> by simp
  qed
  then show ?thesis
    using assms(1) run_list_cong [of ps m' m fl] by (simp add: kmem_inv_def)
qed

section \<open>Running the operations\<close>

abbreviation kmem_ready :: "nat \<Rightarrow> 'a kmem_scheme \<Rightarrow> bool" where
  "kmem_ready c s \<equiv> on_cpu c s \<and> lk_free (locks s KMEM_LOCK)"

lemma kfree_run:
  assumes "kmem_ready c s" "kpage (kernel_end s) v"
  shows "kfree v e s =
    Ret () e (s\<lparr>ram := store32 (memset (ram s) v 1 PGSIZE) v (freelist s), freelist := v\<rparr>)"
proof -
  have ok: "\<not> (v mod PGSIZE \<noteq> 0 \<or> v < kernel_end s \<or> PHYSTOP \<le> V2P v)"
    using assms(2) by (auto simp: kpage_def page_aligned_mod)
  from ok assms(1) show ?thesis
    by (simp add: kfree_def kmon_run acquire_run [where c = c] release_section [where c = c and s = s])
qed

lemma kfree_panic:
  assumes "\<not> kpage (kernel_end s) v"
  shows "kfree v e s = Panic ''kfree'' s"
  using assms by (auto simp: kfree_def kpage_def page_aligned_mod)

lemma kalloc_run:
  assumes "kmem_ready c s"
  shows "kalloc e s = Ret (freelist s) e
    (if freelist s = 0 then s else s\<lparr>freelist := load32 (ram s) (freelist s)\<rparr>)"
  using assms
  by (simp add: kalloc_def kmon_run acquire_run [where c = c] release_section [where c = c and s = s])

section \<open>What the operations do to the free list\<close>

lemma kmem_inv_free:
  assumes "kmem_inv ps m kend fl" "kpage kend v" "v \<notin> set ps"
  shows "kmem_inv (v # ps) (store32 (memset m v 1 PGSIZE) v fl) kend v"
proof -
  let ?m = "store32 (memset m v 1 PGSIZE) v fl"
  have v: "page_aligned v" "aligned4 v"
    using assms(2) by (auto intro: kpage_aligned page_aligned_word)
  have "?m a = m a" if "PGROUNDDOWN a \<in> set ps" for a
  proof -
    have "PGROUNDDOWN a \<noteq> v" using that assms(3) by blast
    with v show ?thesis by (simp add: store32_other_page memset_page)
  qed
  from kmem_inv_frame [OF assms(1) this] have "kmem_inv ps ?m kend fl" .
  then show ?thesis
    using assms by (auto simp: kmem_inv_def kpage_nonzero)
qed

lemma kmem_inv_alloc:
  assumes "kmem_inv (p # ps) m kend fl"
  shows "fl = p" "p \<noteq> 0" "p \<notin> set ps" "kpage kend p" "kmem_inv ps m kend (load32 m p)"
  using assms by (auto simp: kmem_inv_def)

lemma kmem_inv_empty: "kmem_inv [] m kend fl \<Longrightarrow> fl = 0"
  by (simp add: kmem_inv_def)

text \<open>
  The contract of a page allocator: \<open>free_at ps s\<close> says that the free pages in state
  \<open>s\<close> are \<open>ps\<close>, \<open>managed s v\<close> that \<open>v\<close> is a page of the allocator.
\<close>

locale page_allocator =
  fixes free_at :: "u32 list \<Rightarrow> 's \<Rightarrow> bool"
    and managed :: "'s \<Rightarrow> u32 \<Rightarrow> bool"
    and alloc :: "('s, u32) kmon"
    and free :: "u32 \<Rightarrow> ('s, unit) kmon"
  assumes alloc_empty: "free_at [] s \<Longrightarrow> alloc e s = Ret 0 e s"
    and alloc_page: "free_at (p # ps) s \<Longrightarrow>
      \<exists>s'. alloc e s = Ret p e s' \<and> free_at ps s' \<and> managed s' = managed s"
    and free_page: "free_at ps s \<Longrightarrow> managed s v \<Longrightarrow> v \<notin> set ps \<Longrightarrow>
      \<exists>s'. free v e s = Ret () e s' \<and> free_at (v # ps) s' \<and> managed s' = managed s"
    and free_wild: "\<not> managed s v \<Longrightarrow> free v e s = Panic ''kfree'' s"
    and free_distinct: "free_at ps s \<Longrightarrow> distinct ps"
    and free_managed: "free_at ps s \<Longrightarrow> p \<in> set ps \<Longrightarrow> managed s p \<and> p \<noteq> 0"
begin

lemma alloc_nonzero: "free_at ps s \<Longrightarrow> alloc e s = Ret r e' s' \<Longrightarrow> r = 0 \<longleftrightarrow> ps = []"
  using alloc_empty [of s e] alloc_page [of _ _ s e] free_managed [of ps s]
  by (cases ps) fastforce+

lemma free_alloc:
  assumes "free_at ps s" "managed s v" "v \<notin> set ps"
  shows "\<exists>s'. kseq (free v) alloc e s = Ret v e s' \<and> free_at ps s'"
proof -
  obtain s' where "free v e s = Ret () e s'" "free_at (v # ps) s'"
    using free_page [OF assms] by blast
  with alloc_page [of v ps s' e] show ?thesis by auto
qed

end

interpretation kmem: page_allocator
  "\<lambda>ps s. (\<exists>c. kmem_ready c s) \<and> free_pages ps s" "\<lambda>s. kpage (kernel_end s)" kalloc kfree
proof (unfold_locales, goal_cases)
  case (1 s e)
  then show ?case by (auto simp: kalloc_run dest: kmem_inv_empty)
next
  case (2 p ps s e)
  then obtain c where c: "kmem_ready c s" by blast
  from 2 have "freelist s = p" "p \<noteq> 0" "kmem_inv ps (ram s) (kernel_end s) (load32 (ram s) p)"
    by (auto dest: kmem_inv_alloc)
  with c show ?case by (auto simp: kalloc_run [OF c])
next
  case (3 ps s v e)
  then obtain c where c: "kmem_ready c s" by blast
  from 3 kmem_inv_free [of ps "ram s" "kernel_end s" "freelist s" v] c show ?case
    by (auto simp: kfree_run [OF c])
next
  case (4 s v e)
  then show ?case by (rule kfree_panic)
next
  case (5 ps s)
  then show ?case by (simp add: kmem_inv_def)
next
  case (6 ps s p)
  then have "kpage (kernel_end s) p" "2147483648 < kernel_end s" by (auto simp: kmem_inv_def)
  then show ?case using kpage_nonzero by blast
qed

text \<open>
  A client of the allocator that keeps a list of the pages it holds: it asks for a
  page, or gives back the \<open>k\<close>-th page it holds.
\<close>

datatype page_request = Get | Give nat

fun serve :: "page_request list \<Rightarrow> u32 list \<Rightarrow> ('a kmem_scheme, u32 list) kmon" where
  "serve [] held = kreturn held"
| "serve (Get # rs) held = kbind kalloc (\<lambda>v. serve rs (if v = 0 then held else v # held))"
| "serve (Give k # rs) held =
     (if k < length held then kseq (kfree (held ! k)) (serve rs (take k held @ drop (Suc k) held))
      else serve rs held)"

lemma mset_take_drop_nth: "k < length xs \<Longrightarrow> mset (take k xs @ drop (Suc k) xs) + {#xs ! k#} = mset xs"
  by (metis add_mset_add_single id_take_nth_drop mset.simps(2) mset_append union_mset_add_mset_right)

lemma serve_keeps_pages:
  assumes "kmem_ready c s" "free_pages ps s" "distinct (held @ ps)" "\<forall>p\<in>set held. kpage (kernel_end s) p"
  shows "\<exists>held' ps' s'. serve rs held e s = Ret held' e s' \<and> free_pages ps' s'
    \<and> mset (held' @ ps') = mset (held @ ps) \<and> kernel_end s' = kernel_end s"
  using assms
proof (induction rs held arbitrary: s ps rule: serve.induct)
  case (2 rs held)
  show ?case
  proof (cases ps)
    case Nil
    with 2(3) have "freelist s = 0" by (simp add: kmem_inv_def)
    with 2(1) [of s "[]" 0] 2(2-) Nil show ?thesis by (simp add: kalloc_run [OF 2(2)])
  next
    case (Cons p qs)
    let ?s = "s\<lparr>freelist := load32 (ram s) p\<rparr>"
    have p: "freelist s = p" "p \<noteq> 0" "kpage (kernel_end s) p" "free_pages qs ?s"
      using 2(3) Cons kmem_inv_alloc by auto
    with 2(1) [of ?s qs p] 2(2-) Cons show ?thesis by (simp add: kalloc_run [OF 2(2)])
  qed
next
  case (3 k rs held)
  show ?case
  proof (cases "k < length held")
    case True
    let ?v = "held ! k" and ?h = "take k held @ drop (Suc k) held"
    let ?s = "s\<lparr>ram := store32 (memset (ram s) ?v 1 PGSIZE) ?v (freelist s), freelist := ?v\<rparr>"
    have v: "kpage (kernel_end s) ?v" "?v \<notin> set ps"
      using nth_mem [OF True] 3(4-6) by auto
    have m: "mset (?h @ ?v # ps) = mset (held @ ps)" using mset_take_drop_nth [OF True] by simp
    then have d: "distinct (?h @ ?v # ps)" using 3(5) mset_eq_imp_distinct_iff by blast
    have "\<forall>p\<in>set ?h. kpage (kernel_end s) p"
      using 3(6) by (auto dest: in_set_takeD in_set_dropD)
    with 3(1) [OF True, of ?s "?v # ps"] 3(3) d kmem_inv_free [OF 3(4) v]
    have "\<exists>held' ps' s'. serve rs ?h e ?s = Ret held' e s' \<and> free_pages ps' s'
        \<and> mset (held' @ ps') = mset (?h @ ?v # ps) \<and> kernel_end s' = kernel_end s"
      by simp
    then show ?thesis unfolding m using True by (simp add: kfree_run [OF 3(3) v(1)])
  qed (use 3 in auto)
qed auto

text \<open>
  C5. The allocator neither loses pages nor hands one out twice: whatever a client
  that gives back only pages it holds asks for, \<open>kalloc\<close> and \<open>kfree\<close> never
  panic, and the pages held and the free pages together are the same pages as
  before, each exactly once.
\<close>

theorem pages_conserved:
  assumes "kmem_ready c s" "free_pages ps s" "distinct (held @ ps)"
    "\<forall>p\<in>set held. kpage (kernel_end s) p"
  shows "\<exists>held' ps' s'. serve rs held e s = Ret held' e s' \<and> free_pages ps' s'
    \<and> distinct (held' @ ps') \<and> set (held' @ ps') = set (held @ ps)"
proof -
  obtain held' ps' s' where s': "serve rs held e s = Ret held' e s'" "free_pages ps' s'"
    and m: "mset (held' @ ps') = mset (held @ ps)"
    using serve_keeps_pages [OF assms] by blast
  from m have "distinct (held' @ ps')" "set (held' @ ps') = set (held @ ps)"
    using assms(3) mset_eq_imp_distinct_iff mset_eq_setD by blast+
  with s' show ?thesis by blast
qed

text \<open>A memory whose free list holds two pages.\<close>

definition two_pages :: kmem where
  "two_pages = mach.extend one_mach
     \<lparr>ram = store32 (\<lambda>_. 0) 0x80401000 0x80400000, kernel_end = 0x80115000,
      use_lock = True, freelist = 0x80401000\<rparr>"

lemma two_pages_ready: "kmem_ready 0 two_pages"
  by (simp add: two_pages_def mach.defs one_mach_def one_cpu_def cpu_ok_def cpu_if_def lk_free_def)

lemma two_pages_free: "free_pages [0x80401000, 0x80400000] two_pages"
  by (simp add: two_pages_def mach.defs kmem_inv_def kpage_def V2P_def one_mach_def page_aligned_mod)
     (simp add: load32_def store32_def)

theorem pages_conserved_witness:
  "\<exists>held' ps' s'. serve [Get, Get, Get, Give 1, Get] [] [] two_pages = Ret held' [] s'
    \<and> free_pages ps' s' \<and> distinct (held' @ ps') \<and> set (held' @ ps') = {0x80401000, 0x80400000}"
  using pages_conserved [OF two_pages_ready two_pages_free, of "[]" "[Get, Get, Get, Give 1, Get]" "[]"]
  by simp

section \<open>Handing over a range of memory\<close>

text \<open>The whole pages of \<open>[p, vend)\<close>.\<close>

definition whole_pages :: "u32 \<Rightarrow> u32 \<Rightarrow> u32 set" where
  "whole_pages p vend = {v. page_aligned v \<and> p \<le> v \<and> unat v + 4096 \<le> unat vend}"

lemma aligned_multiple: "page_aligned v \<Longrightarrow> \<exists>q. unat v = 4096 * q"
  using page_aligned_unat [of v] by (auto simp: mod_eq_0_iff_dvd elim: dvdE)

lemma aligned_next:
  fixes p v :: u32
  assumes "page_aligned p" "page_aligned v" "unat p + 4096 < 2 ^ 32"
  shows "p + 4096 \<le> v \<longleftrightarrow> p \<le> v \<and> p \<noteq> v" "page_aligned (p + 4096)"
proof -
  obtain a b where a: "unat p = 4096 * a" and b: "unat v = 4096 * b"
    using assms aligned_multiple by metis
  have p: "unat (p + 4096) = 4096 * a + 4096" using assms(3) a by (simp add: unat_plus_if')
  show "p + 4096 \<le> v \<longleftrightarrow> p \<le> v \<and> p \<noteq> v"
    unfolding word_le_nat_alt word_unat_eq_iff p a b by auto
  show "page_aligned (p + 4096)" unfolding word_unat_eq_iff PGROUNDDOWN_eq p by simp
qed

lemma whole_pages_step:
  assumes "page_aligned p" "unat p + 4096 < 2 ^ 32"
  shows "whole_pages p vend =
    (if unat p + 4096 \<le> unat vend then insert p (whole_pages (p + 4096) vend) else {})"
    and "p \<notin> whole_pages (p + 4096) vend"
proof -
  show "p \<notin> whole_pages (p + 4096) vend"
    using aligned_next [OF assms(1,1,2)] by (auto simp: whole_pages_def)
  show "whole_pages p vend =
    (if unat p + 4096 \<le> unat vend then insert p (whole_pages (p + 4096) vend) else {})"
    using aligned_next(1) [OF assms(1) _ assms(2)] assms(1)
    by (auto simp: whole_pages_def word_le_nat_alt)
qed

lemma freerange_from_pages:
  assumes "kmem_ready c s" "free_pages ps s" "page_aligned p" "kernel_end s \<le> p"
    "unat p \<le> 0x8E000000 + 4096" "vend \<le> 0x8E000000" "whole_pages p vend \<inter> set ps = {}"
  shows "\<exists>qs s'. freerange_from p vend e s = Ret () e s' \<and> free_pages (qs @ ps) s'
    \<and> set qs = whole_pages p vend \<and> kmem_ready c s' \<and> kernel_end s' = kernel_end s"
  using assms
proof (induction p vend e s arbitrary: ps rule: freerange_from.induct)
  case (1 p vend e s)
  have np: "unat (p + 4096) = unat p + 4096" "unat p + 4096 < 2 ^ 32"
    using 1(6) by (simp_all add: unat_plus_if')
  note w = whole_pages_step [OF 1(4) np(2), of vend]
  show ?case
  proof (cases "p + 4096 \<le> vend")
    case True
    have le: "unat p + 4096 \<le> unat vend" using True np by (simp add: word_le_nat_alt)
    have k: "KERNBASE < kernel_end s" using 1(3) by (simp add: kmem_inv_def)
    have "unat (V2P p) = unat p - 2147483648"
      using k 1(5) by (simp add: V2P_def unat_sub word_le_nat_alt word_less_nat_alt)
    then have page: "kpage (kernel_end s) p"
      using 1(4,5,7) le by (simp add: kpage_def word_less_nat_alt word_le_nat_alt)
    let ?s = "s\<lparr>ram := store32 (memset (ram s) p 1 PGSIZE) p (freelist s), freelist := p\<rparr>"
    have run: "kfree p e s = Ret () e ?s" by (rule kfree_run [OF 1(2) page])
    have "p \<notin> set ps" using 1(8) w le by auto
    then have inv: "free_pages (p # ps) ?s" using kmem_inv_free [OF 1(3) page] by simp
    have "\<exists>qs s'. freerange_from (p + 4096) vend e ?s = Ret () e s' \<and> free_pages (qs @ p # ps) s'
      \<and> set qs = whole_pages (p + 4096) vend \<and> kmem_ready c s' \<and> kernel_end s' = kernel_end ?s"
      using 1(2,5,7,8) w le np aligned_next(2) [OF 1(4,4) np(2)] inv
      by (intro 1(1) [OF True run]) (auto simp: word_le_nat_alt)
    then obtain qs s' where "freerange_from (p + 4096) vend e ?s = Ret () e s'"
      "free_pages ((qs @ [p]) @ ps) s'" "set (qs @ [p]) = whole_pages p vend"
      "kmem_ready c s'" "kernel_end s' = kernel_end s"
      using w le by auto
    moreover have "freerange_from p vend e s = freerange_from (p + 4096) vend e ?s"
      using run True by (simp add: freerange_from.simps [of p])
    ultimately show ?thesis by metis
  next
    case False
    then have "whole_pages p vend = {}" using w np by (simp add: word_le_nat_alt)
    moreover have "freerange_from p vend e s = Ret () e s"
      using False by (simp add: freerange_from.simps [of p])
    ultimately show ?thesis using 1(2,3) by (intro exI [of _ "[]"]) simp
  qed
qed

lemma PGROUNDUP_least:
  assumes "unat a + 4095 < 2 ^ 32" "page_aligned v"
  shows "PGROUNDUP a \<le> v \<longleftrightarrow> a \<le> v"
proof -
  obtain b where b: "unat v = 4096 * b" using assms(2) aligned_multiple by blast
  define d r where "d = (unat a + 4095) div 4096" and "r = (unat a + 4095) mod 4096"
  have "unat a + 4095 = 4096 * d + r" "r < 4096" by (simp_all add: d_def r_def)
  then have "d \<le> b \<longleftrightarrow> unat a \<le> 4096 * b" by linarith
  then have "d * 4096 \<le> 4096 * b \<longleftrightarrow> unat a \<le> 4096 * b" by linarith
  then show ?thesis
    unfolding word_le_nat_alt PGROUNDUP_eq [OF assms(1)] b d_def .
qed

lemma page_aligned_PGROUNDUP [simp]: "page_aligned (PGROUNDUP a)"
  by (simp add: PGROUNDUP_down)

text \<open>
  C23. \<open>freerange\<close> hands over exactly the whole pages of the range: the loop ends,
  and the free list becomes the old one with every page that lies entirely between
  \<open>vstart\<close> and \<open>vend\<close> in front of it, each once.
\<close>

theorem freerange_whole_pages:
  assumes "kmem_ready c s" "free_pages ps s" "kernel_end s \<le> vstart"
    "vstart \<le> vend" "vend \<le> P2V PHYSTOP" "whole_pages vstart vend \<inter> set ps = {}"
  shows "\<exists>qs s'. freerange vstart vend e s = Ret () e s' \<and> free_pages (qs @ ps) s'
    \<and> set qs = whole_pages vstart vend"
proof -
  have le: "unat vstart \<le> 2382364672" "vend \<le> 0x8E000000"
    using assms(4,5) by (simp_all add: P2V_def word_le_nat_alt)
  then have np: "unat vstart + 4095 < 2 ^ 32" by simp
  have up: "unat (PGROUNDUP vstart) \<le> 0x8E000000 + 4096"
    using le(1) PGROUNDUP_eq [OF np] div_times_less_eq_dividend [of "unat vstart + 4095" 4096] by simp
  have same: "whole_pages (PGROUNDUP vstart) vend = whole_pages vstart vend"
    using PGROUNDUP_least [OF np] by (auto simp: whole_pages_def)
  have "kernel_end s \<le> PGROUNDUP vstart" using assms(3) PGROUNDUP_ge [OF np] by simp
  from freerange_from_pages [OF assms(1,2) _ this up le(2), of e] assms(6) show ?thesis
    by (auto simp: freerange_def same)
qed

theorem freerange_whole_pages_witness:
  "\<exists>qs s'. freerange 0x80402800 0x80405100 [] two_pages = Ret () [] s'
    \<and> free_pages (qs @ [0x80401000, 0x80400000]) s' \<and> set qs = whole_pages 0x80402800 0x80405100"
  by (rule freerange_whole_pages [OF two_pages_ready two_pages_free])
     (auto simp: two_pages_def mach.defs P2V_def whole_pages_def word_le_nat_alt)

end
