(* ===== verification/Vm.thy ===== *)
theory Vm
  imports Kalloc
begin

text \<open>
  Page tables and user memory (\<^verbatim>\<open>vm.c\<close>). A page table is its bytes in physical
  memory; \<open>pte_of\<close> is the abstract view of it, from virtual addresses to page table
  entries. \<open>switchuvm\<close> is in the theory of processes and \<open>loaduvm\<close> in the theory of
  \<open>exec\<close>, after the state that they use.
\<close>

section \<open>State\<close>

text \<open>
  \<open>cr3\<close> and \<open>task_reg\<close> are registers of the processor that runs, \<open>kernel_data\<close> is
  the linker's \<open>data\<close>, and \<open>ts_addr c\<close> the address of the task state of
  processor \<open>c\<close>.
\<close>

record vm = kmem +
  cr3 :: u32
  task_reg :: u16
  kpgdir :: u32
  kernel_data :: u32
  ts_addr :: "nat \<Rightarrow> u32"

abbreviation (input) DPL_USER :: "2 word" where "DPL_USER \<equiv> 3"
abbreviation (input) STA_X :: "4 word" where "STA_X \<equiv> 0x8"
abbreviation (input) STA_W :: "4 word" where "STA_W \<equiv> 0x2"
abbreviation (input) STA_R :: "4 word" where "STA_R \<equiv> 0x2"
abbreviation (input) SEG_KCODE :: nat where "SEG_KCODE \<equiv> 1"
abbreviation (input) SEG_KDATA :: nat where "SEG_KDATA \<equiv> 2"
abbreviation (input) SEG_UCODE :: nat where "SEG_UCODE \<equiv> 3"
abbreviation (input) SEG_UDATA :: nat where "SEG_UDATA \<equiv> 4"
abbreviation (input) SEG_TSS :: nat where "SEG_TSS \<equiv> 5"

text \<open>
  No loop over the pages of the address space takes more rounds than there are pages.
\<close>

abbreviation (input) page_rounds :: nat where "page_rounds \<equiv> 1048577"

section \<open>Operations\<close>

definition seginit :: "('a vm_scheme, unit) kmon" where
  "seginit = kbind cpuid (\<lambda>c.
     kmod (cpu_upd c (\<lambda>p. p\<lparr>gdt := (gdt p)
       [SEG_KCODE := SEG (STA_X OR STA_R) 0 0xffffffff 0,
        SEG_KDATA := SEG STA_W 0 0xffffffff 0,
        SEG_UCODE := SEG (STA_X OR STA_R) 0 0xffffffff DPL_USER,
        SEG_UDATA := SEG STA_W 0 0xffffffff DPL_USER]\<rparr>)))"

definition walkpgdir :: "u32 \<Rightarrow> u32 \<Rightarrow> bool \<Rightarrow> ('a kmem_scheme, u32) kmon" where
  "walkpgdir pgdir va alloc =
     kbind (kget (\<lambda>s. load32 (ram s) (pgdir + 4 * PDX va))) (\<lambda>pde.
     if pde AND PTE_P \<noteq> 0 then kreturn (P2V (PTE_ADDR pde) + 4 * PTX va)
     else if \<not> alloc then kreturn 0
     else kbind kalloc (\<lambda>pgtab.
       if pgtab = 0 then kreturn 0
       else
         kseq (kmod (\<lambda>s. s\<lparr>ram := memset (ram s) pgtab 0 PGSIZE\<rparr>))
         (kseq (kmod (\<lambda>s. s\<lparr>ram := store32 (ram s) (pgdir + 4 * PDX va)
            (V2P pgtab OR PTE_P OR PTE_W OR PTE_U)\<rparr>))
         (kreturn (pgtab + 4 * PTX va)))))"

text \<open>One round of the loop of \<open>mappages\<close>.\<close>

definition mappages_round :: "u32 \<Rightarrow> u32 \<Rightarrow> u32 \<Rightarrow> u32 \<times> u32 \<Rightarrow> ('a kmem_scheme, u32 \<times> u32 + int) kmon" where
  "mappages_round pgdir last_a perm = (\<lambda>(a, pa).
     kbind (walkpgdir pgdir a True) (\<lambda>pte.
     if pte = 0 then kreturn (Inr (-1))
     else kbind (kget (\<lambda>s. load32 (ram s) pte)) (\<lambda>old.
       if old AND PTE_P \<noteq> 0 then kpanic ''remap''
       else
         kseq (kmod (\<lambda>s. s\<lparr>ram := store32 (ram s) pte (pa OR perm OR PTE_P)\<rparr>))
         (kreturn (if a = last_a then Inr 0 else Inl (a + PGSIZE, pa + PGSIZE))))))"

definition mappages :: "u32 \<Rightarrow> u32 \<Rightarrow> u32 \<Rightarrow> u32 \<Rightarrow> u32 \<Rightarrow> ('a kmem_scheme, int) kmon" where
  "mappages pgdir va sz pa perm =
     kiter page_rounds (mappages_round pgdir (PGROUNDDOWN (va + sz - 1)) perm) (PGROUNDDOWN va, pa)"

definition deallocuvm :: "u32 \<Rightarrow> u32 \<Rightarrow> u32 \<Rightarrow> ('a kmem_scheme, u32) kmon" where
  "deallocuvm pgdir oldsz newsz =
     (if oldsz \<le> newsz then kreturn oldsz
      else kiter page_rounds (\<lambda>a.
        if \<not> a < oldsz then kreturn (Inr newsz)
        else kbind (walkpgdir pgdir a False) (\<lambda>pte.
          if pte = 0 then kreturn (Inl (PGADDR (PDX a + 1) 0 0 - PGSIZE + PGSIZE))
          else kbind (kget (\<lambda>s. load32 (ram s) pte)) (\<lambda>v.
            if v AND PTE_P \<noteq> 0 then
              (let pa = PTE_ADDR v in
               if pa = 0 then kpanic ''kfree''
               else
                 kseq (kfree (P2V pa))
                 (kseq (kmod (\<lambda>s. s\<lparr>ram := store32 (ram s) pte 0\<rparr>))
                 (kreturn (Inl (a + PGSIZE)))))
            else kreturn (Inl (a + PGSIZE)))))
      (PGROUNDUP newsz))"

definition allocuvm :: "u32 \<Rightarrow> u32 \<Rightarrow> u32 \<Rightarrow> ('a kmem_scheme, u32) kmon" where
  "allocuvm pgdir oldsz newsz =
     (if KERNBASE \<le> newsz then kreturn 0
      else if newsz < oldsz then kreturn oldsz
      else kiter page_rounds (\<lambda>a.
        if \<not> a < newsz then kreturn (Inr newsz)
        else kbind kalloc (\<lambda>mem.
          if mem = 0 then
            kseq (cprintf ''allocuvm out of memory\<newline>'' [])
            (kseq (deallocuvm pgdir newsz oldsz)
            (kreturn (Inr 0)))
          else
            kseq (kmod (\<lambda>s. s\<lparr>ram := memset (ram s) mem 0 PGSIZE\<rparr>))
            (kbind (mappages pgdir a PGSIZE (V2P mem) (PTE_W OR PTE_U)) (\<lambda>r.
             if r < 0 then
               kseq (cprintf ''allocuvm out of memory (2)\<newline>'' [])
               (kseq (deallocuvm pgdir newsz oldsz)
               (kseq (kfree mem)
               (kreturn (Inr 0))))
             else kreturn (Inl (a + PGSIZE))))))
      (PGROUNDUP oldsz))"

definition freevm :: "u32 \<Rightarrow> ('a kmem_scheme, unit) kmon" where
  "freevm pgdir =
     (if pgdir = 0 then kpanic ''freevm: no pgdir''
      else
        kseq (deallocuvm pgdir KERNBASE 0)
        (kseq (kfor [0..<1024] (\<lambda>i.
           kbind (kget (\<lambda>s. load32 (ram s) (pgdir + 4 * of_nat i))) (\<lambda>pde.
           kwhen (pde AND PTE_P \<noteq> 0) (kfree (P2V (PTE_ADDR pde))))))
        (kfree pgdir)))"

text \<open>
  \<open>kmap\<close>: virtual start, physical start, physical end and permissions of the
  kernel's four mappings.
\<close>

definition kmap :: "u32 \<Rightarrow> (u32 \<times> u32 \<times> u32 \<times> u32) list" where
  "kmap data =
     [(KERNBASE, 0, EXTMEM, PTE_W),
      (KERNLINK, V2P KERNLINK, V2P data, 0),
      (data, V2P data, PHYSTOP, PTE_W),
      (DEVSPACE, DEVSPACE, 0, PTE_W)]"

fun map_kernel :: "u32 \<Rightarrow> (u32 \<times> u32 \<times> u32 \<times> u32) list \<Rightarrow> ('a vm_scheme, u32) kmon" where
  "map_kernel pgdir [] = kreturn pgdir"
| "map_kernel pgdir ((virt, phys_start, phys_end, perm) # ks) =
     kbind (mappages pgdir virt (phys_end - phys_start) phys_start perm) (\<lambda>r.
     if r < 0 then kseq (freevm pgdir) (kreturn 0) else map_kernel pgdir ks)"

definition setupkvm :: "('a vm_scheme, u32) kmon" where
  "setupkvm = kbind kalloc (\<lambda>pgdir.
     if pgdir = 0 then kreturn 0
     else
       kseq (kmod (\<lambda>s. s\<lparr>ram := memset (ram s) pgdir 0 PGSIZE\<rparr>))
       (if DEVSPACE < P2V PHYSTOP then kpanic ''PHYSTOP too high''
        else kbind (kget kernel_data) (\<lambda>data. map_kernel pgdir (kmap data))))"

definition switchkvm :: "('a vm_scheme, unit) kmon" where
  "switchkvm = kmod (\<lambda>s. s\<lparr>cr3 := V2P (kpgdir s)\<rparr>)"

definition kvmalloc :: "('a vm_scheme, unit) kmon" where
  "kvmalloc = kbind setupkvm (\<lambda>p. kseq (kmod (\<lambda>s. s\<lparr>kpgdir := p\<rparr>)) switchkvm)"

text \<open>
  \<open>pte_of m pgdir va\<close> is the page table entry for \<open>va\<close>, or 0 where there is no page
  table. The kernel reads and writes memory through the page table in \<open>cr3\<close>:
  above \<open>KERNBASE\<close> that is physical memory; below, it is the user memory of the current
  page table, and a page that is not present, or not writable when it is written, is a
  page fault in the kernel, on which \<open>trap\<close> panics.
\<close>

definition pte_of :: "memory \<Rightarrow> u32 \<Rightarrow> u32 \<Rightarrow> u32" where
  "pte_of m pgdir va =
     (let pde = load32 m (pgdir + 4 * PDX va) in
      if pde AND PTE_P \<noteq> 0 then load32 m (P2V (PTE_ADDR pde) + 4 * PTX va) else 0)"

definition kxlate :: "memory \<Rightarrow> u32 \<Rightarrow> bool \<Rightarrow> u32 \<Rightarrow> u32 option" where
  "kxlate m pd wr va =
     (if KERNBASE \<le> va then Some va
      else (let pte = pte_of m (P2V pd) va in
        if pte AND PTE_P = 0 \<or> wr \<and> pte AND PTE_W = 0 then None
        else Some (P2V (PTE_ADDR pte) + PTE_FLAGS va)))"

definition kread8 :: "u32 \<Rightarrow> ('a vm_scheme, u8) kmon" where
  "kread8 va = kbind (kget (\<lambda>s. kxlate (ram s) (cr3 s) False va)) (\<lambda>a.
     case a of None \<Rightarrow> kpanic ''trap'' | Some pa \<Rightarrow> kget (\<lambda>s. ram s pa))"

fun kread_bytes :: "u32 \<Rightarrow> nat \<Rightarrow> ('a vm_scheme, u8 list) kmon" where
  "kread_bytes va 0 = kreturn []"
| "kread_bytes va (Suc n) =
     kbind (kread8 va) (\<lambda>b. kbind (kread_bytes (va + 1) n) (\<lambda>bs. kreturn (b # bs)))"

fun kwrite_bytes :: "u32 \<Rightarrow> u8 list \<Rightarrow> ('a vm_scheme, unit) kmon" where
  "kwrite_bytes va [] = kreturn ()"
| "kwrite_bytes va (b # bs) =
     kbind (kget (\<lambda>s. kxlate (ram s) (cr3 s) True va)) (\<lambda>a.
     case a of None \<Rightarrow> kpanic ''trap''
     | Some pa \<Rightarrow> kseq (kmod (\<lambda>s. s\<lparr>ram := (ram s)(pa := b)\<rparr>)) (kwrite_bytes (va + 1) bs))"

definition kread32 :: "u32 \<Rightarrow> ('a vm_scheme, u32) kmon" where
  "kread32 a = kbind (kread_bytes a 4) (\<lambda>bs. kreturn (word_of_bytes bs))"

definition kwrite32 :: "u32 \<Rightarrow> u32 \<Rightarrow> ('a vm_scheme, unit) kmon" where
  "kwrite32 a w = kwrite_bytes a (bytes_of_word w)"

text \<open>\<open>inituvm\<close> does not test the page it allocates: at address 0 the \<open>memset\<close> faults.\<close>

definition inituvm :: "u32 \<Rightarrow> u8 list \<Rightarrow> ('a vm_scheme, unit) kmon" where
  "inituvm pgdir init =
     (if 4096 \<le> length init then kpanic ''inituvm: more than a page''
      else kbind kalloc (\<lambda>mem.
        if mem = 0 then kpanic ''trap''
        else
          kseq (kmod (\<lambda>s. s\<lparr>ram := memset (ram s) mem 0 PGSIZE\<rparr>))
          (kseq (mappages pgdir 0 PGSIZE (V2P mem) (PTE_W OR PTE_U))
          (kmod (\<lambda>s. s\<lparr>ram := put_bytes (ram s) mem init\<rparr>)))))"

definition clearpteu :: "u32 \<Rightarrow> u32 \<Rightarrow> ('a kmem_scheme, unit) kmon" where
  "clearpteu pgdir uva = kbind (walkpgdir pgdir uva False) (\<lambda>pte.
     if pte = 0 then kpanic ''clearpteu''
     else kmod (\<lambda>s. s\<lparr>ram := store32 (ram s) pte (load32 (ram s) pte AND NOT PTE_U)\<rparr>))"

definition copyuvm :: "u32 \<Rightarrow> u32 \<Rightarrow> ('a vm_scheme, u32) kmon" where
  "copyuvm pgdir sz = kbind setupkvm (\<lambda>d.
     if d = 0 then kreturn 0
     else kiter page_rounds (\<lambda>i.
       if \<not> i < sz then kreturn (Inr d)
       else kbind (walkpgdir pgdir i False) (\<lambda>pte.
         if pte = 0 then kpanic ''copyuvm: pte should exist''
         else kbind (kget (\<lambda>s. load32 (ram s) pte)) (\<lambda>v.
           if v AND PTE_P = 0 then kpanic ''copyuvm: page not present''
           else kbind kalloc (\<lambda>mem.
             if mem = 0 then kseq (freevm d) (kreturn (Inr 0))
             else
               kseq (kmod (\<lambda>s. s\<lparr>ram := memmove (ram s) mem (P2V (PTE_ADDR v)) PGSIZE\<rparr>))
               (kbind (mappages d i PGSIZE (V2P mem) (PTE_FLAGS v)) (\<lambda>r.
                if r < 0 then kseq (freevm d) (kreturn (Inr 0))
                else kreturn (Inl (i + PGSIZE))))))))
     0)"

text \<open>\<open>uva2ka\<close> reads \<open>*pte\<close> without testing \<open>pte\<close>: where there is no page table it reads
  address 0.\<close>

definition uva2ka :: "u32 \<Rightarrow> u32 \<Rightarrow> ('a vm_scheme, u32) kmon" where
  "uva2ka pgdir uva = kbind (walkpgdir pgdir uva False) (\<lambda>pte.
     kbind (kread32 pte) (\<lambda>v.
     if v AND PTE_P = 0 then kreturn 0
     else if v AND PTE_U = 0 then kreturn 0
     else kreturn (P2V (PTE_ADDR v))))"

text \<open>
  \<open>copyout\<close> copies the bytes \<open>buf\<close>, the contents of \<open>p\<close> to \<open>p + len\<close>.
\<close>

definition copyout :: "u32 \<Rightarrow> u32 \<Rightarrow> u8 list \<Rightarrow> ('a vm_scheme, int) kmon" where
  "copyout pgdir va buf = kiter page_rounds (\<lambda>(va, buf).
     if buf = [] then kreturn (Inr 0)
     else (let va0 = PGROUNDDOWN va in
       kbind (uva2ka pgdir va0) (\<lambda>pa0.
       if pa0 = 0 then kreturn (Inr (-1))
       else (let n = min (unat (PGSIZE - (va - va0))) (length buf) in
         kseq (kmod (\<lambda>s. s\<lparr>ram := put_bytes (ram s) (pa0 + (va - va0)) (take n buf)\<rparr>))
         (kreturn (Inl (va0 + PGSIZE, drop n buf)))))))
   (va, buf)"

section \<open>Page tables in memory\<close>

definition pde_at :: "memory \<Rightarrow> u32 \<Rightarrow> u32 \<Rightarrow> u32" where
  "pde_at m pgdir i = load32 m (pgdir + 4 * i)"

definition has_table :: "memory \<Rightarrow> u32 \<Rightarrow> u32 \<Rightarrow> bool" where
  "has_table m pgdir i \<longleftrightarrow> i < 1024 \<and> pde_at m pgdir i AND PTE_P \<noteq> 0"

definition table_at :: "memory \<Rightarrow> u32 \<Rightarrow> u32 \<Rightarrow> u32" where
  "table_at m pgdir i = P2V (PTE_ADDR (pde_at m pgdir i))"

text \<open>
  A page table is in order when its directory and its tables are different pages of
  the allocator, none of them free.
\<close>

definition pt_ok :: "u32 list \<Rightarrow> memory \<Rightarrow> u32 \<Rightarrow> u32 \<Rightarrow> bool" where
  "pt_ok ps m kend pgdir \<longleftrightarrow>
     kpage kend pgdir \<and> pgdir \<notin> set ps
   \<and> (\<forall>i. has_table m pgdir i \<longrightarrow>
        kpage kend (table_at m pgdir i) \<and> table_at m pgdir i \<notin> set ps \<and> table_at m pgdir i \<noteq> pgdir)
   \<and> (\<forall>i j. has_table m pgdir i \<longrightarrow> has_table m pgdir j \<longrightarrow>
        table_at m pgdir i = table_at m pgdir j \<longrightarrow> i = j)"

text \<open>The pages that an operation on the page table may write.\<close>

definition footprint :: "u32 list \<Rightarrow> memory \<Rightarrow> u32 \<Rightarrow> u32 set" where
  "footprint ps m pgdir = insert pgdir (table_at m pgdir ` {i. has_table m pgdir i} \<union> set ps)"

lemma slot_in_page:
  assumes "page_aligned v" "i < 1024"
  shows "PGROUNDDOWN (v + 4 * i) = v" "aligned4 (v + 4 * i)"
proof -
  have "unat (4 * i) = 4 * unat i" using assms(2)
    by (simp add: unat_word_ariths word_less_nat_alt)
  then have "unat (v + 4 * i - v) < 4096" using assms(2) by (simp add: word_less_nat_alt)
  then show "PGROUNDDOWN (v + 4 * i) = v" using in_page [OF assms(1)] by blast
  obtain q where q: "unat v = 4096 * q" using aligned_multiple [OF assms(1)] by blast
  have "q < 1048576" using unat_u32_less [of v] unfolding q by linarith
  then have "unat v + unat (4 * i) < 4294967296"
    using \<open>unat (4 * i) = _\<close> assms(2) q by (simp add: word_less_nat_alt)
  then have "unat (v + 4 * i) = 4 * (1024 * q + unat i)"
    using \<open>unat (4 * i) = _\<close> q by (simp add: unat_plus_if')
  then show "aligned4 (v + 4 * i)" by (simp add: aligned4_def)
qed

lemma slot_inj:
  fixes v i j :: u32
  assumes "i < 1024" "j < 1024"
  shows "v + 4 * i = v + 4 * j \<longleftrightarrow> i = j"
proof -
  have "unat (4 * i) = 4 * unat i" "unat (4 * j) = 4 * unat j"
    using assms by (simp_all add: unat_word_ariths word_less_nat_alt)
  then have "4 * i = 4 * j \<longleftrightarrow> i = j" by (metis mult_cancel1 word_unat_eq_iff zero_neq_numeral)
  then show ?thesis by simp
qed

lemma load_slot_cong:
  assumes "page_aligned v" "i < 1024" "\<And>a. PGROUNDDOWN a = v \<Longrightarrow> m a = m' a"
  shows "load32 m (v + 4 * i) = load32 m' (v + 4 * i)"
  by (rule load32_page_cong) (use assms slot_in_page [OF assms(1,2)] in auto)

lemma pde_at_cong:
  assumes "page_aligned pgdir" "\<And>a. PGROUNDDOWN a = pgdir \<Longrightarrow> m a = m' a" "i < 1024"
  shows "pde_at m pgdir i = pde_at m' pgdir i"
  unfolding pde_at_def using assms by (intro load_slot_cong) auto

lemma pte_of_table:
  "pte_of m pgdir va =
     (if has_table m pgdir (PDX va) then load32 m (table_at m pgdir (PDX va) + 4 * PTX va) else 0)"
  by (simp add: pte_of_def has_table_def pde_at_def table_at_def PDX_less Let_def)

lemma same_page_iff: "PDX va = PDX va' \<and> PTX va = PTX va' \<longleftrightarrow> PGROUNDDOWN va = PGROUNDDOWN va'"
proof
  assume same: "PDX va = PDX va' \<and> PTX va = PTX va'"
  have "PGROUNDDOWN a = push_bit 22 (PDX a) OR push_bit 12 (PTX a)" for a
    unfolding PGROUNDDOWN_shift PDX_def PTX_def mask10
  proof (rule bit_word_eqI)
    fix n assume "n < LENGTH(32)"
    then show "bit (push_bit 12 (drop_bit 12 a)) n =
      bit (push_bit 22 (drop_bit 22 a AND mask 10) OR push_bit 12 (drop_bit 12 a AND mask 10)) n"
      by (cases "n < 22") (auto simp: bit_simps)
  qed
  with same show "PGROUNDDOWN va = PGROUNDDOWN va'" by simp
next
  assume same: "PGROUNDDOWN va = PGROUNDDOWN va'"
  have "PDX a = drop_bit 22 (PGROUNDDOWN a) AND 0x3FF" "PTX a = drop_bit 12 (PGROUNDDOWN a) AND 0x3FF" for a
    unfolding PGROUNDDOWN_shift PDX_def PTX_def mask10
    by (rule bit_word_eqI; auto simp: bit_simps)+
  with same show "PDX va = PDX va' \<and> PTX va = PTX va'" by metis
qed

lemma PTE_ADDR_PGROUNDDOWN: "PTE_ADDR = PGROUNDDOWN"
  by (simp add: PTE_ADDR_def PGROUNDDOWN_def fun_eq_iff)

lemma aligned_flags: "page_aligned x \<Longrightarrow> PTE_FLAGS x = 0"
proof -
  assume "page_aligned x"
  then have x: "x = push_bit 12 (drop_bit 12 x)" by (simp add: PGROUNDDOWN_shift)
  show "PTE_FLAGS x = 0"
    unfolding PTE_FLAGS_def mask12 by (subst x, rule bit_word_eqI) (simp add: bit_simps)
qed

lemma V2P_aligned:
  assumes "page_aligned v"
  shows "page_aligned (V2P v)"
proof -
  have "V2P v = push_bit 12 (drop_bit 12 v - 0x80000)"
    using assms unfolding V2P_def PGROUNDDOWN_shift push_bit_eq_mult
    by (simp add: algebra_simps)
  then have "V2P v AND mask 12 = 0"
    by (simp add: bit_eq_iff bit_simps)
  then show ?thesis
    using PTE_ADDR_FLAGS [of "V2P v"] unfolding PTE_ADDR_PGROUNDDOWN PTE_FLAGS_def mask12 by simp
qed

lemma pte_bits:
  assumes "page_aligned pa" "PGROUNDDOWN perm = 0"
  shows "PTE_ADDR (pa OR perm OR PTE_P) = pa" "(pa OR perm OR PTE_P) AND PTE_P \<noteq> 0"
    "PTE_FLAGS (pa OR perm OR PTE_P) = perm OR PTE_P"
proof -
  have "PTE_ADDR (perm OR PTE_P) = 0"
    using assms(2) unfolding PTE_ADDR_PGROUNDDOWN PGROUNDDOWN_def
    by (simp add: bit.conj_disj_distrib2 bit.conj_disj_distrib)
  from PTE_of_parts [OF aligned_flags [OF assms(1)] this]
  show "PTE_ADDR (pa OR perm OR PTE_P) = pa" "PTE_FLAGS (pa OR perm OR PTE_P) = perm OR PTE_P"
    by (simp_all add: or.assoc)
  have "bit ((pa OR perm OR PTE_P) AND PTE_P) 0" by (simp add: bit_simps)
  then show "(pa OR perm OR PTE_P) AND PTE_P \<noteq> 0" by (metis bit_0_eq bot_apply bot_bool_def)
qed

section \<open>Entries and tables\<close>

lemma pt_okD:
  assumes "pt_ok ps m kend pgdir" "has_table m pgdir i"
  shows "page_aligned (table_at m pgdir i)" "table_at m pgdir i \<noteq> pgdir" "i < 1024"
    "table_at m pgdir i \<notin> set ps" "page_aligned pgdir" "pgdir \<notin> set ps"
    "kpage kend (table_at m pgdir i)"
  using assms by (auto simp: pt_ok_def has_table_def intro: kpage_aligned)

lemma pt_ok_inj:
  "pt_ok ps m kend pgdir \<Longrightarrow> has_table m pgdir i \<Longrightarrow> has_table m pgdir j \<Longrightarrow>
    table_at m pgdir i = table_at m pgdir j \<Longrightarrow> i = j"
  by (auto simp: pt_ok_def)

lemma has_table_cong:
  assumes "\<And>i. i < 1024 \<Longrightarrow> pde_at m' pgdir i = pde_at m pgdir i"
  shows "has_table m' pgdir = has_table m pgdir"
    "has_table m pgdir i \<Longrightarrow> table_at m' pgdir i = table_at m pgdir i"
  using assms by (auto simp: has_table_def table_at_def fun_eq_iff)

text \<open>Writing the entry for \<open>va\<close> changes that entry and nothing else of the table.\<close>

lemma set_pte:
  fixes w :: u32
  assumes ok: "pt_ok ps m kend pgdir" and t: "has_table m pgdir (PDX va)"
  defines "m' \<equiv> store32 m (table_at m pgdir (PDX va) + 4 * PTX va) w"
  shows "\<And>a. PGROUNDDOWN a \<noteq> table_at m pgdir (PDX va) \<Longrightarrow> m' a = m a"
    and "pte_of m' pgdir va' = (if PGROUNDDOWN va' = PGROUNDDOWN va then w else pte_of m pgdir va')"
    and "pt_ok ps m' kend pgdir" and "footprint ps m' pgdir = footprint ps m pgdir"
proof -
  note T = pt_okD [OF ok t]
  have slot: "PGROUNDDOWN (table_at m pgdir (PDX va) + 4 * PTX va) = table_at m pgdir (PDX va)"
    "aligned4 (table_at m pgdir (PDX va) + 4 * PTX va)"
    using slot_in_page [OF T(1) PTX_less] by auto
  show frame: "m' a = m a" if "PGROUNDDOWN a \<noteq> table_at m pgdir (PDX va)" for a
    unfolding m'_def by (rule store32_other_page) (use slot that in auto)
  have pde: "pde_at m' pgdir i = pde_at m pgdir i" if "i < 1024" for i
    using that T frame by (intro pde_at_cong) auto
  note same = has_table_cong [OF pde]
  show "footprint ps m' pgdir = footprint ps m pgdir"
    using same by (auto simp: footprint_def image_iff)
  show "pt_ok ps m' kend pgdir"
    using ok same by (auto simp: pt_ok_def)
  show "pte_of m' pgdir va' = (if PGROUNDDOWN va' = PGROUNDDOWN va then w else pte_of m pgdir va')"
  proof (cases "PDX va' = PDX va")
    case True
    have "load32 m' (table_at m pgdir (PDX va) + 4 * PTX va') =
      (if PTX va' = PTX va then w else load32 m (table_at m pgdir (PDX va) + 4 * PTX va'))"
      unfolding m'_def
      using slot slot_in_page(2) [OF T(1) PTX_less [of va']] slot_inj [OF PTX_less PTX_less]
      by (auto intro!: load32_store32_other)
    with True same t show ?thesis by (simp add: pte_of_table same_page_iff [symmetric])
  next
    case False
    have "load32 m' (table_at m pgdir (PDX va') + 4 * PTX va') = load32 m (table_at m pgdir (PDX va') + 4 * PTX va')"
      if t': "has_table m pgdir (PDX va')"
    proof (rule load_slot_cong [OF _ PTX_less])
      show "page_aligned (table_at m pgdir (PDX va'))" using pt_okD [OF ok t'] by simp
      show "m' a = m a" if "PGROUNDDOWN a = table_at m pgdir (PDX va')" for a
        using that frame [of a] False pt_ok_inj [OF ok t' t] by auto
    qed
    with False same show ?thesis by (simp add: pte_of_table same_page_iff [symmetric])
  qed
qed

text \<open>A new table, zeroed, for an entry of the directory that had none.\<close>

lemma new_table:
  assumes ok: "pt_ok (p # ps) m kend pgdir" and fl: "kmem_inv (p # ps) m kend fl"
    and d: "d < 1024" "\<not> has_table m pgdir d"
  defines "m' \<equiv> store32 (memset m p 0 PGSIZE) (pgdir + 4 * d) (V2P p OR PTE_P OR PTE_W OR PTE_U)"
  shows "has_table m' pgdir i \<longleftrightarrow> has_table m pgdir i \<or> i = d"
    and "i = d \<or> has_table m pgdir i \<Longrightarrow> table_at m' pgdir i = (if i = d then p else table_at m pgdir i)"
    and "\<And>a. PGROUNDDOWN a \<noteq> pgdir \<Longrightarrow> m' a = (if PGROUNDDOWN a = p then 0 else m a)"
proof -
  note P = kmem_inv_alloc [OF fl]
  have al: "page_aligned pgdir" "page_aligned p" "p \<noteq> pgdir"
    using ok P by (auto simp: pt_ok_def intro: kpage_aligned)
  have slot: "PGROUNDDOWN (pgdir + 4 * d) = pgdir" "aligned4 (pgdir + 4 * d)"
    using slot_in_page [OF al(1) d(1)] by auto
  show frame: "m' a = (if PGROUNDDOWN a = p then 0 else m a)" if "PGROUNDDOWN a \<noteq> pgdir" for a
    unfolding m'_def using that slot al by (simp add: store32_other_page memset_page)
  have old: "pde_at (memset m p 0 PGSIZE) pgdir i = pde_at m pgdir i" if "i < 1024" for i
    using that al by (intro pde_at_cong) (auto simp: memset_page)
  have "PTE_ADDR (V2P p OR PTE_P OR PTE_W OR PTE_U) = V2P p"
    and "(V2P p OR PTE_P OR PTE_W OR PTE_U) AND PTE_P \<noteq> 0"
    using pte_bits [OF V2P_aligned [OF al(2)], of 6] by (simp_all add: PGROUNDDOWN_def)
  moreover have pde: "pde_at m' pgdir i =
      (if i = d then V2P p OR PTE_P OR PTE_W OR PTE_U else pde_at m pgdir i)" if "i < 1024" for i
    unfolding m'_def using old [OF that] slot_in_page(2) [OF al(1) that] slot(2) slot_inj [OF that d(1)]
    by (auto simp: pde_at_def intro!: trans [OF load32_store32_other])
  ultimately show "has_table m' pgdir i \<longleftrightarrow> has_table m pgdir i \<or> i = d"
    and "i = d \<or> has_table m pgdir i \<Longrightarrow> table_at m' pgdir i = (if i = d then p else table_at m pgdir i)"
    using d by (auto simp: has_table_def table_at_def split: if_splits)
qed

lemma new_table_ok:
  assumes ok: "pt_ok (p # ps) m kend pgdir" and fl: "kmem_inv (p # ps) m kend fl"
    and d: "d < 1024" "\<not> has_table m pgdir d"
  defines "m' \<equiv> store32 (memset m p 0 PGSIZE) (pgdir + 4 * d) (V2P p OR PTE_P OR PTE_W OR PTE_U)"
  shows "pt_ok ps m' kend pgdir" and "footprint ps m' pgdir = footprint (p # ps) m pgdir"
    and "pte_of m' pgdir va = pte_of m pgdir va" and "kmem_inv ps m' kend (load32 m p)"
proof -
  note N = new_table [OF ok fl d, folded m'_def]
  note P = kmem_inv_alloc [OF fl]
  have "{i. has_table m' pgdir i} = insert d {i. has_table m pgdir i}" using N(1) by auto
  moreover have "table_at m' pgdir ` {i. has_table m pgdir i} = table_at m pgdir ` {i. has_table m pgdir i}"
    using N(2) d(2) by (intro image_cong) auto
  ultimately show "footprint ps m' pgdir = footprint (p # ps) m pgdir"
    using N(2) [of d] by (auto simp: footprint_def)
  have notp: "p \<noteq> pgdir" "pgdir \<notin> set ps" using ok by (auto simp: pt_ok_def)
  show "pt_ok ps m' kend pgdir"
    using ok P(3,4) N(1,2) notp unfolding pt_ok_def by (metis list.set_intros set_ConsD)
  show "kmem_inv ps m' kend (load32 m p)"
    by (rule kmem_inv_frame [OF P(5)]) (metis N(3) P(3) notp(2))
  show "pte_of m' pgdir va = pte_of m pgdir va"
  proof (cases "has_table m pgdir (PDX va)")
    case True
    note T = pt_okD [OF ok True]
    have "load32 m' (table_at m pgdir (PDX va) + 4 * PTX va) = load32 m (table_at m pgdir (PDX va) + 4 * PTX va)"
      by (rule load_slot_cong [OF T(1) PTX_less]) (metis N(3) T(2,4) list.set_intros(1))
    with True d N(1,2) [of "PDX va"] show ?thesis by (auto simp: pte_of_table)
  next
    case False
    have "load32 m' (p + 4 * PTX va) = 0"
      using slot_in_page [OF kpage_aligned [OF P(4)] PTX_less [of va]] N(3) notp
      by (intro load32_zero) auto
    with False N(1,2) [of "PDX va"] show ?thesis by (auto simp: pte_of_table)
  qed
qed

section \<open>Walking and mapping\<close>

text \<open>
  What an operation may do to a page table: take free pages from the front of the
  list, and write only the directory, the tables and pages that were free.
\<close>

definition pt_step :: "u32 \<Rightarrow> u32 \<Rightarrow> u32 list \<Rightarrow> memory \<Rightarrow> u32 list \<Rightarrow> memory \<Rightarrow> bool" where
  "pt_step kend pgdir ps m ps' m' \<longleftrightarrow>
     pt_ok ps' m' kend pgdir \<and> (\<exists>xs. ps = xs @ ps')
   \<and> footprint ps' m' pgdir \<subseteq> footprint ps m pgdir
   \<and> (\<forall>a. PGROUNDDOWN a \<notin> footprint ps m pgdir \<longrightarrow> m' a = m a)"

lemma pt_step_refl: "pt_ok ps m kend pgdir \<Longrightarrow> pt_step kend pgdir ps m ps m"
  by (auto simp: pt_step_def)

lemma pt_step_trans:
  assumes "pt_step kend pgdir ps m ps' m'" "pt_step kend pgdir ps' m' ps'' m''"
  shows "pt_step kend pgdir ps m ps'' m''"
proof -
  obtain xs ys where "ps = xs @ ps'" "ps' = ys @ ps''"
    using assms by (auto simp: pt_step_def)
  then have "ps = (xs @ ys) @ ps''" by simp
  then have "\<exists>zs. ps = zs @ ps''" by blast
  moreover have "m'' a = m a" if "PGROUNDDOWN a \<notin> footprint ps m pgdir" for a
    using that assms by (metis pt_step_def subsetD)
  ultimately show ?thesis
    using assms unfolding pt_step_def by blast
qed

lemma pt_stepD: "pt_step kend pgdir ps m ps' m' \<Longrightarrow> pt_ok ps' m' kend pgdir"
  by (simp add: pt_step_def)

lemma walkpgdir_lookup:
  "walkpgdir pgdir va False e s = Ret (if has_table (ram s) pgdir (PDX va)
     then table_at (ram s) pgdir (PDX va) + 4 * PTX va else 0) e s"
  by (simp add: walkpgdir_def has_table_def table_at_def pde_at_def PDX_less)

lemma slot_nonzero:
  assumes "kpage kend v" "KERNBASE < kend" "i < 1024"
  shows "v + 4 * i \<noteq> 0"
proof
  assume "v + 4 * i = 0"
  then have "v = 0" using slot_in_page(1) [OF kpage_aligned [OF assms(1)] assms(3)]
    by (simp add: PGROUNDDOWN_def)
  then show False using kpage_nonzero assms(1,2) by blast
qed

lemma walkpgdir_alloc:
  assumes "kmem_ready c s" "free_pages ps s" "pt_ok ps (ram s) (kernel_end s) pgdir"
  shows "\<exists>r m f ps'. walkpgdir pgdir va True e s = Ret r e (s\<lparr>ram := m, freelist := f\<rparr>)
    \<and> kmem_inv ps' m (kernel_end s) f \<and> pt_step (kernel_end s) pgdir ps (ram s) ps' m
    \<and> (\<forall>va'. pte_of m pgdir va' = pte_of (ram s) pgdir va')
    \<and> (if r = 0 then ps' = []
       else has_table m pgdir (PDX va) \<and> r = table_at m pgdir (PDX va) + 4 * PTX va)"
proof -
  have k: "KERNBASE < kernel_end s" using assms(2) by (simp add: kmem_inv_def)
  show ?thesis
  proof (cases "has_table (ram s) pgdir (PDX va)")
    case True
    have "table_at (ram s) pgdir (PDX va) + 4 * PTX va \<noteq> 0"
      using pt_okD(7) [OF assms(3) True] k by (intro slot_nonzero) (auto simp: PTX_less)
    moreover have "walkpgdir pgdir va True e s = Ret (table_at (ram s) pgdir (PDX va) + 4 * PTX va) e s"
      using True by (simp add: walkpgdir_def has_table_def table_at_def pde_at_def)
    ultimately show ?thesis
      using True assms pt_step_refl [OF assms(3)]
      by (intro exI [of _ "table_at (ram s) pgdir (PDX va) + 4 * PTX va"] exI [of _ "ram s"]
          exI [of _ "freelist s"] exI [of _ ps]) simp
  next
    case False
    then have pde: "load32 (ram s) (pgdir + 4 * PDX va) AND PTE_P = 0"
      by (simp add: has_table_def pde_at_def PDX_less)
    show ?thesis
    proof (cases ps)
      case Nil
      with assms(2) have "freelist s = 0" by (simp add: kmem_inv_def)
      then have "walkpgdir pgdir va True e s = Ret 0 e s"
        using pde by (simp add: walkpgdir_def kmon_run kalloc_run [OF assms(1)])
      then show ?thesis
        using Nil assms pt_step_refl [OF assms(3)]
        by (intro exI [of _ 0] exI [of _ "ram s"] exI [of _ "freelist s"] exI [of _ ps]) simp
    next
      case (Cons p qs)
      note fl = assms(2) [unfolded Cons] and ok = assms(3) [unfolded Cons]
      note P = kmem_inv_alloc [OF fl]
      let ?m = "store32 (memset (ram s) p 0 PGSIZE) (pgdir + 4 * PDX va) (V2P p OR PTE_P OR PTE_W OR PTE_U)"
      note N = new_table [OF ok fl PDX_less False] and O = new_table_ok [OF ok fl PDX_less False]
      have "walkpgdir pgdir va True e s =
          Ret (p + 4 * PTX va) e (s\<lparr>ram := ?m, freelist := load32 (ram s) p\<rparr>)"
        using pde P by (simp add: walkpgdir_def kmon_run kalloc_run [OF assms(1)])
      moreover have "p + 4 * PTX va \<noteq> 0" using P(4) k by (intro slot_nonzero) (auto simp: PTX_less)
      moreover have "pt_step (kernel_end s) pgdir ps (ram s) qs ?m"
        unfolding pt_step_def Cons using O N(3) by (auto simp: footprint_def)
      moreover have "table_at ?m pgdir (PDX va) = p" "has_table ?m pgdir (PDX va)"
        using N(1,2) [of "PDX va"] by auto
      ultimately show ?thesis
        using O(3,4)
        by (intro exI [of _ "p + 4 * PTX va"] exI [of _ ?m] exI [of _ "load32 (ram s) p"] exI [of _ qs]) simp
    qed
  qed
qed

text \<open>\<open>in_range a n va\<close>: \<open>va\<close> lies in the \<open>n\<close> pages that start at \<open>a\<close>.\<close>

definition in_range :: "u32 \<Rightarrow> nat \<Rightarrow> u32 \<Rightarrow> bool" where
  "in_range a n va \<longleftrightarrow> unat (va - a) < 4096 * n"

lemma in_range_0 [simp]: "\<not> in_range a 0 va"
  by (simp add: in_range_def)

lemma in_range_Suc:
  assumes "page_aligned a" "n < 1048576"
  shows "in_range a (Suc n) va \<longleftrightarrow> PGROUNDDOWN va = a \<or> in_range (a + 4096) n va"
proof -
  have "va - (a + 4096) = (va - a) - 4096" by simp
  then have "unat (va - (a + 4096)) =
      (if 4096 \<le> unat (va - a) then unat (va - a) - 4096 else 4294967296 + unat (va - a) - 4096)"
    by (simp only: unat_sub_if') simp
  then have "unat (va - a) < 4096 * Suc n \<longleftrightarrow> unat (va - a) < 4096 \<or> unat (va - (a + 4096)) < 4096 * n"
    using assms(2) by auto
  then show ?thesis by (simp add: in_range_def in_page [OF assms(1)])
qed

lemma in_range_disjoint:
  assumes "page_aligned a" "n < 1048576" "PGROUNDDOWN va = a"
  shows "\<not> in_range (a + 4096) n va"
proof -
  have lt: "unat (va - a) < 4096" using assms in_page by blast
  have "va - (a + 4096) = (va - a) - 4096" by simp
  then have "unat (va - (a + 4096)) = 4294967296 + unat (va - a) - 4096"
    using lt by (simp only: unat_sub_if') simp
  then show ?thesis using assms(2) by (simp add: in_range_def)
qed

lemma mappages_round_run:
  assumes "kmem_ready c s" "free_pages ps s" "pt_ok ps (ram s) (kernel_end s) pgdir"
    "pte_of (ram s) pgdir a AND PTE_P = 0"
  shows "\<exists>m f ps'. kmem_inv ps' m (kernel_end s) f \<and> pt_step (kernel_end s) pgdir ps (ram s) ps' m
    \<and> (mappages_round pgdir last_a perm (a, pa) e s = Ret (Inr (-1)) e (s\<lparr>ram := m, freelist := f\<rparr>)
         \<and> ps' = [] \<and> (\<forall>va. pte_of m pgdir va = pte_of (ram s) pgdir va)
     \<or> mappages_round pgdir last_a perm (a, pa) e s =
           Ret (if a = last_a then Inr 0 else Inl (a + PGSIZE, pa + PGSIZE)) e (s\<lparr>ram := m, freelist := f\<rparr>)
         \<and> (\<forall>va. pte_of m pgdir va =
              (if PGROUNDDOWN va = PGROUNDDOWN a then pa OR perm OR PTE_P else pte_of (ram s) pgdir va)))"
proof -
  obtain r m f ps' where w: "walkpgdir pgdir a True e s = Ret r e (s\<lparr>ram := m, freelist := f\<rparr>)"
    and fl: "kmem_inv ps' m (kernel_end s) f" and st: "pt_step (kernel_end s) pgdir ps (ram s) ps' m"
    and pte: "\<And>va. pte_of m pgdir va = pte_of (ram s) pgdir va"
    and r: "if r = 0 then ps' = [] else has_table m pgdir (PDX a) \<and> r = table_at m pgdir (PDX a) + 4 * PTX a"
    using walkpgdir_alloc [OF assms(1,2,3), of a e] by blast
  show ?thesis
  proof (cases "r = 0")
    case True
    then have "mappages_round pgdir last_a perm (a, pa) e s = Ret (Inr (-1)) e (s\<lparr>ram := m, freelist := f\<rparr>)"
      using w by (simp add: mappages_round_def)
    with True r fl st pte show ?thesis by auto
  next
    case False
    with r have t: "has_table m pgdir (PDX a)" and r: "r = table_at m pgdir (PDX a) + 4 * PTX a" by auto
    have ok: "pt_ok ps' m (kernel_end s) pgdir" using st by (simp add: pt_step_def)
    have old: "load32 m r AND PTE_P = 0"
      using assms(4) pte [of a] t r by (simp add: pte_of_table)
    let ?m = "store32 m r (pa OR perm OR PTE_P)"
    note S = set_pte [OF ok t, where w = "pa OR perm OR PTE_P", folded r]
    have tab: "table_at m pgdir (PDX a) \<in> footprint ps' m pgdir" using t by (auto simp: footprint_def)
    have "table_at m pgdir (PDX a) \<notin> set ps'" using pt_okD [OF ok t] by simp
    then have "kmem_inv ps' ?m (kernel_end s) f"
      by (intro kmem_inv_frame [OF fl] S(1)) auto
    moreover have "pt_step (kernel_end s) pgdir ps' m ps' ?m"
    proof -
      have "?m x = m x" if "PGROUNDDOWN x \<notin> footprint ps' m pgdir" for x
        using that tab by (intro S(1)) auto
      then show ?thesis unfolding pt_step_def using S(3,4) by (intro conjI exI [of _ "[]"]) simp_all
    qed
    moreover have "mappages_round pgdir last_a perm (a, pa) e s =
        Ret (if a = last_a then Inr 0 else Inl (a + PGSIZE, pa + PGSIZE)) e (s\<lparr>ram := ?m, freelist := f\<rparr>)"
      using w False old by (simp add: mappages_round_def kmon_run)
    ultimately show ?thesis
      using S(2) pte pt_step_trans [OF st] by (intro exI [of _ ?m] exI [of _ f] exI [of _ ps']) auto
  qed
qed

text \<open>
  What \<open>mappages\<close> promises for \<open>n\<close> pages from \<open>a\<close>: it maps the first \<open>j\<close> of them, all of
  them if it returns 0; it stops before the end, with -1, only when no page is free.
\<close>

definition mapped :: "(u32 \<Rightarrow> u32) \<Rightarrow> u32 \<Rightarrow> nat \<Rightarrow> u32 \<Rightarrow> u32 \<Rightarrow> u32 \<Rightarrow> u32" where
  "mapped f a j pa perm va =
     (if in_range a j va then (pa + (PGROUNDDOWN va - a)) OR perm OR PTE_P else f va)"

lemma mapped_Suc:
  assumes "page_aligned a" "j < 1048576"
    "\<And>va. g va = (if PGROUNDDOWN va = PGROUNDDOWN a then pa OR perm OR PTE_P else f va)"
  shows "mapped g (a + 4096) j (pa + 4096) perm va = mapped f a (Suc j) pa perm va"
  using assms in_range_disjoint [OF assms(1,2), of va]
  by (simp add: mapped_def in_range_Suc)

lemma mappages_rounds:
  assumes "kmem_ready c s" "free_pages ps s" "pt_ok ps (ram s) (kernel_end s) pgdir"
    "page_aligned a" "0 < n" "unat a + 4096 * n \<le> 2 ^ 32" "n \<le> N"
    "\<And>va. in_range a n va \<Longrightarrow> pte_of (ram s) pgdir va AND PTE_P = 0"
    "last_a = a + 4096 * of_nat (n - 1)"
  shows "\<exists>r m f ps' j. kiter N (mappages_round pgdir last_a perm) (a, pa) e s = Ret r e (s\<lparr>ram := m, freelist := f\<rparr>)
    \<and> kmem_inv ps' m (kernel_end s) f \<and> pt_step (kernel_end s) pgdir ps (ram s) ps' m
    \<and> (r = 0 \<and> j = n \<or> r = -1 \<and> j < n \<and> ps' = [])
    \<and> (\<forall>va. pte_of m pgdir va = mapped (pte_of (ram s) pgdir) a j pa perm va)"
  using assms
proof (induction n arbitrary: s ps a pa N)
  case (Suc n)
  from Suc.prems(7) obtain N' where N: "N = Suc N'" "n \<le> N'" by (cases N) auto
  have n: "n < 1048576" using Suc.prems(6) by simp
  have "in_range a (Suc n) a" by (simp add: in_range_def)
  then have free: "pte_of (ram s) pgdir a AND PTE_P = 0" by (rule Suc.prems(8))
  obtain m f ps1 where fl: "kmem_inv ps1 m (kernel_end s) f"
    and st: "pt_step (kernel_end s) pgdir ps (ram s) ps1 m"
    and alt: "mappages_round pgdir last_a perm (a, pa) e s = Ret (Inr (-1)) e (s\<lparr>ram := m, freelist := f\<rparr>)
         \<and> ps1 = [] \<and> (\<forall>va. pte_of m pgdir va = pte_of (ram s) pgdir va)
     \<or> mappages_round pgdir last_a perm (a, pa) e s =
           Ret (if a = last_a then Inr 0 else Inl (a + PGSIZE, pa + PGSIZE)) e (s\<lparr>ram := m, freelist := f\<rparr>)
         \<and> (\<forall>va. pte_of m pgdir va =
              (if PGROUNDDOWN va = PGROUNDDOWN a then pa OR perm OR PTE_P else pte_of (ram s) pgdir va))"
    using mappages_round_run [OF Suc.prems(1,2,3) free, of last_a perm pa e] by blast
  from alt show ?case
  proof (elim disjE conjE)
    assume "mappages_round pgdir last_a perm (a, pa) e s = Ret (Inr (-1)) e (s\<lparr>ram := m, freelist := f\<rparr>)"
      "ps1 = []" "\<forall>va. pte_of m pgdir va = pte_of (ram s) pgdir va"
    then show ?case using fl st N
      by (intro exI [of _ "-1"] exI [of _ m] exI [of _ f] exI [of _ "[]"] exI [of _ 0])
         (simp add: sum_run mapped_def)
  next
    assume run: "mappages_round pgdir last_a perm (a, pa) e s =
           Ret (if a = last_a then Inr 0 else Inl (a + PGSIZE, pa + PGSIZE)) e (s\<lparr>ram := m, freelist := f\<rparr>)"
      and pte: "\<forall>va. pte_of m pgdir va =
              (if PGROUNDDOWN va = PGROUNDDOWN a then pa OR perm OR PTE_P else pte_of (ram s) pgdir va)"
    show ?case
    proof (cases "n = 0")
      case 0: True
      then have "a = last_a" using Suc.prems(9) by simp
      then have "kiter N (mappages_round pgdir last_a perm) (a, pa) e s = Ret 0 e (s\<lparr>ram := m, freelist := f\<rparr>)"
        using run N(1) by (simp add: sum_run)
      moreover have "\<forall>va. pte_of m pgdir va = mapped (pte_of (ram s) pgdir) a (Suc n) pa perm va"
        using pte Suc.prems(4) 0 by (simp add: mapped_def in_range_Suc)
      ultimately show ?thesis using fl st by blast
    next
      case False
      have "unat (of_nat n :: u32) = n" using n by (simp add: unat_of_nat)
      then have "unat (4096 * of_nat n :: u32) = 4096 * n" using n by (simp add: unat_word_ariths)
      then have "(4096 * of_nat n :: u32) \<noteq> 0" using False by (metis mult_is_0 unat_0 zero_neq_numeral)
      then have nl: "a \<noteq> last_a" using Suc.prems(9) by simp
      have a': "unat a + 4096 < 2 ^ 32" using Suc.prems(6) False by simp
      then have ua: "unat (a + 4096) = unat a + 4096" by (simp add: unat_plus_if')
      have "\<exists>n'. n = Suc n'" using False by (cases n) auto
      then have last': "last_a = a + 4096 + 4096 * of_nat (n - 1)"
        using Suc.prems(9) by (auto simp: algebra_simps)
      let ?s = "s\<lparr>ram := m, freelist := f\<rparr>"
      have fl': "free_pages ps1 ?s" and rd: "kmem_ready c ?s" and ok': "pt_ok ps1 (ram ?s) (kernel_end ?s) pgdir"
        using fl Suc.prems(1) pt_stepD [OF st] by simp_all
      have al: "page_aligned (a + 4096)" using aligned_next(2) [OF Suc.prems(4,4) a'] .
      have bound: "unat (a + 4096) + 4096 * n \<le> 2 ^ 32" using Suc.prems(6) ua by simp
      have nf: "pte_of (ram ?s) pgdir va AND PTE_P = 0" if "in_range (a + 4096) n va" for va
        using that pte in_range_disjoint [OF Suc.prems(4) n, of va] in_range_Suc [OF Suc.prems(4) n, of va]
          Suc.prems(4,8) by auto
      have "0 < n" using False by simp
      from Suc.IH [OF rd fl' ok' al this bound N(2) nf last', of "pa + 4096"]
      obtain r m' f' ps' j where
        IH: "kiter N' (mappages_round pgdir last_a perm) (a + 4096, pa + 4096) e ?s = Ret r e (?s\<lparr>ram := m', freelist := f'\<rparr>)"
        "kmem_inv ps' m' (kernel_end ?s) f'" "pt_step (kernel_end ?s) pgdir ps1 (ram ?s) ps' m'"
        "r = 0 \<and> j = n \<or> r = -1 \<and> j < n \<and> ps' = []"
        "\<forall>va. pte_of m' pgdir va = mapped (pte_of (ram ?s) pgdir) (a + 4096) j (pa + 4096) perm va"
        by blast
      note IH(2,3,5) [simplified]
      note IH = IH(1) this(1,2) IH(4) this(3)
      have "j < 1048576" using IH(4) n by auto
      with IH(5) pte Suc.prems(4)
      have "\<forall>va. pte_of m' pgdir va = mapped (pte_of (ram s) pgdir) a (Suc j) pa perm va"
        by (simp add: mapped_Suc [where g = "pte_of m pgdir"])
      moreover have "kiter N (mappages_round pgdir last_a perm) (a, pa) e s =
          Ret r e (s\<lparr>ram := m', freelist := f'\<rparr>)"
        using IH(1) run nl N by (simp add: sum_run)
      moreover have "r = 0 \<and> Suc j = Suc n \<or> r = -1 \<and> Suc j < Suc n \<and> ps' = []"
        using IH(4) by simp
      ultimately show ?thesis
        using IH(2) pt_step_trans [OF st IH(3)] by blast
    qed
  qed
qed simp

lemma page_round_end: "page_aligned a \<Longrightarrow> PGROUNDDOWN (a + 4095) = a"
  using in_page [of a "a + 4095"] by simp

text \<open>
  C6. \<open>mappages\<close> maps exactly the pages it is asked for. On a page table in order,
  where none of the \<open>n\<close> pages from \<open>va\<close> is mapped, it never panics. It returns 0 with
  every one of those pages mapped to its physical page with the permissions given, or
  -1 with the first \<open>j\<close> of them mapped and no page left free. No other entry changes, the
  page table stays in order, and memory outside the page table and the free pages is
  untouched.
\<close>

theorem mappages_exact:
  assumes "kmem_ready c s" "free_pages ps s" "pt_ok ps (ram s) (kernel_end s) pgdir"
    "page_aligned va" "0 < n" "unat va + 4096 * n \<le> 2 ^ 32" "sz = 4096 * of_nat n"
    "\<And>va'. in_range va n va' \<Longrightarrow> pte_of (ram s) pgdir va' AND PTE_P = 0"
  shows "\<exists>r m f ps' j. mappages pgdir va sz pa perm e s = Ret r e (s\<lparr>ram := m, freelist := f\<rparr>)
    \<and> kmem_inv ps' m (kernel_end s) f \<and> pt_step (kernel_end s) pgdir ps (ram s) ps' m
    \<and> (r = 0 \<and> j = n \<or> r = -1 \<and> j < n \<and> ps' = [])
    \<and> (\<forall>va'. pte_of m pgdir va' = mapped (pte_of (ram s) pgdir) va j pa perm va')"
proof -
  have n: "n \<le> 1048576" using assms(6) by simp
  obtain k where k: "n = Suc k" using assms(5) by (cases n) auto
  then have "va + sz - 1 = (va + 4096 * of_nat (n - 1)) + 4095"
    using assms(7) by (auto simp: algebra_simps)
  moreover have "page_aligned (va + 4096 * of_nat (n - 1))"
  proof -
    have "unat (of_nat k :: u32) = k" using n k by (simp add: unat_of_nat)
    then have "unat (4096 * of_nat k :: u32) = 4096 * k"
      using n k by (simp add: unat_word_ariths)
    then have u: "unat (va + 4096 * of_nat (n - 1)) = unat va + 4096 * k"
      using assms(6) k by (simp add: unat_plus_if')
    obtain q where "unat va = 4096 * q" using aligned_multiple [OF assms(4)] by blast
    then show ?thesis unfolding word_unat_eq_iff PGROUNDDOWN_eq u by simp
  qed
  ultimately have l: "PGROUNDDOWN (va + sz - 1) = va + 4096 * of_nat (n - 1)"
    by (simp only: page_round_end)
  show ?thesis
    unfolding mappages_def assms(4) l
    by (rule mappages_rounds [OF assms(1-6) _ assms(8) refl]) (use n in auto)
qed

lemma empty_directory:
  assumes "page_aligned pgdir" "\<And>a. PGROUNDDOWN a = pgdir \<Longrightarrow> m a = 0"
  shows "\<not> has_table m pgdir i" "pte_of m pgdir va = 0"
proof -
  have "pde_at m pgdir i = 0" if "i < 1024" for i
    unfolding pde_at_def using slot_in_page [OF assms(1) that] assms(2) by (intro load32_zero) auto
  then show "\<not> has_table m pgdir i" for i by (auto simp: has_table_def)
  then show "pte_of m pgdir va = 0" by (simp add: pte_of_table)
qed

theorem mappages_exact_witness:
  "\<exists>r m f ps' j. mappages 0x80402000 0x3000 (4096 * of_nat 2) 0x7000 6 [] two_pages
      = Ret r [] (two_pages\<lparr>ram := m, freelist := f\<rparr>)
    \<and> kmem_inv ps' m 0x80115000 f
    \<and> pt_step 0x80115000 0x80402000 [0x80401000, 0x80400000] (ram two_pages) ps' m
    \<and> (r = 0 \<and> j = 2 \<or> r = -1 \<and> j < 2 \<and> ps' = [])
    \<and> (\<forall>va. pte_of m 0x80402000 va = mapped (pte_of (ram two_pages) 0x80402000) 0x3000 j 0x7000 6 va)"
proof -
  have "ram two_pages a = 0" if "PGROUNDDOWN a = 0x80402000" for a
  proof -
    have "store32 (\<lambda>_. 0) 0x80401000 0x80400000 a = 0"
      by (rule trans [OF store32_other_page]) (use that in \<open>simp_all add: aligned4_def PGROUNDDOWN_def\<close>)
    then show ?thesis by (simp add: two_pages_def mach.defs)
  qed
  note E = empty_directory [OF _ this]
  have "pt_ok [0x80401000, 0x80400000] (ram two_pages) (kernel_end two_pages) 0x80402000"
    using E(1) by (simp add: pt_ok_def kpage_def V2P_def two_pages_def mach.defs page_aligned_mod)
  from mappages_exact [OF two_pages_ready two_pages_free this,
      where va = "0x3000" and n = 2 and sz = "4096 * of_nat 2" and pa = "0x7000" and perm = 6 and e = "[]"] E(2)
  show ?thesis by (simp add: page_aligned_mod two_pages_def mach.defs)
qed

end
