(* ===== verification/Proc.thy ===== *)
theory Proc
  imports Vm
begin

text \<open>
  Processes (\<^verbatim>\<open>proc.h\<close>, \<^verbatim>\<open>proc.c\<close>): the process table, allocation, the
  scheduler, sleep and wakeup, wait, kill and the calls that set signal masks and handlers.
  \<open>fork\<close>, \<open>exit\<close> and \<open>userinit\<close> also use files and are in a theory of their own.
\<close>

section \<open>State\<close>

text \<open>The registers that a trap saves (\<open>struct trapframe\<close> of \<^verbatim>\<open>x86.h\<close>).\<close>

record trapframe =
  tf_edi :: u32
  tf_esi :: u32
  tf_ebp :: u32
  tf_oesp :: u32
  tf_ebx :: u32
  tf_edx :: u32
  tf_ecx :: u32
  tf_eax :: u32
  tf_gs :: u16
  tf_padding1 :: u16
  tf_fs :: u16
  tf_padding2 :: u16
  tf_es :: u16
  tf_padding3 :: u16
  tf_ds :: u16
  tf_padding4 :: u16
  tf_trapno :: u32
  tf_err :: u32
  tf_eip :: u32
  tf_cs :: u16
  tf_padding5 :: u16
  tf_eflags :: u32
  tf_esp :: u32
  tf_ss :: u16
  tf_padding6 :: u16

datatype procstate = UNUSED | EMBRYO | SLEEPING | RUNNABLE | RUNNING | ZOMBIE

text \<open>
  The addresses on which the kernel sleeps: \<open>ticks\<close>, a process, the log, the console's
  input, a sleep lock, a buffer on its way to the disk, and the two counters of a pipe.
\<close>

datatype channel =
    TicksChan | ProcChan nat | LogChan | InputChan | BufLockChan nat | InodeLockChan nat
  | BufChan nat | PipeReadChan u32 | PipeWriteChan u32

text \<open>
  \<open>struct proc\<close>. Pointers to processes, files and inodes are indices into their tables.
  The trap frame is kept by value; \<open>kcontext\<close> is \<open>context\<close>, the saved kernel stack pointer.
\<close>

record proc =
  sz :: u32
  pgdir :: u32
  kstack :: u32
  pstate :: procstate
  pid :: u32
  parent :: "nat option"
  tf :: trapframe
  kcontext :: u32
  chan :: "channel option"
  killed :: bool
  ofile :: "nat option list"
  cwd :: "nat option"
  pname :: "u8 list"
  pending :: u32
  mask :: u32
  mask_backup :: u32
  handlers :: "u32 list"
  trap_backup :: u32

abbreviation (input) NPROC :: nat where "NPROC \<equiv> 64"
abbreviation (input) NOFILE :: nat where "NOFILE \<equiv> 16"
abbreviation (input) KSTACKSIZE :: u32 where "KSTACKSIZE \<equiv> 4096"
abbreviation (input) SIG_DFL :: u32 where "SIG_DFL \<equiv> -1"
abbreviation (input) SIG_IGN :: u32 where "SIG_IGN \<equiv> 1"
abbreviation (input) SIGKILL :: nat where "SIGKILL \<equiv> 9"
abbreviation (input) SIGSTOP :: nat where "SIGSTOP \<equiv> 17"
abbreviation (input) SIGCONT :: nat where "SIGCONT \<equiv> 19"

text \<open>
  The process table and the clock. \<open>trapret_addr\<close> and \<open>forkret_addr\<close> are addresses that
  the linker chose; \<open>forkret_first\<close> is the static variable of \<open>forkret\<close>.
\<close>

record ptable = vm +
  procs :: "proc list"
  initproc :: "nat option"
  nextpid :: u32
  trapret_addr :: u32
  forkret_addr :: u32
  forkret_first :: bool
  ticks :: u32

text \<open>The slots of the table, in the order in which the loops of the kernel visit them.\<close>

definition slots :: "nat list" where
  "slots = [0..<NPROC]"

definition pupd :: "nat \<Rightarrow> (proc \<Rightarrow> proc) \<Rightarrow> 'a ptable_scheme \<Rightarrow> 'a ptable_scheme" where
  "pupd i f s = s\<lparr>procs := (procs s)[i := f (procs s ! i)]\<rparr>"

abbreviation (input) pget :: "nat \<Rightarrow> (proc \<Rightarrow> 'b) \<Rightarrow> ('a ptable_scheme, 'b) kmon" where
  "pget i f \<equiv> kget (\<lambda>s. f (procs s ! i))"

section \<open>The current process\<close>

definition pinit :: "('a mach_scheme, unit) kmon" where
  "pinit = initlock PTABLE_LOCK ''ptable''"

definition myproc :: "('a mach_scheme, nat option) kmon" where
  "myproc =
     kseq pushcli
     (kbind mycpu (\<lambda>c.
      kbind (kget (\<lambda>s. cproc (cpus s ! c))) (\<lambda>p.
      kseq popcli (kreturn p))))"

text \<open>
  \<open>switchuvm\<close>: the task state of \<open>struct taskstate\<close> has 104 bytes, and \<open>STS_T32A\<close> is 9.
\<close>

definition switchuvm :: "nat option \<Rightarrow> ('a ptable_scheme, unit) kmon" where
  "switchuvm p = (case p of
     None \<Rightarrow> kpanic ''switchuvm: no process''
   | Some i \<Rightarrow> kbind (pget i id) (\<lambda>p.
       if kstack p = 0 then kpanic ''switchuvm: no kstack''
       else if pgdir p = 0 then kpanic ''switchuvm: no pgdir''
       else
         kseq pushcli
         (kbind mycpu (\<lambda>c.
          kseq (kmod (\<lambda>s. cpu_upd c (\<lambda>x. x\<lparr>
                  gdt := (gdt x)[SEG_TSS := (SEG16 9 (ts_addr s c) (104 - 1) 0)\<lparr>sd_s := 0\<rparr>],
                  ts_ss0 := of_nat (SEG_KDATA * 8),
                  ts_esp0 := kstack p + KSTACKSIZE,
                  ts_iomb := 0xFFFF\<rparr>) s))
          (kseq (kmod (\<lambda>s. s\<lparr>task_reg := of_nat (SEG_TSS * 8), cr3 := V2P (pgdir p)\<rparr>))
          popcli)))))"

definition growproc :: "u32 \<Rightarrow> ('a ptable_scheme, int) kmon" where
  "growproc n = kbind myproc (\<lambda>cur. kderef cur (\<lambda>i.
     kbind (pget i sz) (\<lambda>old.
     kbind (pget i pgdir) (\<lambda>pd.
     kbind (if 0 < sint n then allocuvm pd old (old + n)
            else if sint n < 0 then deallocuvm pd old (old + n)
            else kreturn old) (\<lambda>new.
     if n \<noteq> 0 \<and> new = 0 then kreturn (-1)
     else
       kseq (kmod (pupd i (\<lambda>p. p\<lparr>sz := new\<rparr>)))
       (kseq (switchuvm (Some i))
       (kreturn 0)))))))"

section \<open>New processes\<close>

text \<open>
  The loop around \<open>cas\<close>: the interleaving of several processors in it is the step
  relation of the theory \<open>Races\<close>; a processor that is not disturbed goes through it once.
\<close>

definition allocpid :: "('a ptable_scheme, u32) kmon" where
  "allocpid = kbind (kget nextpid) (\<lambda>local_pid.
     kseq (kmod (\<lambda>s. s\<lparr>nextpid := local_pid + 1\<rparr>))
     (kreturn (local_pid + 1)))"

text \<open>
  \<open>allocproc\<close>: the new kernel stack holds, from the top, the trap frame (76 bytes), the
  address of \<open>trapret\<close>, and a context of 20 bytes whose \<open>eip\<close> is \<open>forkret\<close>.
\<close>

definition allocproc :: "('a ptable_scheme, nat option) kmon" where
  "allocproc = kbind (kget (\<lambda>s. find (\<lambda>i. pstate (procs s ! i) = UNUSED) slots)) (\<lambda>found.
     case found of
       None \<Rightarrow> kreturn None
     | Some i \<Rightarrow>
         kseq (kmod (pupd i (\<lambda>p. p\<lparr>pstate := EMBRYO\<rparr>)))
         (kbind allocpid (\<lambda>new.
          kseq (kmod (pupd i (\<lambda>p. p\<lparr>pid := new\<rparr>)))
          (kbind kalloc (\<lambda>stack.
           kseq (kmod (pupd i (\<lambda>p. p\<lparr>kstack := stack\<rparr>)))
           (if stack = 0 then
              kseq (kmod (pupd i (\<lambda>p. p\<lparr>pstate := UNUSED\<rparr>))) (kreturn None)
            else
              (let sp = stack + KSTACKSIZE - 76 - 4; ctx = sp - 20 in
               kseq (kmod (\<lambda>s. s\<lparr>ram := store32 (ram s) sp (trapret_addr s)\<rparr>))
               (kseq (kmod (pupd i (\<lambda>p. p\<lparr>kcontext := ctx\<rparr>)))
               (kseq (kmod (\<lambda>s. s\<lparr>ram := memset (ram s) ctx 0 20\<rparr>))
               (kseq (kmod (\<lambda>s. s\<lparr>ram := store32 (ram s) (ctx + 16) (forkret_addr s)\<rparr>))
               (kreturn (Some i))))))))))))"

section \<open>Giving up the processor\<close>

text \<open>
  \<open>swtch\<close> to the scheduler and back is \<open>kswitch\<close>: what the other processes and the
  scheduler do until this process runs again is the next entry of the schedule.
\<close>

definition sched :: "('a ptable_scheme, unit) kmon" where
  "sched = kbind myproc (\<lambda>p.
     kbind (holding PTABLE_LOCK) (\<lambda>h.
     if \<not> h then kpanic ''sched ptable.lock''
     else kbind mycpu (\<lambda>c.
       kbind (kget (\<lambda>s. ncli (cpus s ! c))) (\<lambda>n.
       if n \<noteq> 1 then kpanic ''sched locks''
       else kderef p (\<lambda>i.
         kbind (pget i pstate) (\<lambda>st.
         if st = RUNNING then kpanic ''sched running''
         else kbind (kget intr_on) (\<lambda>fl.
           if fl then kpanic ''sched interruptible''
           else kbind mycpu (\<lambda>c.
             kbind (kget (\<lambda>s. intena (cpus s ! c))) (\<lambda>ie.
             kseq kswitch
             (kbind mycpu (\<lambda>c.
              kmod (cpu_upd c (\<lambda>x. x\<lparr>intena := ie\<rparr>))))))))))))) "

definition yield :: "('a ptable_scheme, unit) kmon" where
  "yield =
     kseq (acquire PTABLE_LOCK)
     (kbind myproc (\<lambda>p. kderef p (\<lambda>i.
      kseq (kmod (pupd i (\<lambda>p. p\<lparr>pstate := RUNNABLE\<rparr>)))
      (kseq sched
      (release PTABLE_LOCK)))))"

definition sleep :: "channel option \<Rightarrow> lockid option \<Rightarrow> ('a ptable_scheme, unit) kmon" where
  "sleep ch lk = kbind myproc (\<lambda>p.
     case p of None \<Rightarrow> kpanic ''sleep''
     | Some i \<Rightarrow> (case lk of None \<Rightarrow> kpanic ''sleep without lk''
       | Some l \<Rightarrow>
           kseq (kwhen (l \<noteq> PTABLE_LOCK) (kseq (acquire PTABLE_LOCK) (release l)))
           (kseq (kmod (pupd i (\<lambda>p. p\<lparr>chan := ch\<rparr>)))
           (kseq (kmod (pupd i (\<lambda>p. p\<lparr>pstate := SLEEPING\<rparr>)))
           (kseq sched
           (kseq (kmod (pupd i (\<lambda>p. p\<lparr>chan := None\<rparr>)))
           (kwhen (l \<noteq> PTABLE_LOCK) (kseq (release PTABLE_LOCK) (acquire l)))))))))"

definition wake :: "channel option \<Rightarrow> proc \<Rightarrow> proc" where
  "wake ch p = (if pstate p = SLEEPING \<and> chan p = ch then p\<lparr>pstate := RUNNABLE\<rparr> else p)"

definition wakeup1 :: "channel option \<Rightarrow> ('a ptable_scheme, unit) kmon" where
  "wakeup1 ch = kmod (\<lambda>s. s\<lparr>procs := map (wake ch) (procs s)\<rparr>)"

definition wakeup :: "channel option \<Rightarrow> ('a ptable_scheme, unit) kmon" where
  "wakeup ch =
     kseq (acquire PTABLE_LOCK)
     (kseq (wakeup1 ch)
     (release PTABLE_LOCK))"

text \<open>
  Running the process in slot \<open>i\<close> on processor \<open>c\<close>, and one round of the loop of
  \<open>scheduler\<close>.
\<close>

definition run_slot :: "nat \<Rightarrow> nat \<Rightarrow> ('a ptable_scheme, unit) kmon" where
  "run_slot c i =
     kseq (kmod (cpu_upd c (\<lambda>x. x\<lparr>cproc := Some i\<rparr>)))
     (kseq (switchuvm (Some i))
     (kseq (kmod (pupd i (\<lambda>p. p\<lparr>pstate := RUNNING\<rparr>)))
     (kseq kswitch
     (kseq switchkvm
     (kmod (cpu_upd c (\<lambda>x. x\<lparr>cproc := None\<rparr>)))))))"

definition scheduler_round :: "nat \<Rightarrow> ('a ptable_scheme, unit) kmon" where
  "scheduler_round c =
     kseq (kmod (\<lambda>s. s\<lparr>intr_on := True\<rparr>))
     (kseq (acquire PTABLE_LOCK)
     (kseq (kfor slots (\<lambda>i.
        kbind (pget i pstate) (\<lambda>st. kwhen (st = RUNNABLE) (run_slot c i))))
     (release PTABLE_LOCK)))"

definition scheduler :: "('a ptable_scheme, unit) kmon" where
  "scheduler = kbind mycpu (\<lambda>c.
     kseq (kmod (cpu_upd c (\<lambda>x. x\<lparr>cproc := None\<rparr>)))
     (kloop (kseq (scheduler_round c) (kreturn None))))"

section \<open>Waiting for children\<close>

definition reap :: "nat \<Rightarrow> ('a ptable_scheme, u32) kmon" where
  "reap i = kbind (pget i pid) (\<lambda>child.
     kbind (pget i kstack) (\<lambda>stack.
     kseq (kfree stack)
     (kseq (kmod (pupd i (\<lambda>p. p\<lparr>kstack := 0\<rparr>)))
     (kbind (pget i pgdir) (\<lambda>pd.
      kseq (freevm pd)
      (kseq (kmod (pupd i (\<lambda>p. p\<lparr>pid := 0, parent := None, pname := (pname p)[0 := 0],
               killed := False, pstate := UNUSED\<rparr>)))
      (kreturn child)))))))"

definition wait :: "('a ptable_scheme, u32) kmon" where
  "wait = kbind myproc (\<lambda>cur.
     kseq (acquire PTABLE_LOCK)
     (kloop
       (kbind (kget (\<lambda>s. find (\<lambda>i. parent (procs s ! i) = cur \<and> pstate (procs s ! i) = ZOMBIE) slots)) (\<lambda>found.
        case found of
          Some i \<Rightarrow> kbind (reap i) (\<lambda>child. kseq (release PTABLE_LOCK) (kreturn (Some child)))
        | None \<Rightarrow>
            kbind (kget (\<lambda>s. list_ex (\<lambda>i. parent (procs s ! i) = cur) slots)) (\<lambda>havekids.
            kderef cur (\<lambda>me. kbind (pget me killed) (\<lambda>dead.
            if \<not> havekids \<or> dead then kseq (release PTABLE_LOCK) (kreturn (Some (-1)))
            else kseq (sleep (Some (ProcChan me)) (Some PTABLE_LOCK)) (kreturn None))))))))"

section \<open>Signals of a process\<close>

definition kill :: "u32 \<Rightarrow> u32 \<Rightarrow> ('a ptable_scheme, int) kmon" where
  "kill target signum =
     (if 0 \<le> sint signum \<and> sint signum \<le> 31 then
        kseq (acquire PTABLE_LOCK)
        (kbind (kget (\<lambda>s. find (\<lambda>i. pid (procs s ! i) = target) slots)) (\<lambda>found.
         case found of
           Some i \<Rightarrow>
             kseq (kmod (pupd i (\<lambda>p. p\<lparr>pending := pending p OR push_bit (unat signum) 1\<rparr>)))
             (kseq (release PTABLE_LOCK) (kreturn 0))
         | None \<Rightarrow> kseq (release PTABLE_LOCK) (kreturn (-1))))
      else kreturn (-1))"

definition sigprocmask :: "u32 \<Rightarrow> ('a ptable_scheme, u32) kmon" where
  "sigprocmask sigmask = kbind myproc (\<lambda>cur. case cur of
     Some i \<Rightarrow> kbind (pget i mask) (\<lambda>oldmask.
       kseq (kmod (pupd i (\<lambda>p. p\<lparr>mask := sigmask\<rparr>))) (kreturn oldmask))
   | None \<Rightarrow> kreturn 0)"

definition signal :: "u32 \<Rightarrow> u32 \<Rightarrow> ('a ptable_scheme, u32) kmon" where
  "signal signum handler = kbind myproc (\<lambda>cur. case cur of
     Some i \<Rightarrow>
       if 0 \<le> sint signum \<and> sint signum \<le> 31 then
         kbind (pget i (\<lambda>p. handlers p ! unat signum)) (\<lambda>old.
         kseq (kmod (pupd i (\<lambda>p. p\<lparr>handlers := (handlers p)[unat signum := handler]\<rparr>))) (kreturn old))
       else kreturn (-2)
   | None \<Rightarrow> kreturn (-2))"

section \<open>Running the operations\<close>

lemma cproc_deeper [simp]: "cproc (deeper c xs ! c) = cproc (xs ! c)"
  by (simp add: nth_deeper)

lemma myproc_run: "on_cpu c s \<Longrightarrow> myproc e s = Ret (cproc (cpus s ! c)) e s"
proof -
  assume c: "on_cpu c s"
  let ?t = "s\<lparr>cpus := deeper c (cpus s), intr_on := False\<rparr>"
  have t: "on_cpu c ?t" using c by (simp add: cpu_ok_deeper)
  have "popcli e ?t = Ret () e s" for e
    using popcli_run [OF t] ncli_deeper [OF c] ncli_nonneg [OF c] by (simp add: cpu_ok_if [OF c])
  then show ?thesis
    using pushcli_run [OF c] mycpu_run [OF t] by (simp add: myproc_def)
qed

lemma wakeup_run:
  assumes "on_cpu c s" "lk_free (locks s PTABLE_LOCK)"
  shows "wakeup ch e s = Ret () e (s\<lparr>procs := map (wake ch) (procs s)\<rparr>)"
  using assms
  by (simp add: wakeup_def wakeup1_def acquire_run [where c = c] release_section [where c = c and s = s])


lemma signal_range: "0 \<le> sint signum \<and> sint signum \<le> 31 \<longleftrightarrow> unat (signum :: u32) < 32"
proof -
  define k where "k = unat signum"
  then have "sint signum = (if int k < 2147483648 then int k else int k - 4294967296)"
    using sint_u32 [of signum] by (simp only: uint_nat)
  moreover have "k < 4294967296" using unat_u32_less [of signum] by (simp add: k_def)
  ultimately show ?thesis unfolding k_def [symmetric] by auto
qed

text \<open>
  C27. \<open>kill\<close> only marks a signal as pending. A signal number outside 0 to 31, or a process
  number that no slot has, gives -1 and changes nothing; otherwise the bit is set in the
  first slot with that number and nothing else changes: in particular the process is not
  made runnable if it sleeps, and a slot that is not in use matches process number 0.
\<close>

theorem kill_marks_pending:
  assumes "on_cpu c s" "lk_free (locks s PTABLE_LOCK)"
  shows "kill target signum e s =
    (case (if unat signum < 32 then find (\<lambda>i. pid (procs s ! i) = target) slots else None) of
       None \<Rightarrow> Ret (-1) e s
     | Some i \<Rightarrow> Ret 0 e (pupd i (\<lambda>p. p\<lparr>pending := pending p OR push_bit (unat signum) 1\<rparr>) s))"
proof (cases "unat signum < 32")
  case True
  then show ?thesis
    using assms signal_range [of signum]
    by (simp add: kill_def kmon_run acquire_run [where c = c] release_section [where c = c and s = s]
        pupd_def split: option.split)
next
  case False
  then have "\<not> (0 \<le> sint signum \<and> sint signum \<le> 31)" by (subst signal_range)
  then have "kill target signum e s = Ret (-1) e s" unfolding kill_def by (simp only: if_False kreturn_run)
  with False show ?thesis by simp
qed

section \<open>Sleeping\<close>

text \<open>
  A process may call \<open>sched\<close> when it holds the table's lock and no other, and its state is
  not \<open>RUNNING\<close>.
\<close>

definition may_sched :: "nat \<Rightarrow> nat \<Rightarrow> 'a ptable_scheme \<Rightarrow> bool" where
  "may_sched c i s \<longleftrightarrow> on_cpu c s \<and> lk_held c (locks s PTABLE_LOCK) \<and> ncli (cpus s ! c) = 1
     \<and> cproc (cpus s ! c) = Some i \<and> pstate (procs s ! i) \<noteq> RUNNING"

lemma nested_off: "on_cpu c s \<Longrightarrow> 0 < ncli (cpus s ! c) \<Longrightarrow> \<not> intr_on s"
  by (auto simp: cpu_ok_def cpu_if_def)

lemma sched_run:
  assumes "may_sched c i s"
  shows "sched [] s = Asleep s"
    and "sched (f # fs) s =
      kbind mycpu (\<lambda>d. kmod (cpu_upd d (\<lambda>x. x\<lparr>intena := intena (cpus s ! c)\<rparr>))) fs (f s)"
proof -
  have c: "on_cpu c s" "lk_held c (locks s PTABLE_LOCK)" "ncli (cpus s ! c) = 1"
    "cproc (cpus s ! c) = Some i" "pstate (procs s ! i) \<noteq> RUNNING"
    using assms by (auto simp: may_sched_def)
  have off: "\<not> intr_on s" using nested_off [OF c(1)] c(3) by simp
  show "sched [] s = Asleep s"
    using c off by (simp add: sched_def kmon_run myproc_run [OF c(1)] holding_run [OF c(1) off] mycpu_run [OF c(1) off])
  show "sched (f # fs) s =
      kbind mycpu (\<lambda>d. kmod (cpu_upd d (\<lambda>x. x\<lparr>intena := intena (cpus s ! c)\<rparr>))) fs (f s)"
    using c off by (simp add: sched_def kmon_run myproc_run [OF c(1)] holding_run [OF c(1) off] mycpu_run [OF c(1) off])
qed

text \<open>The state in which a process that sleeps on \<open>ch\<close>, giving up lock \<open>l\<close>, leaves the processor.\<close>

definition asleep_state :: "nat \<Rightarrow> nat \<Rightarrow> channel \<Rightarrow> lockid \<Rightarrow> 'a ptable_scheme \<Rightarrow> 'a ptable_scheme" where
  "asleep_state c i ch l s = s\<lparr>
     locks := (locks s)(PTABLE_LOCK := lk_take c (locks s PTABLE_LOCK), l := lk_drop (locks s l)),
     procs := (procs s)[i := (procs s ! i)\<lparr>chan := Some ch, pstate := SLEEPING\<rparr>]\<rparr>"

lemma swap_locks:
  assumes c: "on_cpu c s" "0 < ncli (cpus s ! c)" and l: "lk_held c (locks s l)"
    and p: "lk_free (locks s k)" "l \<noteq> k"
  shows "kseq (acquire k) (release l) e s = Ret () e
    (s\<lparr>locks := (locks s)(k := lk_take c (locks s k), l := lk_drop (locks s l))\<rparr>)"
proof -
  let ?t = "s\<lparr>cpus := deeper c (cpus s), intr_on := False, locks := (locks s)(k := lk_take c (locks s k))\<rparr>"
  have off: "\<not> intr_on s" using nested_off [OF c] .
  have "release l e ?t = Ret () e
     (?t\<lparr>cpus := shallower c (cpus ?t), intr_on := cpu_if c (shallower c (cpus ?t)),
       locks := (locks ?t)(l := lk_drop (locks ?t l))\<rparr>)"
    by (rule release_run) (use c l p ncli_deeper [OF c(1)] in \<open>simp_all add: cpu_ok_deeper\<close>)
  then show ?thesis
    using p off by (simp add: acquire_run [OF c(1) p(1)] cpu_ok_if [OF c(1)])
qed

lemma sleep_run:
  assumes c: "on_cpu c s" "ncli (cpus s ! c) = 1" "cproc (cpus s ! c) = Some i" "i < length (procs s)"
    and l: "lk_held c (locks s l)" "l \<noteq> PTABLE_LOCK" and p: "lk_free (locks s PTABLE_LOCK)"
  shows "sleep (Some ch) (Some l) e s =
    kseq sched
      (kseq (kmod (pupd i (\<lambda>p. p\<lparr>chan := None\<rparr>)))
      (kseq (release PTABLE_LOCK) (acquire l))) e (asleep_state c i ch l s)"
    and "may_sched c i (asleep_state c i ch l s)"
proof -
  have swap: "kseq (acquire PTABLE_LOCK) (release l) e s = Ret () e
    (s\<lparr>locks := (locks s)(PTABLE_LOCK := lk_take c (locks s PTABLE_LOCK), l := lk_drop (locks s l))\<rparr>)"
    by (rule swap_locks) (use assms in auto)
  show "sleep (Some ch) (Some l) e s =
    kseq sched
      (kseq (kmod (pupd i (\<lambda>p. p\<lparr>chan := None\<rparr>)))
      (kseq (release PTABLE_LOCK) (acquire l))) e (asleep_state c i ch l s)"
    using c(3,4) l(2) swap
    by (simp add: sleep_def myproc_run [OF c(1)] kwhen_def pupd_def asleep_state_def del: kseq_run)
       (simp add: kmon_run pupd_def)
  show "may_sched c i (asleep_state c i ch l s)"
    using c l by (simp add: may_sched_def asleep_state_def)
qed


section \<open>The scheduler\<close>

lemma switchuvm_run:
  assumes c: "on_cpu c s" and p: "kstack (procs s ! i) \<noteq> 0" "pgdir (procs s ! i) \<noteq> 0"
  shows "switchuvm (Some i) e s = Ret () e (s\<lparr>
     cpus := (cpus s)[c := (cpus s ! c)\<lparr>
       gdt := (gdt (cpus s ! c))[5 := (SEG16 9 (ts_addr s c) 103 0)\<lparr>sd_s := 0\<rparr>],
       ts_ss0 := 16, ts_esp0 := kstack (procs s ! i) + 4096, ts_iomb := 0xFFFF\<rparr>],
     task_reg := 40, cr3 := V2P (pgdir (procs s ! i))\<rparr>)"
proof -
  let ?g = "\<lambda>x. x\<lparr>gdt := (gdt x)[5 := (SEG16 9 (ts_addr s c) 103 0)\<lparr>sd_s := 0\<rparr>],
       ts_ss0 := 16, ts_esp0 := kstack (procs s ! i) + 4096, ts_iomb := 0xFFFF\<rparr> :: cpu"
  let ?t = "s\<lparr>cpus := deeper c (cpus s), intr_on := False\<rparr>"
  let ?u = "s\<lparr>intr_on := False, cpus := (deeper c (cpus s))[c := ?g (deeper c (cpus s) ! c)],
    task_reg := 40, cr3 := V2P (pgdir (procs s ! i))\<rparr>"
  have c': "c < length (cpus s)" using c cpu_ok_less by blast
  have t: "on_cpu c ?t" using c by (simp add: cpu_ok_deeper)
  have u: "on_cpu c ?u"
    using t c' unfolding cpu_ok_def cpu_if_def by (auto simp: nth_list_update find_Some_iff)
  have n: "0 < ncli (cpus ?u ! c)" using c' ncli_deeper [OF c] ncli_nonneg [OF c] by simp
  have sh: "shallower c (cpus ?u) = (cpus s)[c := ?g (cpus s ! c)]"
    using c' by (simp add: shallower_def deeper_def)
  have "cpu_if c ((cpus s)[c := ?g (cpus s ! c)]) = intr_on s"
    using c c' by (simp add: cpu_if_def cpu_ok_def)
  then have pop: "popcli e ?u = Ret () e (s\<lparr>cpus := (cpus s)[c := ?g (cpus s ! c)],
     task_reg := 40, cr3 := V2P (pgdir (procs s ! i))\<rparr>)"
    using popcli_run [OF u n] unfolding sh by simp
  show ?thesis
    using pop p pushcli_run [OF c] mycpu_run [OF t]
    by (simp add: switchuvm_def kmon_run cpu_upd_def)
qed


section \<open>A small process table\<close>

text \<open>
  A state with two processes on one processor, on which the properties are run: the
  process in slot 0 runs; the one in slot 1, with number 5, is runnable.
\<close>

definition zero_tf :: trapframe where
  "zero_tf = \<lparr>tf_edi = 0, tf_esi = 0, tf_ebp = 0, tf_oesp = 0, tf_ebx = 0, tf_edx = 0, tf_ecx = 0,
     tf_eax = 0, tf_gs = 0, tf_padding1 = 0, tf_fs = 0, tf_padding2 = 0, tf_es = 0, tf_padding3 = 0,
     tf_ds = 0, tf_padding4 = 0, tf_trapno = 0, tf_err = 0, tf_eip = 0, tf_cs = 0, tf_padding5 = 0,
     tf_eflags = 0, tf_esp = 0, tf_ss = 0, tf_padding6 = 0\<rparr>"

definition unused_proc :: proc where
  "unused_proc = \<lparr>sz = 0, pgdir = 0, kstack = 0, pstate = UNUSED, pid = 0, parent = None, tf = zero_tf,
     kcontext = 0, chan = None, killed = False, ofile = replicate 16 None, cwd = None,
     pname = replicate 16 0, pending = 0, mask = 0, mask_backup = 0, handlers = replicate 32 0,
     trap_backup = 0\<rparr>"

definition two_procs :: ptable where
  "two_procs = vm.extend (kmem.extend two_pages \<lparr>cr3 = 0x402000, task_reg = 0, kpgdir = 0x80402000,
       kernel_data = 0x80108000, ts_addr = (\<lambda>_. 0)\<rparr>)
     \<lparr>procs = [unused_proc\<lparr>pstate := RUNNING, pid := 2, kstack := 0x80410000, pgdir := 0x80402000, sz := 4096\<rparr>,
        unused_proc\<lparr>pstate := RUNNABLE, pid := 5, kstack := 0x80411000, pgdir := 0x80412000, parent := Some 0\<rparr>]
        @ replicate 62 unused_proc,
      initproc = Some 0, nextpid = 5, trapret_addr = 0x80105000, forkret_addr = 0x80105100,
      forkret_first = False, ticks = 0\<rparr>"

lemmas two_procs_simps = two_procs_def two_pages_def one_mach_def one_cpu_def mach.defs kmem.defs vm.defs

lemma two_procs_cpu: "on_cpu 0 two_procs" "locks two_procs l = \<lparr>lk_locked = False, lk_name = [], lk_cpu = None\<rparr>"
  "cpus two_procs = [one_cpu]"
  by (simp_all add: two_procs_simps cpu_ok_def cpu_if_def)

lemma two_procs_slots:
  "procs two_procs ! 0 = unused_proc\<lparr>pstate := RUNNING, pid := 2, kstack := 0x80410000, pgdir := 0x80402000, sz := 4096\<rparr>"
  "procs two_procs ! Suc 0 = unused_proc\<lparr>pstate := RUNNABLE, pid := 5, kstack := 0x80411000, pgdir := 0x80412000, parent := Some 0\<rparr>"
  "1 < j \<Longrightarrow> j < 64 \<Longrightarrow> procs two_procs ! j = unused_proc"
  "length (procs two_procs) = 64"
  by (simp_all add: two_procs_simps nth_Cons')


theorem kill_marks_pending_witness:
  "kill 5 9 [] two_procs = Ret 0 [] (pupd 1 (\<lambda>p. p\<lparr>pending := pending p OR push_bit 9 1\<rparr>) two_procs)"
proof -
  have "find (\<lambda>i. pid (procs two_procs ! i) = 5) slots = Some 1"
    by (simp add: slots_def two_procs_slots upt_rec [of 0] upt_rec [of "Suc 0"])
  then show ?thesis
    using kill_marks_pending [OF two_procs_cpu(1), of 5 9 "[]"] by (simp add: two_procs_cpu lk_free_def)
qed


text \<open>The running process holds \<open>tickslock\<close>, as in \<open>sys_sleep\<close>.\<close>

definition in_sys_sleep :: ptable where
  "in_sys_sleep = two_procs\<lparr>cpus := [one_cpu\<lparr>ncli := 1\<rparr>], intr_on := False,
     locks := (locks two_procs)(TICKS_LOCK := lk_take 0 (locks two_procs TICKS_LOCK))\<rparr>"


end
