(* ===== verification/Sleeplock.thy ===== *)
theory Sleeplock
  imports Proc
begin

text \<open>
  Sleep locks (\<^verbatim>\<open>sleeplock.h\<close>, \<^verbatim>\<open>sleeplock.c\<close>), which are held across sleeps. Each belongs to a
  buffer or to an inode.
\<close>

section \<open>State and operations\<close>

datatype sleepid = BufSleep nat | InodeSleep nat

text \<open>The spin lock inside of a sleep lock, and the channel that is its address.\<close>

fun sl_lk :: "sleepid \<Rightarrow> lockid" where
  "sl_lk (BufSleep i) = BUF_LOCK i"
| "sl_lk (InodeSleep i) = INODE_LOCK i"

fun sl_chan :: "sleepid \<Rightarrow> channel" where
  "sl_chan (BufSleep i) = BufLockChan i"
| "sl_chan (InodeSleep i) = InodeLockChan i"

record sleeplock =
  sl_locked :: bool
  sl_name :: string
  sl_pid :: u32

record sltable = ptable +
  slocks :: "sleepid \<Rightarrow> sleeplock"

definition sl_upd :: "sleepid \<Rightarrow> (sleeplock \<Rightarrow> sleeplock) \<Rightarrow> 'a sltable_scheme \<Rightarrow> 'a sltable_scheme" where
  "sl_upd l f s = s\<lparr>slocks := (slocks s)(l := f (slocks s l))\<rparr>"

definition initsleeplock :: "sleepid \<Rightarrow> string \<Rightarrow> ('a sltable_scheme, unit) kmon" where
  "initsleeplock l name =
     kseq (initlock (sl_lk l) ''sleep lock'')
     (kmod (sl_upd l (\<lambda>_. \<lparr>sl_locked = False, sl_name = name, sl_pid = 0\<rparr>)))"

definition acquiresleep :: "sleepid \<Rightarrow> ('a sltable_scheme, unit) kmon" where
  "acquiresleep l =
     kseq (acquire (sl_lk l))
     (kseq (kloop (kbind (kget (\<lambda>s. sl_locked (slocks s l))) (\<lambda>b.
        if b then kseq (sleep (Some (sl_chan l)) (Some (sl_lk l))) (kreturn None)
        else kreturn (Some ()))))
     (kseq (kmod (sl_upd l (\<lambda>x. x\<lparr>sl_locked := True\<rparr>)))
     (kbind myproc (\<lambda>cur. kderef cur (\<lambda>i.
      kbind (pget i pid) (\<lambda>n.
      kseq (kmod (sl_upd l (\<lambda>x. x\<lparr>sl_pid := n\<rparr>)))
      (release (sl_lk l))))))))"

definition releasesleep :: "sleepid \<Rightarrow> ('a sltable_scheme, unit) kmon" where
  "releasesleep l =
     kseq (acquire (sl_lk l))
     (kseq (kmod (sl_upd l (\<lambda>x. x\<lparr>sl_locked := False\<rparr>)))
     (kseq (kmod (sl_upd l (\<lambda>x. x\<lparr>sl_pid := 0\<rparr>)))
     (kseq (wakeup (Some (sl_chan l)))
     (release (sl_lk l)))))"

definition holdingsleep :: "sleepid \<Rightarrow> ('a sltable_scheme, bool) kmon" where
  "holdingsleep l =
     kseq (acquire (sl_lk l))
     (kbind (kget (\<lambda>s. sl_locked (slocks s l))) (\<lambda>r.
      kseq (release (sl_lk l))
      (kreturn r)))"

section \<open>Undisturbed runs\<close>

text \<open>
  \<open>at_rest c i s\<close>: processor \<open>c\<close> runs process \<open>i\<close> and no spin lock is held.
\<close>

definition at_rest :: "nat \<Rightarrow> nat \<Rightarrow> 'a mach_scheme \<Rightarrow> bool" where
  "at_rest c i s \<longleftrightarrow> on_cpu c s \<and> (\<forall>l. lk_free (locks s l)) \<and> cproc (cpus s ! c) = Some i"

lemma at_restD:
  assumes "at_rest c i s"
  shows "on_cpu c s" "lk_free (locks s l)" "cproc (cpus s ! c) = Some i"
  using assms by (auto simp: at_rest_def)

lemma sl_lk_neq [simp]: "sl_lk l \<noteq> PTABLE_LOCK" "PTABLE_LOCK \<noteq> sl_lk l"
  by (cases l; simp)+

lemma acquiresleep_run:
  assumes a: "at_rest c i s" and f: "\<not> sl_locked (slocks s l)"
  shows "acquiresleep l e s = Ret () e
    (s\<lparr>slocks := (slocks s)(l := (slocks s l)\<lparr>sl_locked := True, sl_pid := pid (procs s ! i)\<rparr>)\<rparr>)"
proof -
  note d = at_restD [OF a]
  let ?t = "\<lambda>m. s\<lparr>cpus := deeper c (cpus s), intr_on := False,
       locks := (locks s)(sl_lk l := lk_take c (locks s (sl_lk l))), slocks := m\<rparr>"
  have p: "myproc e (?t m) = Ret (Some i) e (?t m)" for m
    using myproc_run [of c "?t m" e] d by (simp add: cpu_ok_deeper)
  have "kloop (kbind (kget (\<lambda>s. sl_locked (slocks s l))) (\<lambda>b.
        if b then kseq (sleep (Some (sl_chan l)) (Some (sl_lk l))) (kreturn None)
        else kreturn (Some ()))) e (?t (slocks s)) = Ret () e (?t (slocks s))"
    by (rule kloop_done) (use f in \<open>simp add: kmon_run\<close>)
  then show ?thesis
    using p d by (simp add: acquiresleep_def acquire_run [where c = c] sl_upd_def
        release_section [where c = c and s = s])
qed

lemma holdingsleep_run:
  assumes "at_rest c i s"
  shows "holdingsleep l e s = Ret (sl_locked (slocks s l)) e s"
  using at_restD [OF assms]
  by (simp add: holdingsleep_def acquire_run [where c = c] release_section [where c = c and s = s])

lemma releasesleep_run:
  assumes a: "at_rest c i s"
  shows "releasesleep l e s = Ret () e
    (s\<lparr>procs := map (wake (Some (sl_chan l))) (procs s),
       slocks := (slocks s)(l := (slocks s l)\<lparr>sl_locked := False, sl_pid := 0\<rparr>)\<rparr>)"
proof -
  note d = at_restD [OF a]
  let ?t = "s\<lparr>cpus := deeper c (cpus s), intr_on := False,
       locks := (locks s)(sl_lk l := lk_take c (locks s (sl_lk l))),
       slocks := (slocks s)(l := (slocks s l)\<lparr>sl_locked := False, sl_pid := 0\<rparr>)\<rparr>"
  have w: "wakeup (Some (sl_chan l)) e ?t = Ret () e
      (?t\<lparr>procs := map (wake (Some (sl_chan l))) (procs ?t)\<rparr>)"
    by (rule wakeup_run [where c = c]) (use d in \<open>simp_all add: cpu_ok_deeper\<close>)
  then show ?thesis
    using d by (simp add: releasesleep_def acquire_run [where c = c] sl_upd_def
        release_section [where c = c and s = s])
qed

text \<open>Going to sleep on a channel, with the lock that guards the condition held.\<close>

lemma sleep_in_section:
  assumes a: "at_rest c i s" and i: "ncli (cpus s ! c) = 0" "i < length (procs s)" and l: "l \<noteq> PTABLE_LOCK"
  shows "sleep (Some ch) (Some l) [] (s\<lparr>cpus := deeper c (cpus s), intr_on := False,
      locks := (locks s)(l := lk_take c (locks s l))\<rparr>)
    = Asleep (asleep_state c i ch l (s\<lparr>cpus := deeper c (cpus s), intr_on := False,
      locks := (locks s)(l := lk_take c (locks s l))\<rparr>))"
proof -
  note d = at_restD [OF a]
  let ?t = "s\<lparr>cpus := deeper c (cpus s), intr_on := False, locks := (locks s)(l := lk_take c (locks s l))\<rparr>"
  have "on_cpu c ?t" "ncli (cpus ?t ! c) = 1" "cproc (cpus ?t ! c) = Some i" "i < length (procs ?t)"
    "lk_held c (locks ?t l)" "lk_free (locks ?t PTABLE_LOCK)"
    using d i l ncli_deeper [OF d(1)] by (simp_all add: cpu_ok_deeper)
  note S = sleep_run [OF this(1-5) l this(6)]
  show ?thesis using S(1) [of ch "[]"] sched_run(1) [OF S(2) [of ch]] by simp
qed

end
