(* ===== verification/Bytes.thy ===== *)
theory Bytes
  imports Pages
begin

text \<open>
  Byte arrays that the kernel casts to structures (disk blocks, directory entries, saved
  trap frames): reading and replacing a part of an array, and words of 16 and 32 bits at an
  offset, in the byte order of the machine.
\<close>

section \<open>Parts of an array\<close>

definition part :: "nat \<Rightarrow> nat \<Rightarrow> 'a list \<Rightarrow> 'a list" where
  "part off n xs = take n (drop off xs)"

definition patch :: "nat \<Rightarrow> 'a list \<Rightarrow> 'a list \<Rightarrow> 'a list" where
  "patch off ys xs = take off xs @ ys @ drop (off + length ys) xs"

lemma length_part [simp]: "length (part off n xs) = min (length xs - off) n"
  by (simp add: part_def)

lemma length_patch [simp]: "off + length ys \<le> length xs \<Longrightarrow> length (patch off ys xs) = length xs"
  by (simp add: patch_def)

lemma nth_part: "k < n \<Longrightarrow> off + k < length xs \<Longrightarrow> part off n xs ! k = xs ! (off + k)"
  by (simp add: part_def)

lemma nth_patch:
  "off + length ys \<le> length xs \<Longrightarrow> k < length xs \<Longrightarrow>
   patch off ys xs ! k = (if off \<le> k \<and> k < off + length ys then ys ! (k - off) else xs ! k)"
  by (auto simp: patch_def nth_append min_def)

lemma part_patch_same [simp]:
  "off + length ys \<le> length xs \<Longrightarrow> n = length ys \<Longrightarrow> part off n (patch off ys xs) = ys"
  by (rule nth_equalityI) (auto simp: nth_part nth_patch)

lemma part_patch_other:
  "off' + length ys \<le> length xs \<Longrightarrow> off + n \<le> off' \<or> off' + length ys \<le> off \<Longrightarrow>
   part off n (patch off' ys xs) = part off n xs"
  by (rule nth_equalityI) (auto simp: nth_part nth_patch)

lemma patch_part [simp]: "patch off (part off n xs) xs = xs"
  by (rule nth_equalityI) (auto simp: patch_def part_def nth_append min_def)

lemma patch_patch_same:
  "off + length ys \<le> length xs \<Longrightarrow> length zs = length ys \<Longrightarrow>
   patch off zs (patch off ys xs) = patch off zs xs"
  by (rule nth_equalityI) (auto simp: nth_patch)

lemma part_all [simp]: "length xs \<le> n \<Longrightarrow> part 0 n xs = xs"
  by (simp add: part_def)

section \<open>Words in an array\<close>

definition get32 :: "u8 list \<Rightarrow> nat \<Rightarrow> u32" where
  "get32 bs off = word_of_bytes (part off 4 bs)"

definition put32 :: "nat \<Rightarrow> u32 \<Rightarrow> u8 list \<Rightarrow> u8 list" where
  "put32 off w bs = patch off (bytes_of_word w) bs"

definition half_at :: "u8 list \<Rightarrow> u16" where
  "half_at bs = ucast (bs ! 0) OR push_bit 8 (ucast (bs ! 1))"

definition get16 :: "u8 list \<Rightarrow> nat \<Rightarrow> u16" where
  "get16 bs off = ucast (bs ! off) OR push_bit 8 (ucast (bs ! (off + 1)))"

definition bytes_of_half :: "u16 \<Rightarrow> u8 list" where
  "bytes_of_half w = [ucast w, ucast (drop_bit 8 w)]"

definition put16 :: "nat \<Rightarrow> u16 \<Rightarrow> u8 list \<Rightarrow> u8 list" where
  "put16 off w bs = patch off (bytes_of_half w) bs"

lemma length_bytes_of_half [simp]: "length (bytes_of_half w) = 2"
  by (simp add: bytes_of_half_def)

lemma half_of_bytes: "ucast (ucast w :: u8) OR push_bit 8 (ucast (ucast (drop_bit 8 w) :: u8)) = (w :: u16)"
  by (rule bit_word_eqI)
     (auto simp: bit_or_iff bit_ucast_iff bit_push_bit_iff bit_drop_bit_eq not_less)

lemma get16_alt: "off + 2 \<le> length bs \<Longrightarrow> get16 bs off = half_at (part off 2 bs)"
  by (simp add: get16_def half_at_def nth_part)

lemma get16_put16 [simp]: "off + 2 \<le> length bs \<Longrightarrow> get16 (put16 off w bs) off = w"
  by (subst get16_alt) (simp_all add: put16_def half_at_def bytes_of_half_def half_of_bytes)

lemma get32_put32 [simp]: "off + 4 \<le> length bs \<Longrightarrow> get32 (put32 off w bs) off = w"
  by (simp add: get32_def put32_def)

lemma length_put [simp]:
  "off + 4 \<le> length bs \<Longrightarrow> length (put32 off w bs) = length bs"
  "off + 2 \<le> length bs \<Longrightarrow> length (put16 off h bs) = length bs"
  by (simp_all add: put32_def put16_def)

lemma get_put_other:
  "off' + 4 \<le> length bs \<Longrightarrow> off + 4 \<le> off' \<or> off' + 4 \<le> off \<Longrightarrow> get32 (put32 off' w bs) off = get32 bs off"
  "off' + 2 \<le> length bs \<Longrightarrow> off + 4 \<le> off' \<or> off' + 2 \<le> off \<Longrightarrow> get32 (put16 off' h bs) off = get32 bs off"
  by (simp_all add: get32_def put32_def put16_def part_patch_other)

lemma get16_put_other:
  assumes "off + 2 \<le> length bs"
  shows "off' + 4 \<le> length bs \<Longrightarrow> off + 2 \<le> off' \<or> off' + 4 \<le> off \<Longrightarrow> get16 (put32 off' w bs) off = get16 bs off"
    and "off' + 2 \<le> length bs \<Longrightarrow> off + 2 \<le> off' \<or> off' + 2 \<le> off \<Longrightarrow> get16 (put16 off' h bs) off = get16 bs off"
  using assms by (simp_all add: get16_alt put32_def put16_def part_patch_other)

text \<open>Consecutive words, as in an array of them.\<close>

definition put_words :: "nat \<Rightarrow> u32 list \<Rightarrow> u8 list \<Rightarrow> u8 list" where
  "put_words off ws bs = patch off (concat (map bytes_of_word ws)) bs"

definition get_words :: "u8 list \<Rightarrow> nat \<Rightarrow> nat \<Rightarrow> u32 list" where
  "get_words bs off n = map (\<lambda>i. get32 bs (off + 4 * i)) [0..<n]"

lemma length_concat_words [simp]: "length (concat (map bytes_of_word ws)) = 4 * length ws"
  by (induction ws) simp_all

lemma part_concat_words:
  "i < length ws \<Longrightarrow> part (4 * i) 4 (concat (map bytes_of_word ws)) = bytes_of_word (ws ! i)"
proof (induction ws arbitrary: i)
  case (Cons w ws)
  then show ?case by (cases i) (simp_all add: part_def)
qed simp

lemma part_patch_inside:
  "off + length ys \<le> length xs \<Longrightarrow> j + n \<le> length ys \<Longrightarrow>
   part (off + j) n (patch off ys xs) = part j n ys"
  by (rule nth_equalityI) (auto simp: nth_part nth_patch)

lemma get_words_put_words [simp]:
  assumes "off + 4 * length ws \<le> length bs" "n = length ws"
  shows "get_words (put_words off ws bs) off n = ws"
  by (rule nth_equalityI) (use assms in \<open>auto simp: get_words_def get32_def put_words_def part_patch_inside part_concat_words\<close>)

lemma length_get_words [simp]: "length (get_words bs off n) = n"
  by (simp add: get_words_def)

lemma length_put_words [simp]:
  "off + 4 * length ws \<le> length bs \<Longrightarrow> length (put_words off ws bs) = length bs"
  by (simp add: put_words_def)

end
