(* ===== verification/Bio.thy ===== *)
theory Bio
  imports Sleeplock Bytes
begin

text \<open>
  The disk in memory (\<^verbatim>\<open>memide.c\<close>) and the buffer cache on top of it (\<^verbatim>\<open>buf.h\<close>, \<^verbatim>\<open>bio.c\<close>):
  30 buffers on a doubly linked list in the order of their last use.
\<close>

section \<open>State\<close>

abbreviation (input) BSIZE :: nat where "BSIZE \<equiv> 512"
abbreviation (input) NBUF :: nat where "NBUF \<equiv> 30"
abbreviation (input) B_VALID :: u32 where "B_VALID \<equiv> 0x2"
abbreviation (input) B_DIRTY :: u32 where "B_DIRTY \<equiv> 0x4"

text \<open>
  \<open>struct buf\<close>. Pointers to buffers are indices; its sleep lock is \<open>BufSleep i\<close>.
\<close>

record buf =
  bflags :: u32
  bdev :: u32
  bblockno :: u32
  refcnt :: u32
  prev :: nat
  next_buf :: nat
  bdata :: "u8 list"

text \<open>
  \<open>bufs\<close> holds the 30 buffers of \<open>bcache.buf\<close> and, as number 30, \<open>bcache.head\<close>.
  \<open>memdisk\<close> are the bytes of the disk image. \<open>disk_writes\<close> is an observation: the blocks
  that were written to the disk, in order.
\<close>

record bcache = sltable +
  bufs :: "buf list"
  memdisk :: "u8 list"
  disksize :: u32
  disk_writes :: "(nat \<times> u8 list) list"

abbreviation (input) head :: nat where "head \<equiv> NBUF"

definition bupd :: "nat \<Rightarrow> (buf \<Rightarrow> buf) \<Rightarrow> 'a bcache_scheme \<Rightarrow> 'a bcache_scheme" where
  "bupd i f s = s\<lparr>bufs := (bufs s)[i := f (bufs s ! i)]\<rparr>"

abbreviation (input) bfield :: "nat \<Rightarrow> (buf \<Rightarrow> 'b) \<Rightarrow> ('a bcache_scheme, 'b) kmon" where
  "bfield i f \<equiv> kget (\<lambda>s. f (bufs s ! i))"

section \<open>The disk\<close>

text \<open>\<open>ideinit\<close> of \<^verbatim>\<open>memide.c\<close>: \<open>img\<close> is the file system image linked into the kernel.\<close>

definition ideinit :: "u8 list \<Rightarrow> ('a bcache_scheme, unit) kmon" where
  "ideinit img = kmod (\<lambda>s. s\<lparr>memdisk := img, disksize := of_nat (length img div BSIZE)\<rparr>)"

definition iderw :: "nat \<Rightarrow> ('a bcache_scheme, unit) kmon" where
  "iderw b = kbind (holdingsleep (BufSleep b)) (\<lambda>h.
     if \<not> h then kpanic ''iderw: buf not locked''
     else kbind (bfield b id) (\<lambda>x.
       if bflags x AND (B_VALID OR B_DIRTY) = B_VALID then kpanic ''iderw: nothing to do''
       else if bdev x \<noteq> 1 then kpanic ''iderw: request not for disk 1''
       else kbind (kget disksize) (\<lambda>n.
         if bblockno x \<ge> n then kpanic ''iderw: block out of range''
         else
           (let p = unat (bblockno x) * BSIZE in
            kseq
              (if bflags x AND B_DIRTY \<noteq> 0 then
                 kseq (kmod (bupd b (\<lambda>x. x\<lparr>bflags := bflags x AND NOT B_DIRTY\<rparr>)))
                 (kmod (\<lambda>s. s\<lparr>memdisk := patch p (bdata x) (memdisk s),
                              disk_writes := disk_writes s @ [(unat (bblockno x), bdata x)]\<rparr>))
               else
                 kmod (\<lambda>s. bupd b (\<lambda>x. x\<lparr>bdata := part p BSIZE (memdisk s)\<rparr>) s))
            (kmod (bupd b (\<lambda>x. x\<lparr>bflags := bflags x OR B_VALID\<rparr>)))))))"

section \<open>The buffer cache\<close>

text \<open>\<open>bcache.head.next\<close> is the most recently used buffer. Linking \<open>b\<close> in after the head:\<close>

definition link_first :: "nat \<Rightarrow> ('a bcache_scheme, unit) kmon" where
  "link_first b =
     kbind (bfield head next_buf) (\<lambda>first.
     kseq (kmod (bupd b (\<lambda>x. x\<lparr>next_buf := first\<rparr>)))
     (kseq (kmod (bupd b (\<lambda>x. x\<lparr>prev := head\<rparr>)))
     (kseq (kmod (bupd first (\<lambda>x. x\<lparr>prev := b\<rparr>)))
     (kmod (bupd head (\<lambda>x. x\<lparr>next_buf := b\<rparr>))))))"

definition bslots :: "nat list" where
  "bslots = [0..<NBUF]"

definition binit :: "('a bcache_scheme, unit) kmon" where
  "binit =
     kseq (initlock BCACHE_LOCK ''bcache'')
     (kseq (kmod (bupd head (\<lambda>x. x\<lparr>prev := head\<rparr>)))
     (kseq (kmod (bupd head (\<lambda>x. x\<lparr>next_buf := head\<rparr>)))
     (kfor bslots (\<lambda>b.
        kseq (link_first b)
        (initsleeplock (BufSleep b) ''buffer'')))))"

text \<open>
  The two loops of \<open>bget\<close>: from \<open>b\<close> along \<open>step\<close> to the first buffer that satisfies
  \<open>ok\<close>, or to the head. A list of 30 buffers is walked in at most 31 rounds.
\<close>

definition walk :: "(buf \<Rightarrow> nat) \<Rightarrow> (buf \<Rightarrow> bool) \<Rightarrow> nat \<Rightarrow> ('a bcache_scheme, nat option) kmon" where
  "walk step ok = kiter (NBUF + 1) (\<lambda>b.
     if b = head then kreturn (Inr None)
     else kbind (bfield b id) (\<lambda>x.
       if ok x then kreturn (Inr (Some b)) else kreturn (Inl (step x))))"

definition bget :: "u32 \<Rightarrow> u32 \<Rightarrow> ('a bcache_scheme, nat) kmon" where
  "bget dev blockno =
     kseq (acquire BCACHE_LOCK)
     (kbind (kbind (bfield head next_buf) (walk next_buf (\<lambda>x. bdev x = dev \<and> bblockno x = blockno))) (\<lambda>hit.
      case hit of
        Some b \<Rightarrow>
          kseq (kmod (bupd b (\<lambda>x. x\<lparr>refcnt := refcnt x + 1\<rparr>)))
          (kseq (release BCACHE_LOCK)
          (kseq (acquiresleep (BufSleep b))
          (kreturn b)))
      | None \<Rightarrow>
          kbind (kbind (bfield head prev) (walk prev (\<lambda>x. refcnt x = 0 \<and> bflags x AND B_DIRTY = 0))) (\<lambda>unused.
          case unused of
            Some b \<Rightarrow>
              kseq (kmod (bupd b (\<lambda>x. x\<lparr>bdev := dev, bblockno := blockno, bflags := 0, refcnt := 1\<rparr>)))
              (kseq (release BCACHE_LOCK)
              (kseq (acquiresleep (BufSleep b))
              (kreturn b)))
          | None \<Rightarrow> kpanic ''bget: no buffers'')))"

definition bread :: "u32 \<Rightarrow> u32 \<Rightarrow> ('a bcache_scheme, nat) kmon" where
  "bread dev blockno = kbind (bget dev blockno) (\<lambda>b.
     kbind (bfield b bflags) (\<lambda>fl.
     kseq (kwhen (fl AND B_VALID = 0) (iderw b))
     (kreturn b)))"

definition bwrite :: "nat \<Rightarrow> ('a bcache_scheme, unit) kmon" where
  "bwrite b = kbind (holdingsleep (BufSleep b)) (\<lambda>h.
     if \<not> h then kpanic ''bwrite''
     else
       kseq (kmod (bupd b (\<lambda>x. x\<lparr>bflags := bflags x OR B_DIRTY\<rparr>)))
       (iderw b))"

text \<open>Taking \<open>b\<close> out of the list.\<close>

definition unlink_buf :: "nat \<Rightarrow> ('a bcache_scheme, unit) kmon" where
  "unlink_buf b =
     kbind (bfield b next_buf) (\<lambda>nx.
     kbind (bfield b prev) (\<lambda>pv.
     kseq (kmod (bupd nx (\<lambda>x. x\<lparr>prev := pv\<rparr>)))
     (kbind (bfield b next_buf) (\<lambda>nx.
      kbind (bfield b prev) (\<lambda>pv.
      kmod (bupd pv (\<lambda>x. x\<lparr>next_buf := nx\<rparr>)))))))"

definition brelse :: "nat \<Rightarrow> ('a bcache_scheme, unit) kmon" where
  "brelse b = kbind (holdingsleep (BufSleep b)) (\<lambda>h.
     if \<not> h then kpanic ''brelse''
     else
       kseq (releasesleep (BufSleep b))
       (kseq (acquire BCACHE_LOCK)
       (kseq (kmod (bupd b (\<lambda>x. x\<lparr>refcnt := refcnt x - 1\<rparr>)))
       (kbind (bfield b refcnt) (\<lambda>r.
        kseq (kwhen (r = 0) (kseq (unlink_buf b) (link_first b)))
        (release BCACHE_LOCK))))))"

section \<open>Doubly linked lists\<close>

text \<open>
  \<open>links nx pv a xs z\<close>: from \<open>a\<close> the forward pointers lead through \<open>xs\<close> to \<open>z\<close>, and the
  backward pointers lead back. The ring of a head \<open>h\<close> and the distinct nodes \<open>xs\<close>:
\<close>

fun links :: "(nat \<Rightarrow> nat) \<Rightarrow> (nat \<Rightarrow> nat) \<Rightarrow> nat \<Rightarrow> nat list \<Rightarrow> nat \<Rightarrow> bool" where
  "links nx pv a [] z \<longleftrightarrow> nx a = z \<and> pv z = a"
| "links nx pv a (x # xs) z \<longleftrightarrow> nx a = x \<and> pv x = a \<and> links nx pv x xs z"

definition ring :: "(nat \<Rightarrow> nat) \<Rightarrow> (nat \<Rightarrow> nat) \<Rightarrow> nat \<Rightarrow> nat list \<Rightarrow> bool" where
  "ring nx pv h xs \<longleftrightarrow> distinct (h # xs) \<and> links nx pv h xs h"

lemma links_append [simp]:
  "links nx pv a (xs @ y # ys) z \<longleftrightarrow> links nx pv a xs y \<and> links nx pv y ys z"
  by (induction xs arbitrary: a) auto

lemma links_cong:
  "(\<And>x. x \<in> set (a # xs) \<Longrightarrow> nx x = nx' x) \<Longrightarrow> (\<And>x. x \<in> set (xs @ [z]) \<Longrightarrow> pv x = pv' x) \<Longrightarrow>
   links nx pv a xs z = links nx' pv' a xs z"
  by (induction xs arbitrary: a) auto

lemma links_upd_nx [simp]: "i \<notin> set (a # xs) \<Longrightarrow> links (nx(i := v)) pv a xs z = links nx pv a xs z"
  by (rule links_cong) auto

lemma links_upd_pv [simp]: "i \<notin> set (xs @ [z]) \<Longrightarrow> links nx (pv(i := v)) a xs z = links nx pv a xs z"
  by (rule links_cong) auto

lemma ring_insert:
  assumes "ring nx pv h xs" "b \<notin> set (h # xs)"
  shows "ring (nx(b := nx h, h := b)) (pv(b := h, nx h := b)) h (b # xs)"
  using assms by (cases xs) (auto simp: ring_def)

lemma ring_delete:
  assumes "ring nx pv h (us @ b # vs)"
  shows "ring (nx(pv b := nx b)) (pv(nx b := pv b)) h (us @ vs)"
  using assms
  by (cases us rule: rev_cases; cases vs) (auto simp: ring_def)

lemma ring_empty: "nx h = h \<Longrightarrow> pv h = h \<Longrightarrow> ring nx pv h []"
  by (simp add: ring_def)

section \<open>The list of buffers\<close>

definition nxt :: "buf list \<Rightarrow> nat \<Rightarrow> nat" where
  "nxt bs i = (if i < length bs then next_buf (bs ! i) else 0)"

definition prv :: "buf list \<Rightarrow> nat \<Rightarrow> nat" where
  "prv bs i = (if i < length bs then prev (bs ! i) else 0)"

text \<open>A buffer without its links.\<close>

definition contents :: "buf \<Rightarrow> buf" where
  "contents x = x\<lparr>prev := 0, next_buf := 0\<rparr>"

lemma contents_sel [simp]:
  "bflags (contents x) = bflags x" "bdev (contents x) = bdev x" "bblockno (contents x) = bblockno x"
  "refcnt (contents x) = refcnt x" "bdata (contents x) = bdata x"
  by (simp_all add: contents_def)

lemma contents_upd [simp]: "contents (x\<lparr>prev := v\<rparr>) = contents x" "contents (x\<lparr>next_buf := v\<rparr>) = contents x"
  by (simp_all add: contents_def)

lemma map_contents_upd: "contents y = contents (bs ! i) \<Longrightarrow> map contents (bs[i := y]) = map contents bs"
  by (cases "i < length bs") (simp_all add: map_update list_update_same_conv list_update_beyond)

lemma nxt_upd [simp]:
  "i < length bs \<Longrightarrow> nxt (bs[i := (bs ! i)\<lparr>next_buf := v\<rparr>]) = (nxt bs)(i := v)"
  "i < length bs \<Longrightarrow> nxt (bs[i := (bs ! i)\<lparr>prev := v\<rparr>]) = nxt bs"
  "i < length bs \<Longrightarrow> prv (bs[i := (bs ! i)\<lparr>prev := v\<rparr>]) = (prv bs)(i := v)"
  "i < length bs \<Longrightarrow> prv (bs[i := (bs ! i)\<lparr>next_buf := v\<rparr>]) = prv bs"
  by (auto simp: nxt_def prv_def fun_eq_iff nth_list_update)

text \<open>\<open>lru bs xs\<close>: the buffers in the order of the list, the most recently used one first.\<close>

definition lru :: "buf list \<Rightarrow> nat list \<Rightarrow> bool" where
  "lru bs xs \<longleftrightarrow> length bs = NBUF + 1 \<and> set xs \<subseteq> {..<NBUF} \<and> ring (nxt bs) (prv bs) head xs"

lemma links_first: "links nx pv a xs z \<Longrightarrow> nx a = hd (xs @ [z])"
  by (cases xs) auto

lemma links_last: "links nx pv a xs z \<Longrightarrow> pv z = last (a # xs)"
  by (induction xs arbitrary: a) auto

lemma link_first_run:
  assumes l: "lru (bufs s) xs" and b: "b < NBUF" "b \<notin> set xs"
  shows "\<exists>bs. link_first b e s = Ret () e (s\<lparr>bufs := bs\<rparr>) \<and> lru bs (b # xs)
    \<and> map contents bs = map contents (bufs s)"
proof -
  let ?bs = "bufs s"
  let ?f = "nxt ?bs head"
  have n: "length ?bs = 31" and r: "ring (nxt ?bs) (prv ?bs) head xs" and x: "set xs \<subseteq> {..<NBUF}"
    using l by (auto simp: lru_def)
  have f: "?f < 31"
    using links_first [of "nxt ?bs" "prv ?bs" head xs head] r x by (cases xs) (auto simp: ring_def)
  have fe: "next_buf (?bs ! 30) = ?f" using n by (simp add: nxt_def)
  define b1 where "b1 = ?bs[b := (?bs ! b)\<lparr>next_buf := ?f\<rparr>]"
  define b2 where "b2 = b1[b := (b1 ! b)\<lparr>prev := head\<rparr>]"
  define b3 where "b3 = b2[?f := (b2 ! ?f)\<lparr>prev := b\<rparr>]"
  define b4 where "b4 = b3[head := (b3 ! head)\<lparr>next_buf := b\<rparr>]"
  have run: "link_first b e s = Ret () e (s\<lparr>bufs := b4\<rparr>)"
    by (simp add: link_first_def bupd_def fe b1_def b2_def b3_def b4_def)
  have len: "length b1 = 31" "length b2 = 31" "length b3 = 31"
    using n by (simp_all add: b1_def b2_def b3_def)
  have "nxt b1 = (nxt ?bs)(b := ?f)" "prv b1 = prv ?bs" using n b by (simp_all add: b1_def)
  moreover have "nxt b2 = nxt b1" "prv b2 = (prv b1)(b := head)" using len b by (simp_all add: b2_def)
  moreover have "nxt b3 = nxt b2" "prv b3 = (prv b2)(?f := b)" using len f by (simp_all add: b3_def)
  moreover have "nxt b4 = (nxt b3)(head := b)" "prv b4 = prv b3" using len by (simp_all add: b4_def)
  ultimately have "nxt b4 = (nxt ?bs)(b := ?f, head := b)" "prv b4 = (prv ?bs)(b := head, ?f := b)"
    by simp_all
  then have "ring (nxt b4) (prv b4) head (b # xs)"
    using ring_insert [OF r, of b] b by simp
  then have "lru b4 (b # xs)"
    using n x b by (simp add: lru_def b1_def b2_def b3_def b4_def)
  moreover have "map contents b4 = map contents b3" "map contents b3 = map contents b2"
    "map contents b2 = map contents b1" "map contents b1 = map contents ?bs"
    unfolding b1_def b2_def b3_def b4_def by (simp_all only: map_contents_upd contents_upd)
  then have "map contents b4 = map contents ?bs" by simp
  ultimately show ?thesis using run by blast
qed

lemma unlink_buf_run:
  assumes l: "lru (bufs s) (us @ b # vs)"
  shows "\<exists>bs. unlink_buf b e s = Ret () e (s\<lparr>bufs := bs\<rparr>) \<and> lru bs (us @ vs)
    \<and> map contents bs = map contents (bufs s)"
proof -
  let ?bs = "bufs s"
  let ?n = "nxt ?bs b" and ?p = "prv ?bs b"
  have n: "length ?bs = 31" and r: "ring (nxt ?bs) (prv ?bs) head (us @ b # vs)"
    and x: "set (us @ b # vs) \<subseteq> {..<NBUF}"
    using l by (auto simp: lru_def)
  have ns: "?n = hd (vs @ [head])" "?p = last (head # us)"
    using r links_first [of "nxt ?bs" "prv ?bs" b vs head] links_last [of "nxt ?bs" "prv ?bs" head us b]
    by (simp_all add: ring_def)
  have "?n < 31" using x by (cases vs) (auto simp: ns)
  moreover have "?p < 31" using x by (cases us rule: rev_cases) (auto simp: ns)
  moreover have "?n \<noteq> b" "b < 31" using x r by (cases vs; auto simp: ns ring_def)+
  moreover have e: "next_buf (?bs ! b) = ?n" "prev (?bs ! b) = ?p" using n x by (auto simp: nxt_def prv_def)
  moreover define b1 where "b1 = ?bs[?n := (?bs ! ?n)\<lparr>prev := ?p\<rparr>]"
  moreover have b1: "b1 ! b = ?bs ! b" using \<open>?n \<noteq> b\<close> by (simp add: b1_def)
  moreover define b2 where "b2 = b1[?p := (b1 ! ?p)\<lparr>next_buf := ?n\<rparr>]"
  ultimately have run: "unlink_buf b e s = Ret () e (s\<lparr>bufs := b2\<rparr>)"
    and "nxt b2 = (nxt ?bs)(?p := ?n)" "prv b2 = (prv ?bs)(?n := ?p)"
    using n by (simp_all add: unlink_buf_def bupd_def b1_def b2_def)
  then have "ring (nxt b2) (prv b2) head (us @ vs)"
    using ring_delete [OF r] by simp
  then have "lru b2 (us @ vs)"
    using n x by (simp add: lru_def b1_def b2_def)
  moreover have "map contents b2 = map contents ?bs"
    by (simp add: b1_def b2_def map_contents_upd)
  ultimately show ?thesis using run by blast
qed

lemma walk_forward:
  assumes "links (nxt (bufs s)) pv a xs head" "head \<notin> set xs" "set xs \<subseteq> {..<length (bufs s)}" "length xs < k"
  shows "kiter k (\<lambda>b.
     if b = head then kreturn (Inr None)
     else kbind (bfield b id) (\<lambda>x.
       if ok x then kreturn (Inr (Some b)) else kreturn (Inl (next_buf x)))) (nxt (bufs s) a) e s
   = Ret (find (\<lambda>b. ok (bufs s ! b)) xs) e s"
  using assms
proof (induction xs arbitrary: a k)
  case Nil
  then show ?case by (cases k) (simp_all add: kmon_run)
next
  case (Cons x xs)
  then obtain j where "k = Suc j" by (cases k) auto
  with Cons.prems Cons.IH [of x j] show ?case
    by (auto simp: kmon_run nxt_def)
qed

lemma walk_backward:
  assumes "links nx (prv (bufs s)) head xs z" "head \<notin> set xs" "set xs \<subseteq> {..<length (bufs s)}" "length xs < k"
  shows "kiter k (\<lambda>b.
     if b = head then kreturn (Inr None)
     else kbind (bfield b id) (\<lambda>x.
       if ok x then kreturn (Inr (Some b)) else kreturn (Inl (prev x)))) (prv (bufs s) z) e s
   = Ret (find (\<lambda>b. ok (bufs s ! b)) (rev xs)) e s"
  using assms
proof (induction xs arbitrary: z k rule: rev_induct)
  case Nil
  then show ?case by (cases k) (simp_all add: kmon_run)
next
  case (snoc x xs)
  then obtain j where "k = Suc j" by (cases k) auto
  with snoc.prems snoc.IH [of x j] show ?case
    by (auto simp: kmon_run prv_def)
qed

lemma lru_length: "lru bs xs \<Longrightarrow> length xs \<le> NBUF"
  using card_mono [of "{..<NBUF}" "set xs"] by (simp add: lru_def ring_def distinct_card)

text \<open>The two searches of \<open>bget\<close>, through the list in both directions.\<close>

lemma walk_run:
  assumes "lru (bufs s) xs"
  shows "walk next_buf ok (next_buf (bufs s ! head)) e s = Ret (find (\<lambda>b. ok (bufs s ! b)) xs) e s"
    and "walk prev ok (prev (bufs s ! head)) e s = Ret (find (\<lambda>b. ok (bufs s ! b)) (rev xs)) e s"
proof -
  have "links (nxt (bufs s)) (prv (bufs s)) head xs head" "head \<notin> set xs"
    "set xs \<subseteq> {..<length (bufs s)}" "length xs < NBUF + 1" "length (bufs s) = 31"
    using assms lru_length [OF assms] by (auto simp: lru_def ring_def)
  with walk_forward [of s "prv (bufs s)" head xs "NBUF + 1" ok e]
    walk_backward [of "nxt (bufs s)" s xs head "NBUF + 1" ok e]
  show "walk next_buf ok (next_buf (bufs s ! head)) e s = Ret (find (\<lambda>b. ok (bufs s ! b)) xs) e s"
    and "walk prev ok (prev (bufs s ! head)) e s = Ret (find (\<lambda>b. ok (bufs s ! b)) (rev xs)) e s"
    unfolding walk_def by (simp_all add: nxt_def prv_def)
qed

section \<open>Undisturbed runs\<close>

abbreviation (input) locked_by :: "nat \<Rightarrow> nat \<Rightarrow> 'a sltable_scheme \<Rightarrow> sleepid \<Rightarrow> sleeplock" where
  "locked_by b i s \<equiv> (slocks s)(BufSleep b :=
     (slocks s (BufSleep b))\<lparr>sl_locked := True, sl_pid := pid (procs s ! i)\<rparr>)"

lemma at_rest_upd [simp]:
  "at_rest c i (procs_update f s) = at_rest c i s" "at_rest c i (slocks_update g t) = at_rest c i t"
  "at_rest c i (bufs_update h u) = at_rest c i u" "at_rest c i (memdisk_update k u) = at_rest c i u"
  "at_rest c i (disk_writes_update w u) = at_rest c i u"
  by (simp_all add: at_rest_def)

lemma bget_hit:
  assumes a: "at_rest c i s" and l: "lru (bufs s) xs"
    and f: "find (\<lambda>b. bdev (bufs s ! b) = dev \<and> bblockno (bufs s ! b) = n) xs = Some b"
    and u: "\<not> sl_locked (slocks s (BufSleep b))"
  shows "bget dev n e s = Ret b e (s\<lparr>
     bufs := (bufs s)[b := (bufs s ! b)\<lparr>refcnt := refcnt (bufs s ! b) + 1\<rparr>], slocks := locked_by b i s\<rparr>)"
proof -
  note d = at_restD [OF a]
  let ?t = "s\<lparr>cpus := deeper c (cpus s), intr_on := False, locks := (locks s)(BCACHE_LOCK := lk_take c (locks s BCACHE_LOCK))\<rparr>"
  have w: "walk next_buf (\<lambda>x. bdev x = dev \<and> bblockno x = n) (next_buf (bufs s ! 30)) e ?t = Ret (Some b) e ?t"
    using walk_run(1) [of ?t xs "\<lambda>x. bdev x = dev \<and> bblockno x = n" e] l f by simp
  then show ?thesis
    using d a u by (simp add: bget_def acquire_run [where c = c] bupd_def kmon_run
        release_section [where c = c and s = s] acquiresleep_run [where c = c and i = i])
qed

lemma bget_miss:
  assumes a: "at_rest c i s" and l: "lru (bufs s) xs"
    and f: "find (\<lambda>b. bdev (bufs s ! b) = dev \<and> bblockno (bufs s ! b) = n) xs = None"
    and g: "find (\<lambda>b. refcnt (bufs s ! b) = 0 \<and> bflags (bufs s ! b) AND B_DIRTY = 0) (rev xs) = Some b"
    and u: "\<not> sl_locked (slocks s (BufSleep b))"
  shows "bget dev n e s = Ret b e (s\<lparr>
     bufs := (bufs s)[b := (bufs s ! b)\<lparr>bdev := dev, bblockno := n, bflags := 0, refcnt := 1\<rparr>],
     slocks := locked_by b i s\<rparr>)"
proof -
  note d = at_restD [OF a]
  let ?t = "s\<lparr>cpus := deeper c (cpus s), intr_on := False, locks := (locks s)(BCACHE_LOCK := lk_take c (locks s BCACHE_LOCK))\<rparr>"
  have w: "walk next_buf (\<lambda>x. bdev x = dev \<and> bblockno x = n) (next_buf (bufs s ! 30)) e ?t = Ret None e ?t"
    "walk prev (\<lambda>x. refcnt x = 0 \<and> bflags x AND B_DIRTY = 0) (prev (bufs s ! 30)) e ?t = Ret (Some b) e ?t"
    using walk_run [of ?t xs] l f g by simp_all
  then show ?thesis
    using d a u by (simp add: bget_def acquire_run [where c = c] bupd_def kmon_run
        release_section [where c = c and s = s] acquiresleep_run [where c = c and i = i])
qed

lemma iderw_read:
  assumes a: "at_rest c i s" and h: "sl_locked (slocks s (BufSleep b))"
    and x: "bflags (bufs s ! b) = 0" "bdev (bufs s ! b) = 1" "bblockno (bufs s ! b) < disksize s" "b < length (bufs s)"
  shows "iderw b e s = Ret () e (s\<lparr>bufs := (bufs s)[b := (bufs s ! b)\<lparr>
     bdata := part (unat (bblockno (bufs s ! b)) * BSIZE) BSIZE (memdisk s), bflags := B_VALID\<rparr>]\<rparr>)"
  using h x by (simp add: iderw_def holdingsleep_run [OF a] if_run Let_def bupd_def not_le)

lemma iderw_write:
  assumes a: "at_rest c i s" and h: "sl_locked (slocks s (BufSleep b))"
    and x: "bflags (bufs s ! b) = 6" "bdev (bufs s ! b) = 1" "bblockno (bufs s ! b) < disksize s" "b < length (bufs s)"
  shows "iderw b e s = Ret () e (s\<lparr>
     bufs := (bufs s)[b := (bufs s ! b)\<lparr>bflags := B_VALID\<rparr>],
     memdisk := patch (unat (bblockno (bufs s ! b)) * BSIZE) (bdata (bufs s ! b)) (memdisk s),
     disk_writes := disk_writes s @ [(unat (bblockno (bufs s ! b)), bdata (bufs s ! b))]\<rparr>)"
  using h x by (simp add: iderw_def holdingsleep_run [OF a] if_run Let_def bupd_def not_le)

section \<open>What the cache promises\<close>

text \<open>
  \<open>bio_step s s'\<close>: the cache may have moved buffers, locked or unlocked them and woken
  sleepers; all the rest of the state is the same.
\<close>

definition awoken :: "proc list \<Rightarrow> proc list \<Rightarrow> bool" where
  "awoken = list_all2 (\<lambda>p q. q = p \<or> pstate p = SLEEPING \<and> q = p\<lparr>pstate := RUNNABLE\<rparr>)"

definition rest_of :: "'a bcache_scheme \<Rightarrow> 'a bcache_scheme" where
  "rest_of s = s\<lparr>procs := [], slocks := (\<lambda>_. \<lparr>sl_locked = False, sl_name = [], sl_pid = 0\<rparr>),
     bufs := [], memdisk := [], disk_writes := []\<rparr>"

definition bio_step :: "'a bcache_scheme \<Rightarrow> 'a bcache_scheme \<Rightarrow> bool" where
  "bio_step s s' \<longleftrightarrow> rest_of s' = rest_of s \<and> awoken (procs s) (procs s')
     \<and> (\<forall>i. slocks s' (InodeSleep i) = slocks s (InodeSleep i))"

lemma awoken_refl [simp]: "awoken ps ps"
  by (simp add: awoken_def list_all2_conv_all_nth)

lemma awoken_wake [simp]: "awoken ps (map (wake ch) ps)"
  by (simp add: awoken_def list_all2_conv_all_nth wake_def)

lemma awoken_trans: "awoken ps qs \<Longrightarrow> awoken qs rs \<Longrightarrow> awoken ps rs"
  by (fastforce simp: awoken_def list_all2_conv_all_nth)

lemma bio_step_refl [simp]: "bio_step s s"
  by (simp add: bio_step_def)

lemma bio_step_trans [trans]: "bio_step s t \<Longrightarrow> bio_step t u \<Longrightarrow> bio_step s u"
  by (auto simp: bio_step_def intro: awoken_trans)

lemma bio_step_upd [simp]:
  "bio_step s (s\<lparr>bufs := bs\<rparr>)" "bio_step s (s\<lparr>memdisk := d\<rparr>)" "bio_step s (s\<lparr>disk_writes := w\<rparr>)"
  "bio_step s (s\<lparr>procs := map (wake ch) (procs s)\<rparr>)"
  "bio_step s (s\<lparr>slocks := (slocks s)(BufSleep b := v)\<rparr>)"
  by (simp_all add: bio_step_def rest_of_def)

lemma bio_stepD:
  assumes "bio_step s s'"
  shows "at_rest c i s' = at_rest c i s" "disksize s' = disksize s"
proof -
  have r: "rest_of s' = rest_of s" using assms by (simp add: bio_step_def)
  show "at_rest c i s' = at_rest c i s"
    using arg_cong [OF r, of "at_rest c i"] by (simp add: rest_of_def at_rest_def)
  show "disksize s' = disksize s"
    using arg_cong [OF r, of disksize] by (simp add: rest_of_def)
qed

text \<open>
  The contract is in terms of the blocks of the disk \<open>D\<close>, the blocks as the kernel sees
  them \<open>M\<close>, the blocks \<open>P\<close> that are pinned in the cache because they were modified and not
  yet written, and the buffers \<open>H\<close> that are held, with their blocks.
\<close>

definition buf_ok :: "nat \<Rightarrow> (nat \<Rightarrow> u8 list) \<Rightarrow> nat set \<Rightarrow> nat option \<Rightarrow> buf \<Rightarrow> bool" where
  "buf_ok n M P h x \<longleftrightarrow> length (bdata x) = BSIZE \<and> refcnt x = (if h = None then 0 else 1) \<and>
     (bdev x = 0 \<and> bflags x = 0 \<and> h = None
      \<or> bdev x = 1 \<and> unat (bblockno x) < n \<and> (h = None \<or> h = Some (unat (bblockno x)))
        \<and> bdata x = M (unat (bblockno x)) \<and> bflags x = (if unat (bblockno x) \<in> P then 6 else 2))"

definition on_disk :: "'a bcache_scheme \<Rightarrow> nat \<Rightarrow> u8 list" where
  "on_disk s n = part (n * BSIZE) BSIZE (memdisk s)"

definition caches :: "buf list \<Rightarrow> nat \<Rightarrow> nat \<Rightarrow> bool" where
  "caches bs n b \<longleftrightarrow> b < NBUF \<and> bdev (bs ! b) = 1 \<and> unat (bblockno (bs ! b)) = n"

definition cache_rel ::
  "'a bcache_scheme \<Rightarrow> (nat \<Rightarrow> u8 list) \<Rightarrow> nat set \<Rightarrow> (nat \<rightharpoonup> nat) \<Rightarrow> bool" where
  "cache_rel s M P H \<longleftrightarrow>
     (\<exists>xs. lru (bufs s) xs \<and> set xs = {..<NBUF})
   \<and> length (memdisk s) = unat (disksize s) * BSIZE
   \<and> dom H \<subseteq> {..<NBUF}
   \<and> (\<forall>b<NBUF. buf_ok (unat (disksize s)) M P (H b) (bufs s ! b))
   \<and> (\<forall>b<NBUF. sl_locked (slocks s (BufSleep b)) \<longleftrightarrow> H b \<noteq> None)
   \<and> (\<forall>n b b'. caches (bufs s) n b \<and> caches (bufs s) n b' \<longrightarrow> b = b')
   \<and> (\<forall>n\<in>P. \<exists>b. caches (bufs s) n b)
   \<and> (\<forall>n. n < unat (disksize s) \<and> n \<notin> P \<and> n \<notin> ran H \<longrightarrow> M n = on_disk s n)"

lemma cache_relD:
  assumes "cache_rel s M P H"
  shows "\<exists>xs. lru (bufs s) xs \<and> set xs = {..<NBUF}" "length (bufs s) = 31"
    "length (memdisk s) = unat (disksize s) * BSIZE" "dom H \<subseteq> {..<NBUF}"
    "b < NBUF \<Longrightarrow> buf_ok (unat (disksize s)) M P (H b) (bufs s ! b)"
    "b < NBUF \<Longrightarrow> sl_locked (slocks s (BufSleep b)) \<longleftrightarrow> H b \<noteq> None"
    "caches (bufs s) n b \<Longrightarrow> caches (bufs s) n b' \<Longrightarrow> b = b'"
    "n \<in> P \<Longrightarrow> \<exists>b. caches (bufs s) n b"
    "n < unat (disksize s) \<Longrightarrow> n \<notin> P \<Longrightarrow> n \<notin> ran H \<Longrightarrow> M n = on_disk s n"
  using assms by (auto simp: cache_rel_def lru_def)

lemma nxt_same:
  "next_buf y = next_buf (bs ! b) \<Longrightarrow> nxt (bs[b := y]) = nxt bs"
  "prev y = prev (bs ! b) \<Longrightarrow> prv (bs[b := y]) = prv bs"
  by (cases "b < length bs"; auto simp: nxt_def prv_def fun_eq_iff nth_list_update)+

lemma lru_same:
  "next_buf y = next_buf (bs ! b) \<Longrightarrow> prev y = prev (bs ! b) \<Longrightarrow> lru (bs[b := y]) xs = lru bs xs"
  by (simp add: lru_def nxt_same)

text \<open>
  Replacing buffer \<open>b\<close> by \<open>y\<close>, which holds block \<open>n\<close>: the contract carries over when no
  other buffer has the block and the block that \<open>b\<close> had before is not pinned.
\<close>

lemma cache_rel_upd:
  assumes R: "cache_rel s M P H" and b: "b < NBUF"
    and bufs: "bufs s' = (bufs s)[b := y]" "next_buf y = next_buf (bufs s ! b)" "prev y = prev (bufs s ! b)"
    and y: "bdev y = 1" "unat (bblockno y) = n" "buf_ok (unat (disksize s)) M' P' h y"
    and uniq: "\<And>b'. caches (bufs s) n b' \<Longrightarrow> b' = b"
    and old: "\<And>m. m \<in> P \<Longrightarrow> m \<noteq> n \<Longrightarrow> \<not> caches (bufs s) m b" "H b = None \<or> H b = Some n"
    and same: "\<And>m. m \<noteq> n \<Longrightarrow> M' m = M m \<and> (m \<in> P') = (m \<in> P) \<and> (m < unat (disksize s) \<longrightarrow> on_disk s' m = on_disk s m)"
    and sl: "\<And>b'. b' < NBUF \<Longrightarrow> sl_locked (slocks s' (BufSleep b')) \<longleftrightarrow> (H(b := h)) b' \<noteq> None"
    and disk: "disksize s' = disksize s" "length (memdisk s') = length (memdisk s)"
      "n \<notin> P' \<Longrightarrow> h = None \<Longrightarrow> M' n = on_disk s' n"
  shows "cache_rel s' M' P' (H(b := h))"
proof -
  note r = cache_relD [OF R]
  have len: "length (bufs s) = 31" by (rule r)
  have cs: "caches (bufs s') m b' \<longleftrightarrow> (if b' = b then m = n else caches (bufs s) m b')" for m b'
    using b len y by (auto simp: caches_def bufs nth_list_update)
  have ok: "buf_ok (unat (disksize s)) M' P' ((H(b := h)) b') (bufs s' ! b')" if "b' < NBUF" for b'
  proof (cases "b' = b")
    case True
    then show ?thesis using y len b by (simp add: bufs)
  next
    case False
    let ?m = "unat (bblockno (bufs s ! b'))"
    have "bdev (bufs s ! b') = 1 \<Longrightarrow> ?m \<noteq> n"
      using uniq [of b'] False that by (auto simp: caches_def)
    then show ?thesis
      using r(5) [OF that] False same [of ?m] by (auto simp: buf_ok_def bufs)
  qed
  have hn: "h = None \<or> h = Some n" using y by (auto simp: buf_ok_def)
  have rn: "m \<in> ran (H(b := h))" if m: "m \<in> ran H" "m \<noteq> n" for m
  proof -
    from m obtain a where "H a = Some m" by (auto simp: ran_def)
    then have "(H(b := h)) a = Some m" using old(2) m by auto
    then show ?thesis by (rule ranI)
  qed
  have md: "M' m = on_disk s' m" if "m < unat (disksize s)" "m \<notin> P'" "m \<notin> ran (H(b := h))" for m
  proof (cases "m = n")
    case True
    then have "h = None" using hn that(3) ranI [of "H(b := h)" b n] by auto
    then show ?thesis using True that disk(3) by blast
  next
    case False
    then show ?thesis using r(9) [of m] that same [of m] rn by auto
  qed
  show ?thesis
    unfolding cache_rel_def
  proof (intro conjI)
    show "\<exists>xs. lru (bufs s') xs \<and> set xs = {..<NBUF}" using r(1) bufs by (simp add: lru_same)
    show "length (memdisk s') = unat (disksize s') * BSIZE" using r(3) disk by simp
    show "dom (H(b := h)) \<subseteq> {..<NBUF}" using r(4) b by auto
    show "\<forall>n\<in>P'. \<exists>b. caches (bufs s') n b"
      using r(8) old(1) same by (metis cs)
  qed (use ok sl cs uniq r(7) md disk in \<open>auto split: if_splits\<close>)
qed

lemma cached_find:
  assumes "cache_rel s M P H" "lru (bufs s) xs" "set xs = {..<NBUF}"
  shows "find (\<lambda>b. bdev (bufs s ! b) = 1 \<and> bblockno (bufs s ! b) = n) xs = Some b \<longleftrightarrow> caches (bufs s) (unat n) b"
    (is "?f = _ \<longleftrightarrow> _")
proof
  assume "?f = Some b"
  then show "caches (bufs s) (unat n) b" using assms(3) by (auto simp: find_Some_iff caches_def set_conv_nth)
next
  assume c: "caches (bufs s) (unat n) b"
  then have "b \<in> set xs" "bdev (bufs s ! b) = 1 \<and> bblockno (bufs s ! b) = n"
    using assms(3) by (simp_all add: caches_def flip: word_unat_eq_iff)
  then have "?f \<noteq> None" by (auto simp: find_None_iff)
  then obtain b' where f: "?f = Some b'" by blast
  then have "caches (bufs s) (unat n) b'" using assms(3) by (auto simp: find_Some_iff caches_def set_conv_nth)
  with c f show "?f = Some b" using cache_relD(7) [OF assms(1)] by auto
qed

lemma held_caches: "cache_rel s M P H \<Longrightarrow> H b = Some n \<Longrightarrow> caches (bufs s) n b \<and> n < unat (disksize s)"
  using cache_relD(4) [of s M P H] cache_relD(5) [of s M P H b] by (fastforce simp: buf_ok_def caches_def)

text \<open>Room in the cache: fewer than 30 blocks are pinned or held.\<close>

lemma free_buffer:
  assumes R: "cache_rel s M P H" and c: "card (P \<union> ran H) < NBUF"
  shows "\<exists>b<NBUF. H b = None \<and> refcnt (bufs s ! b) = 0 \<and> bflags (bufs s ! b) AND B_DIRTY = 0"
proof (rule ccontr)
  assume n: "\<not> ?thesis"
  note r = cache_relD [OF R]
  let ?f = "\<lambda>b. unat (bblockno (bufs s ! b))"
  have use: "bdev (bufs s ! b) = 1 \<and> ?f b \<in> P \<union> ran H" if b: "b < NBUF" for b
  proof (cases "H b")
    case None
    then have "bflags (bufs s ! b) AND B_DIRTY \<noteq> 0" using n b r(5) [OF b] by (auto simp: buf_ok_def)
    then show ?thesis using r(5) [OF b] by (auto simp: buf_ok_def split: if_splits)
  next
    case (Some m)
    then show ?thesis using held_caches [OF R Some] by (auto simp: caches_def ran_def)
  qed
  have "inj_on ?f {..<NBUF}"
  proof (rule inj_onI)
    fix a b assume "a \<in> {..<NBUF}" "b \<in> {..<NBUF}" "?f a = ?f b"
    then show "a = b" using r(7) [of "?f a" a b] use by (simp add: caches_def)
  qed
  moreover have "?f ` {..<NBUF} \<subseteq> P \<union> ran H" using use by auto
  moreover have "P \<subseteq> ?f ` {..<NBUF}" using r(8) by (fastforce simp: caches_def)
  moreover have "finite (ran H)" using r(4) by (meson finite_lessThan finite_ran finite_subset)
  ultimately have "card {..<NBUF} \<le> card (P \<union> ran H)"
    by (metis card_inj_on_le finite_Un finite_imageI finite_lessThan finite_subset)
  then show False using c by simp
qed

text \<open>What \<open>bread\<close> promises: a held buffer with the block, and no change to any block.\<close>

definition bread_post ::
  "'a bcache_scheme \<Rightarrow> (nat \<Rightarrow> u8 list) \<Rightarrow> nat set \<Rightarrow> (nat \<rightharpoonup> nat) \<Rightarrow> u32 \<Rightarrow> nat \<Rightarrow> 'a bcache_scheme \<Rightarrow> bool" where
  "bread_post s M P H n b s' \<longleftrightarrow> bio_step s s' \<and> H b = None
    \<and> cache_rel s' M P (H(b \<mapsto> unat n)) \<and> bblockno (bufs s' ! b) = n \<and> bdata (bufs s' ! b) = M (unat n)
    \<and> memdisk s' = memdisk s \<and> disk_writes s' = disk_writes s"

lemma bread_hit:
  assumes a: "at_rest c i s" and R: "cache_rel s M P H" and n: "unat n \<notin> ran H"
    and b: "caches (bufs s) (unat n) b"
  shows "\<exists>s'. bread 1 n e s = Ret b e s' \<and> bread_post s M P H n b s'"
proof -
  note r = cache_relD [OF R]
  obtain xs where l: "lru (bufs s) xs" and xs: "set xs = {..<NBUF}" using r(1) by blast
  have len: "length (bufs s) = 31" by (rule r)
  have b30: "b < NBUF" and bn: "bblockno (bufs s ! b) = n" "bdev (bufs s ! b) = 1"
    using b by (simp_all add: caches_def flip: word_unat_eq_iff)
  have h: "H b = None" using n held_caches [OF R] by (metis b caches_def not_None_eq ranI)
  let ?y = "(bufs s ! b)\<lparr>refcnt := refcnt (bufs s ! b) + 1\<rparr>"
  let ?s = "s\<lparr>bufs := (bufs s)[b := ?y], slocks := locked_by b i s\<rparr>"
  have x: "buf_ok (unat (disksize s)) M P None (bufs s ! b)" using r(5) [OF b30] h by simp
  have "bget 1 n e s = Ret b e ?s"
    using bget_hit [OF a l, of 1 n b e] cached_find [OF R l xs, THEN iffD2, OF b] r(6) [OF b30] h by simp
  moreover have "bflags (bufs s ! b) AND 2 \<noteq> 0" using x bn by (simp add: buf_ok_def)
  ultimately have run: "bread 1 n e s = Ret b e ?s" using len b30 by (simp add: bread_def)
  have "cache_rel ?s M P (H(b := Some (unat n)))"
  proof (rule cache_rel_upd [OF R b30, where y = ?y and n = "unat n"])
    show "buf_ok (unat (disksize s)) M P (Some (unat n)) ?y" using x bn by (auto simp: buf_ok_def)
    show "b' = b" if "caches (bufs s) (unat n) b'" for b' using r(7) that b by blast
    show "sl_locked (slocks ?s (BufSleep b')) \<longleftrightarrow> (H(b := Some (unat n))) b' \<noteq> None" if "b' < NBUF" for b'
      using r(6) [OF that] by simp
  qed (use b b30 bn h in \<open>simp_all add: caches_def on_disk_def\<close>)
  moreover have "bio_step s ?s" using bio_step_trans [OF bio_step_upd(1) bio_step_upd(5)] by simp
  moreover have "bdata (bufs ?s ! b) = M (unat n)" "bblockno (bufs ?s ! b) = n"
    using x bn len b30 by (simp_all add: buf_ok_def)
  ultimately show ?thesis using run h by (intro exI [of _ ?s]) (simp add: bread_post_def)
qed

lemma bread_miss:
  assumes a: "at_rest c i s" and R: "cache_rel s M P H" and n: "n < disksize s" "unat n \<notin> ran H"
    and room: "card (P \<union> ran H) < NBUF" and nc: "\<nexists>b. caches (bufs s) (unat n) b"
  shows "\<exists>b s'. bread 1 n e s = Ret b e s' \<and> bread_post s M P H n b s'"
proof -
  note r = cache_relD [OF R]
  obtain xs where l: "lru (bufs s) xs" and xs: "set xs = {..<NBUF}" using r(1) by blast
  have len: "length (bufs s) = 31" by (rule r)
  have nf: "find (\<lambda>b. bdev (bufs s ! b) = 1 \<and> bblockno (bufs s ! b) = n) xs = None"
    using nc cached_find [OF R l xs, of n]
    by (cases "find (\<lambda>b. bdev (bufs s ! b) = 1 \<and> bblockno (bufs s ! b) = n) xs") auto
  have "find (\<lambda>b. refcnt (bufs s ! b) = 0 \<and> bflags (bufs s ! b) AND B_DIRTY = 0) (rev xs) \<noteq> None"
    using free_buffer [OF R room] xs by (auto simp: find_None_iff)
  then obtain b where fb: "find (\<lambda>b. refcnt (bufs s ! b) = 0 \<and> bflags (bufs s ! b) AND B_DIRTY = 0) (rev xs) = Some b"
    by blast
  then have "b \<in> set (rev xs)" and rb: "refcnt (bufs s ! b) = 0" "bflags (bufs s ! b) AND B_DIRTY = 0"
    using find_in [OF fb] by simp_all
  then have b30: "b < NBUF" using xs by simp
  have ok: "buf_ok (unat (disksize s)) M P (H b) (bufs s ! b)" by (rule r(5) [OF b30])
  then have h: "H b = None" using rb by (auto simp: buf_ok_def split: if_splits)
  have np: "\<not> caches (bufs s) m b" if "m \<in> P" for m
    using ok rb that by (auto simp: buf_ok_def caches_def)
  have nP: "unat n \<notin> P" using nc r(8) by blast
  have mn: "M (unat n) = on_disk s (unat n)" by (rule r(9)) (use n nP in \<open>simp_all add: word_less_nat_alt\<close>)
  let ?z = "(bufs s ! b)\<lparr>bdev := 1, bblockno := n, bflags := 0, refcnt := 1\<rparr>"
  let ?t = "s\<lparr>bufs := (bufs s)[b := ?z], slocks := locked_by b i s\<rparr>"
  let ?y = "?z\<lparr>bdata := on_disk s (unat n), bflags := B_VALID\<rparr>"
  let ?s = "?t\<lparr>bufs := (bufs ?t)[b := ?y]\<rparr>"
  have "bget 1 n e s = Ret b e ?t"
    by (rule bget_miss [OF a l nf fb]) (use r(6) [OF b30] h in simp)
  moreover have "iderw b e ?t = Ret () e ?s"
    using iderw_read [of c i ?t b e] a len b30 n by (simp add: on_disk_def)
  ultimately have run: "bread 1 n e s = Ret b e ?s" using len b30 by (simp add: bread_def)
  have "cache_rel ?s M P (H(b := Some (unat n)))"
  proof (rule cache_rel_upd [OF R b30, where y = ?y and n = "unat n"])
    show "buf_ok (unat (disksize s)) M P (Some (unat n)) ?y"
      using mn nP r(3) n by (simp add: buf_ok_def word_less_nat_alt on_disk_def)
    show "b' = b" if "caches (bufs s) (unat n) b'" for b' using nc that by blast
    show "sl_locked (slocks ?s (BufSleep b')) \<longleftrightarrow> (H(b := Some (unat n))) b' \<noteq> None" if "b' < NBUF" for b'
      using r(6) [OF that] by simp
  qed (use b30 h np in \<open>simp_all add: on_disk_def\<close>)
  moreover have "bio_step s ?t" using bio_step_trans [OF bio_step_upd(1) bio_step_upd(5)] by simp
  then have "bio_step s ?s" by (rule bio_step_trans) (rule bio_step_upd)
  moreover have "bdata (bufs ?s ! b) = M (unat n)" "bblockno (bufs ?s ! b) = n"
    using mn len b30 by simp_all
  ultimately show ?thesis using run h by (intro exI [of _ b] exI [of _ ?s]) (simp add: bread_post_def)
qed

lemma bread_rel:
  assumes "at_rest c i s" "cache_rel s M P H" "n < disksize s" "unat n \<notin> ran H" "card (P \<union> ran H) < NBUF"
  shows "\<exists>b s'. bread 1 n e s = Ret b e s' \<and> bread_post s M P H n b s'"
  using bread_hit [OF assms(1,2,4)] bread_miss [OF assms] by blast

text \<open>The holder of a buffer changes its data, and marks it as \<open>log_write\<close> does.\<close>

lemma set_data_rel:
  assumes R: "cache_rel s M P H" and h: "H b = Some n" and d: "length d = BSIZE"
  shows "cache_rel (bupd b (\<lambda>x. x\<lparr>bdata := d\<rparr>) s) (M(n := d)) P H" "bio_step s (bupd b f s)"
proof -
  note r = cache_relD [OF R]
  have c: "caches (bufs s) n b" using held_caches [OF R h] by simp
  then have b: "b < NBUF" by (simp add: caches_def)
  let ?y = "(bufs s ! b)\<lparr>bdata := d\<rparr>"
  have "cache_rel (bupd b (\<lambda>x. x\<lparr>bdata := d\<rparr>) s) (M(n := d)) P (H(b := Some n))"
  proof (rule cache_rel_upd [OF R b, where y = ?y and n = n])
    show "buf_ok (unat (disksize s)) (M(n := d)) P (Some n) ?y"
      using r(5) [OF b] h c d by (auto simp: buf_ok_def caches_def)
    show "b' = b" if "caches (bufs s) n b'" for b' using r(7) that c by blast
    show "sl_locked (slocks (bupd b f s) (BufSleep b')) \<longleftrightarrow> (H(b := Some n)) b' \<noteq> None" if "b' < NBUF" for b' f
      using r(6) [OF that] h by (simp add: bupd_def)
  qed (use c h in \<open>simp_all add: caches_def bupd_def on_disk_def\<close>)
  then show "cache_rel (bupd b (\<lambda>x. x\<lparr>bdata := d\<rparr>) s) (M(n := d)) P H" using h by (simp add: fun_upd_idem)
  show "bio_step s (bupd b f s)" by (simp add: bupd_def)
qed

lemma set_dirty_rel:
  assumes R: "cache_rel s M P H" and h: "H b = Some n"
  shows "cache_rel (bupd b (\<lambda>x. x\<lparr>bflags := bflags x OR B_DIRTY\<rparr>) s) M (insert n P) H"
proof -
  note r = cache_relD [OF R]
  have c: "caches (bufs s) n b" using held_caches [OF R h] by simp
  then have b: "b < NBUF" by (simp add: caches_def)
  let ?y = "(bufs s ! b)\<lparr>bflags := bflags (bufs s ! b) OR B_DIRTY\<rparr>"
  have "cache_rel (bupd b (\<lambda>x. x\<lparr>bflags := bflags x OR B_DIRTY\<rparr>) s) M (insert n P) (H(b := Some n))"
  proof (rule cache_rel_upd [OF R b, where y = ?y and n = n])
    show "buf_ok (unat (disksize s)) M (insert n P) (Some n) ?y"
      using r(5) [OF b] h c by (auto simp: buf_ok_def caches_def)
    show "b' = b" if "caches (bufs s) n b'" for b' using r(7) that c by blast
    show "sl_locked (slocks (bupd b f s) (BufSleep b')) \<longleftrightarrow> (H(b := Some n)) b' \<noteq> None" if "b' < NBUF" for b' f
      using r(6) [OF that] h by (simp add: bupd_def)
  qed (use c h in \<open>simp_all add: caches_def bupd_def on_disk_def\<close>)
  then show ?thesis using h by (simp add: fun_upd_idem)
qed

text \<open>\<open>bwrite\<close> puts the held block on the disk and unpins it.\<close>

lemma bwrite_rel:
  assumes a: "at_rest c i s" and R: "cache_rel s M P H" and h: "H b = Some n"
  shows "\<exists>s'. bwrite b e s = Ret () e s' \<and> bio_step s s' \<and> cache_rel s' M (P - {n}) H
    \<and> disk_writes s' = disk_writes s @ [(n, M n)]
    \<and> (\<forall>m<unat (disksize s). on_disk s' m = (if m = n then M n else on_disk s m))"
proof -
  note r = cache_relD [OF R]
  have c: "caches (bufs s) n b" "n < unat (disksize s)" using held_caches [OF R h] by simp_all
  then have b: "b < NBUF" and len: "length (bufs s) = 31" using r(2) by (simp_all add: caches_def)
  define x where "x = bufs s ! b"
  have ok: "buf_ok (unat (disksize s)) M P (Some n) x" using r(5) [OF b] h by (simp add: x_def)
  then have x: "bdev x = 1" "unat (bblockno x) = n" "bdata x = M n" "length (M n) = BSIZE" "bflags x OR 4 = 6"
    by (auto simp: buf_ok_def)
  let ?t = "s\<lparr>bufs := (bufs s)[b := x\<lparr>bflags := 6\<rparr>]\<rparr>"
  let ?u = "s\<lparr>bufs := (bufs s)[b := x\<lparr>bflags := 2\<rparr>], memdisk := patch (n * BSIZE) (M n) (memdisk s),
      disk_writes := disk_writes s @ [(n, M n)]\<rparr>"
  have "iderw b e ?t = Ret () e ?u"
    using iderw_write [of c i ?t b e] a len b c x r(6) [OF b] h by (simp add: word_less_nat_alt)
  then have run: "bwrite b e s = Ret () e ?u"
    using r(6) [OF b] h x by (simp add: bwrite_def holdingsleep_run [OF a] bupd_def if_run flip: x_def)
  have fit: "n * BSIZE + length (M n) \<le> length (memdisk s)"
    using c(2) r(3) x(4) by simp
  have disk: "on_disk ?u m = (if m = n then M n else on_disk s m)" if "m < unat (disksize s)" for m
  proof (cases "m = n")
    case False
    then have "m * BSIZE + BSIZE \<le> n * BSIZE \<or> n * BSIZE + BSIZE \<le> m * BSIZE" by linarith
    then show ?thesis using False fit x(4) by (simp add: on_disk_def part_patch_other)
  qed (use fit x(4) in \<open>simp add: on_disk_def\<close>)
  have "cache_rel ?u M (P - {n}) (H(b := Some n))"
  proof (rule cache_rel_upd [OF R b, where y = "x\<lparr>bflags := 2\<rparr>" and n = n])
    show "buf_ok (unat (disksize s)) M (P - {n}) (Some n) (x\<lparr>bflags := 2\<rparr>)"
      using ok x by (auto simp: buf_ok_def)
    show "b' = b" if "caches (bufs s) n b'" for b' using r(7) that c by blast
    show "sl_locked (slocks ?u (BufSleep b')) \<longleftrightarrow> (H(b := Some n)) b' \<noteq> None" if "b' < NBUF" for b'
      using r(6) [OF that] h by simp
  qed (use c h x disk fit in \<open>simp_all add: caches_def x_def\<close>)
  then have "cache_rel ?u M (P - {n}) H" using h by (simp add: fun_upd_idem)
  moreover have "bio_step s ?u"
    using bio_step_trans [OF bio_step_trans [OF bio_step_upd(1) bio_step_upd(2)] bio_step_upd(3)] .
  ultimately show ?thesis using run disk by (intro exI [of _ ?u]) simp
qed

text \<open>Relinking the buffers does not matter to the contract.\<close>

lemma cache_rel_relink:
  assumes R: "cache_rel s M P H" and l: "lru (bufs s') xs" "set xs = {..<NBUF}"
    and c: "map contents (bufs s') = map contents (bufs s)"
    and e: "slocks s' = slocks s" "memdisk s' = memdisk s" "disksize s' = disksize s"
  shows "cache_rel s' M P H"
proof -
  note r = cache_relD [OF R]
  have len: "length (bufs s) = 31" "length (bufs s') = 31" using r(2) l(1) by (simp_all add: lru_def)
  have x: "contents (bufs s' ! b) = contents (bufs s ! b)" if "b < NBUF" for b
    using arg_cong [OF c, of "\<lambda>xs. xs ! b"] len that by simp
  have ok: "buf_ok k M P h (bufs s' ! b) = buf_ok k M P h (bufs s ! b)" if "b < NBUF" for b k h
    using arg_cong [OF x [OF that], of "buf_ok k M P h"] by (simp add: buf_ok_def)
  have cs: "caches (bufs s') n b = caches (bufs s) n b" for n b
    using arg_cong [OF x, of b bdev] arg_cong [OF x, of b bblockno]
    by (cases "b < NBUF") (simp_all add: caches_def)
  have "on_disk s' = on_disk s" by (simp add: on_disk_def e fun_eq_iff)
  then show ?thesis
    unfolding cache_rel_def cs e using r(3-9) ok l by (simp add: cache_rel_def) blast
qed

lemma brelse_run:
  assumes a: "at_rest c i s" and h: "sl_locked (slocks s (BufSleep b))" and x: "refcnt (bufs s ! b) = 1"
    and l: "lru (bufs s) (us @ b # vs)"
  shows "\<exists>bs. brelse b e s = Ret () e (s\<lparr>procs := map (wake (Some (BufLockChan b))) (procs s),
        slocks := (slocks s)(BufSleep b := (slocks s (BufSleep b))\<lparr>sl_locked := False, sl_pid := 0\<rparr>), bufs := bs\<rparr>)
    \<and> lru bs (b # us @ vs) \<and> map contents bs = map contents ((bufs s)[b := (bufs s ! b)\<lparr>refcnt := 0\<rparr>])"
proof -
  let ?sl = "(slocks s)(BufSleep b := (slocks s (BufSleep b))\<lparr>sl_locked := False, sl_pid := 0\<rparr>)"
  let ?ps = "map (wake (Some (BufLockChan b))) (procs s)"
  let ?L = "s\<lparr>procs := ?ps, slocks := ?sl, cpus := deeper c (cpus s), intr_on := False,
      locks := (locks s)(BCACHE_LOCK := lk_take c (locks s BCACHE_LOCK))\<rparr>"
  define ys where "ys = (bufs s)[b := (bufs s ! b)\<lparr>refcnt := 0\<rparr>]"
  have b: "b < NBUF" "b \<notin> set (us @ vs)" and len: "length (bufs s) = 31"
    using l by (auto simp: lru_def ring_def)
  have y: "refcnt (ys ! b) = 0" "(bufs s)[b := (bufs s ! b)\<lparr>refcnt := 0\<rparr>] = ys"
    using b len by (simp_all add: ys_def)
  have ly: "lru ys (us @ b # vs)" using l by (simp add: ys_def lru_same)
  obtain bs where u: "unlink_buf b e (?L\<lparr>bufs := ys\<rparr>) = Ret () e (?L\<lparr>bufs := bs\<rparr>)" "lru bs (us @ vs)"
    "map contents bs = map contents ys"
    using unlink_buf_run [of "?L\<lparr>bufs := ys\<rparr>" us b vs e] ly by auto
  obtain bs' where f: "link_first b e (?L\<lparr>bufs := bs\<rparr>) = Ret () e (?L\<lparr>bufs := bs'\<rparr>)"
    "lru bs' (b # us @ vs)" "map contents bs' = map contents bs"
    using link_first_run [of "?L\<lparr>bufs := bs\<rparr>" "us @ vs" b e] u b by auto
  have "brelse b e s = Ret () e (s\<lparr>procs := ?ps, slocks := ?sl, bufs := bs'\<rparr>)"
    using at_restD [OF a] h x u(1) f(1) b len a y
    by (simp add: brelse_def holdingsleep_run [OF a] if_run releasesleep_run [OF a] bupd_def
        acquire_run [where c = c] release_section [where c = c and s = s])
  then show ?thesis using f u by (intro exI [of _ bs']) (simp add: ys_def)
qed

lemma brelse_rel:
  assumes a: "at_rest c i s" and R: "cache_rel s M P H" and h: "H b = Some n"
    and clean: "n \<in> P \<or> M n = on_disk s n"
  shows "\<exists>s'. brelse b e s = Ret () e s' \<and> bio_step s s' \<and> cache_rel s' M P (H(b := None))
    \<and> memdisk s' = memdisk s \<and> disk_writes s' = disk_writes s"
proof -
  note r = cache_relD [OF R]
  have ca: "caches (bufs s) n b" using held_caches [OF R h] by simp
  then have b: "b < NBUF" by (simp add: caches_def)
  obtain xs where l: "lru (bufs s) xs" "set xs = {..<NBUF}" using r(1) by blast
  then have "b \<in> set xs" using b by simp
  then obtain us vs where xs: "xs = us @ b # vs" by (auto simp: in_set_conv_decomp)
  define y where "y = (bufs s ! b)\<lparr>refcnt := 0\<rparr>"
  let ?sl = "(slocks s)(BufSleep b := (slocks s (BufSleep b))\<lparr>sl_locked := False, sl_pid := 0\<rparr>)"
  let ?w = "s\<lparr>procs := map (wake (Some (BufLockChan b))) (procs s), slocks := ?sl\<rparr>"
  have "sl_locked (slocks s (BufSleep b))" "refcnt (bufs s ! b) = 1"
    using r(6) [OF b] r(5) [OF b] h by (simp_all add: buf_ok_def)
  then obtain bs where run: "brelse b e s = Ret () e (?w\<lparr>bufs := bs\<rparr>)"
    and bs: "lru bs (b # us @ vs)" "map contents bs = map contents ((bufs s)[b := y])"
    using brelse_run [OF a _ _ l(1) [unfolded xs]] unfolding y_def by blast
  have T: "cache_rel (?w\<lparr>bufs := (bufs s)[b := y]\<rparr>) M P (H(b := None))"
  proof (rule cache_rel_upd [OF R b, where y = y and n = n])
    show "buf_ok (unat (disksize s)) M P None y" using r(5) [OF b] h by (auto simp: buf_ok_def y_def)
    show "b' = b" if "caches (bufs s) n b'" for b' using r(7) that ca by blast
    show "sl_locked (slocks (?w\<lparr>bufs := (bufs s)[b := y]\<rparr>) (BufSleep b')) \<longleftrightarrow> (H(b := None)) b' \<noteq> None"
      if "b' < NBUF" for b' using r(6) [OF that] by simp
    show "M n = on_disk (?w\<lparr>bufs := (bufs s)[b := y]\<rparr>) n" if "n \<notin> P"
      using clean that by (simp add: on_disk_def)
  qed (use ca h in \<open>simp_all add: caches_def y_def on_disk_def\<close>)
  have "cache_rel (?w\<lparr>bufs := bs\<rparr>) M P (H(b := None))"
    by (rule cache_rel_relink [OF T, where xs = "b # us @ vs"]) (use bs l xs in auto)
  moreover have "bio_step s ?w" by (simp add: bio_step_def rest_of_def)
  then have "bio_step s (?w\<lparr>bufs := bs\<rparr>)" by (rule bio_step_trans) simp
  ultimately show ?thesis using run by (intro exI [of _ "?w\<lparr>bufs := bs\<rparr>"]) simp
qed


section \<open>The interface\<close>

text \<open>
  What the log and the file system use of the cache. \<open>rel s M P H\<close> relates the state to the
  blocks \<open>M\<close>, the pinned blocks \<open>P\<close> and the held buffers \<open>H\<close>; \<open>step\<close> is what the cache may
  change of the state; \<open>written\<close> are the writes to the disk so far.
\<close>

locale block_cache =
  fixes idle :: "'s \<Rightarrow> bool" and rel :: "'s \<Rightarrow> (nat \<Rightarrow> u8 list) \<Rightarrow> nat set \<Rightarrow> (nat \<rightharpoonup> nat) \<Rightarrow> bool"
    and step :: "'s \<Rightarrow> 's \<Rightarrow> bool" and nblocks :: "'s \<Rightarrow> u32" and room :: nat
    and disk :: "'s \<Rightarrow> nat \<Rightarrow> u8 list" and written :: "'s \<Rightarrow> (nat \<times> u8 list) list"
    and data :: "'s \<Rightarrow> nat \<Rightarrow> u8 list" and put :: "nat \<Rightarrow> u8 list \<Rightarrow> 's \<Rightarrow> 's"
    and rd :: "u32 \<Rightarrow> ('s, nat) kmon" and wr :: "nat \<Rightarrow> ('s, unit) kmon" and rl :: "nat \<Rightarrow> ('s, unit) kmon"
  assumes step_trans: "step s t \<Longrightarrow> step t u \<Longrightarrow> step s u"
    and step_keeps: "step s t \<Longrightarrow> idle t = idle s \<and> nblocks t = nblocks s"
    and held: "rel s M P H \<Longrightarrow> H b = Some n \<Longrightarrow> data s b = M n \<and> length (M n) = BSIZE"
    and clean: "rel s M P H \<Longrightarrow> n < unat (nblocks s) \<Longrightarrow> n \<notin> P \<Longrightarrow> n \<notin> ran H \<Longrightarrow> M n = disk s n"
    and rd_law: "idle s \<Longrightarrow> rel s M P H \<Longrightarrow> k < nblocks s \<Longrightarrow> unat k \<notin> ran H \<Longrightarrow>
      unat k \<in> P \<or> card (P \<union> ran H) < room \<Longrightarrow>
      \<exists>b t. rd k e s = Ret b e t \<and> step s t \<and> H b = None \<and> rel t M P (H(b \<mapsto> unat k))
        \<and> disk t = disk s \<and> written t = written s"
    and put_law: "rel s M P H \<Longrightarrow> H b = Some n \<Longrightarrow> length d = BSIZE \<Longrightarrow>
      rel (put b d s) (M(n := d)) P H \<and> step s (put b d s) \<and> disk (put b d s) = disk s \<and> written (put b d s) = written s"
    and wr_law: "idle s \<Longrightarrow> rel s M P H \<Longrightarrow> H b = Some n \<Longrightarrow>
      \<exists>t. wr b e s = Ret () e t \<and> step s t \<and> rel t M (P - {n}) H \<and> written t = written s @ [(n, M n)]
        \<and> (\<forall>m<unat (nblocks s). disk t m = (if m = n then M n else disk s m))"
    and rl_law: "idle s \<Longrightarrow> rel s M P H \<Longrightarrow> H b = Some n \<Longrightarrow> n \<in> P \<or> M n = disk s n \<Longrightarrow>
      \<exists>t. rl b e s = Ret () e t \<and> step s t \<and> rel t M P (H(b := None)) \<and> disk t = disk s \<and> written t = written s"
    and in_range: "rel s M P H \<Longrightarrow> H b = Some n \<Longrightarrow> n < unat (nblocks s)"
begin

text \<open>Read a block, replace its contents, write it through and let it go.\<close>

lemma write_through:
  assumes s: "idle s" "rel s M P Map.empty" and n: "n < nblocks s" "unat n \<in> P \<or> card P < room"
    and f: "\<And>d. length d = BSIZE \<Longrightarrow> length (f d) = BSIZE"
  shows "\<exists>t. kbind (rd n) (\<lambda>b. kseq (kmod (\<lambda>s. put b (f (data s b)) s)) (kseq (wr b) (rl b))) e s = Ret () e t
    \<and> step s t \<and> rel t (M(unat n := f (M (unat n)))) (P - {unat n}) Map.empty
    \<and> written t = written s @ [(unat n, f (M (unat n)))]"
proof -
  obtain b s1 where 1: "rd n e s = Ret b e s1" "step s s1" "rel s1 M P [b \<mapsto> unat n]" "written s1 = written s"
    using rd_law [OF s, of n e] n by auto
  let ?d = "f (M (unat n))" and ?M = "M(unat n := f (M (unat n)))"
  have h: "data s1 b = M (unat n)" "length (M (unat n)) = BSIZE" using held [OF 1(3)] by simp_all
  define s2 where "s2 = put b ?d s1"
  have 2: "rel s2 ?M P [b \<mapsto> unat n]" "step s1 s2" "written s2 = written s1"
    using put_law [OF 1(3), of b "unat n" ?d] h f by (simp_all add: s2_def)
  have i2: "idle s2" using s(1) step_keeps 1(2) 2(2) by metis
  obtain s3 where 3: "wr b e s2 = Ret () e s3" "step s2 s3" "rel s3 ?M (P - {unat n}) [b \<mapsto> unat n]"
    "written s3 = written s2 @ [(unat n, ?d)]" "disk s3 (unat n) = ?d"
    using wr_law [OF i2 2(1), of b "unat n" e] in_range [OF 2(1), of b "unat n"] by auto
  have i3: "idle s3" using i2 step_keeps 3(2) by metis
  obtain s4 where 4: "rl b e s3 = Ret () e s4" "step s3 s4" "rel s4 ?M (P - {unat n}) Map.empty" "written s4 = written s3"
    using rl_law [OF i3 3(3), of b "unat n" e] 3(5) by auto
  have "step s s4" using step_trans 1(2) 2(2) 3(2) 4(2) by metis
  then show ?thesis using 1 2 3 4 h by (intro exI [of _ s4]) (simp add: s2_def)
qed

text \<open>Hold two blocks at once.\<close>

lemma hold_two:
  assumes s: "idle s" "rel s M P Map.empty" and x: "x < nblocks s" "card P < room"
    and y: "y < nblocks s" "x \<noteq> y" "unat y \<in> P \<or> card (insert (unat x) P) < room"
  shows "\<exists>a b t. kbind (rd x) (\<lambda>a. kbind (rd y) (f a)) e s = f a b e t \<and> step s t \<and> a \<noteq> b
    \<and> rel t M P [a \<mapsto> unat x, b \<mapsto> unat y] \<and> written t = written s \<and> disk t = disk s"
proof -
  obtain a s1 where 1: "rd x e s = Ret a e s1" "step s s1" "rel s1 M P [a \<mapsto> unat x]" "written s1 = written s" "disk s1 = disk s"
    using rd_law [OF s, of x e] x by auto
  have i1: "idle s1" "nblocks s1 = nblocks s" using step_keeps [OF 1(2)] s(1) by simp_all
  have "unat y \<noteq> unat x" using y(2) by (simp flip: word_unat_eq_iff)
  then obtain b s2 where 2: "rd y e s1 = Ret b e s2" "step s1 s2" "[a \<mapsto> unat x] b = None" "rel s2 M P ([a \<mapsto> unat x](b \<mapsto> unat y))"
    "written s2 = written s1" "disk s2 = disk s1"
    using rd_law [OF i1(1) 1(3), of y e] i1(2) y by auto
  have "step s s2" using step_trans 1(2) 2(2) by metis
  moreover have "a \<noteq> b" using 2(3) by (auto split: if_splits)
  ultimately show ?thesis using 1 2 by (intro exI [of _ a] exI [of _ b] exI [of _ s2]) simp
qed

text \<open>Copy a held block over another one, write that through and let both go.\<close>

lemma copy_held:
  assumes s: "idle s" "rel s M P H" and H: "H = [a \<mapsto> x, b \<mapsto> y]" "a \<noteq> b" "x \<noteq> y"
    and c: "x \<in> P \<or> M x = disk s x"
  shows "\<exists>t. kseq (kmod (\<lambda>s. put b (data s a) s)) (kseq (wr b) (kseq (rl a) (rl b))) e s = Ret () e t
    \<and> step s t \<and> rel t (M(y := M x)) (P - {y}) Map.empty \<and> written t = written s @ [(y, M x)]"
proof -
  let ?M = "M(y := M x)"
  have h: "data s a = M x" "length (M x) = BSIZE" using held [OF s(2), of a x] H by simp_all
  define s2 where "s2 = put b (M x) s"
  have 2: "rel s2 ?M P H" "step s s2" "written s2 = written s" "disk s2 = disk s"
    using put_law [OF s(2), of b y "M x"] H h by (simp_all add: s2_def)
  have i2: "idle s2" using s(1) step_keeps 2(2) by metis
  obtain s3 where 3: "wr b e s2 = Ret () e s3" "step s2 s3" "rel s3 ?M (P - {y}) H"
    "written s3 = written s2 @ [(y, M x)]" "\<And>m. m < unat (nblocks s2) \<Longrightarrow> disk s3 m = (if m = y then M x else disk s2 m)"
    using wr_law [OF i2 2(1), of b y e] H by auto
  have xy: "x < unat (nblocks s2)" "y < unat (nblocks s2)"
    using in_range [OF 2(1), of a x] in_range [OF 2(1), of b y] H by simp_all
  have i3: "idle s3" using i2 step_keeps 3(2) by metis
  have "x \<in> P - {y} \<or> ?M x = disk s3 x" using c H 3(5) [OF xy(1)] 2(4) by auto
  then obtain s4 where 4: "rl a e s3 = Ret () e s4" "step s3 s4" "rel s4 ?M (P - {y}) (H(a := None))" "written s4 = written s3"
    "disk s4 = disk s3"
    using rl_law [OF i3 3(3), of a x e] H by auto
  have i4: "idle s4" using i3 step_keeps 4(2) by metis
  have h4: "H(a := None) = [b \<mapsto> y]" using H by (auto simp: fun_eq_iff)
  obtain s5 where 5: "rl b e s4 = Ret () e s5" "step s4 s5" "rel s5 ?M (P - {y}) Map.empty" "written s5 = written s4"
    using rl_law [OF i4 4(3) [unfolded h4], of b y e] 3(5) [OF xy(2)] 4(5) by auto
  have "step s s5" using step_trans 2(2) 3(2) 4(2) 5(2) by metis
  then show ?thesis using 2 3 4 5 h by (intro exI [of _ s5]) (simp add: s2_def)
qed

end

lemma bread_rel_pinned:
  assumes "at_rest c i s" "cache_rel s M P H" "n < disksize s" "unat n \<notin> ran H" "unat n \<in> P \<or> card (P \<union> ran H) < NBUF"
  shows "\<exists>b t. bread 1 n e s = Ret b e t \<and> bio_step s t \<and> H b = None \<and> cache_rel t M P (H(b \<mapsto> unat n))
    \<and> on_disk t = on_disk s \<and> disk_writes t = disk_writes s"
proof -
  have "\<exists>b s'. bread 1 n e s = Ret b e s' \<and> bread_post s M P H n b s'"
    using bread_hit [OF assms(1,2,4)] bread_rel [OF assms(1-4)] cache_relD(8) [OF assms(2)] assms(5) by blast
  then show ?thesis by (auto simp: bread_post_def on_disk_def fun_eq_iff)
qed

interpretation bc: block_cache "at_rest c i" cache_rel bio_step disksize NBUF on_disk disk_writes
  "\<lambda>s b. bdata (bufs s ! b)" "\<lambda>b d. bupd b (\<lambda>x. x\<lparr>bdata := d\<rparr>)" "bread 1" bwrite brelse for c i
proof (unfold_locales, goal_cases)
  case 1 then show ?case by (rule bio_step_trans)
next
  case 2 then show ?case by (simp add: bio_stepD)
next
  case (3 s M P H b n)
  then show ?case
    using held_caches [OF 3] cache_relD(5) [OF 3(1), of b] by (auto simp: caches_def buf_ok_def)
next
  case 4 then show ?case using cache_relD(9) by blast
next
  case 5 then show ?case by (rule bread_rel_pinned)
next
  case 6 then show ?case
    using set_data_rel by (auto simp: bupd_def on_disk_def fun_eq_iff)
next
  case 7 then show ?case by (rule bwrite_rel)
next
  case (8 s M P H b n e) then show ?case using brelse_rel [OF 8, of e] by (auto simp: on_disk_def fun_eq_iff)
next
  case 9 then show ?case using held_caches by blast
qed


section \<open>Properties\<close>

text \<open>
  C14. Reading a block through the cache, replacing its contents, writing it through and
  letting it go is an update of that one block: the blocks as the kernel sees them change
  there and nowhere else, one write reaches the disk, and nothing stays held. The cache needs
  a free buffer, or the block pinned in it.
\<close>

theorem block_update_refines:
  assumes "at_rest c i s" "cache_rel s M P Map.empty" "n < disksize s" "unat n \<in> P \<or> card P < NBUF"
    and "\<And>d. length d = BSIZE \<Longrightarrow> length (f d) = BSIZE"
  shows "\<exists>t. kbind (bread 1 n) (\<lambda>b. kseq (kmod (\<lambda>s. bupd b (\<lambda>x. x\<lparr>bdata := f (bdata (bufs s ! b))\<rparr>) s))
      (kseq (bwrite b) (brelse b))) e s = Ret () e t
    \<and> bio_step s t \<and> cache_rel t (M(unat n := f (M (unat n)))) (P - {unat n}) Map.empty
    \<and> disk_writes t = disk_writes s @ [(unat n, f (M (unat n)))]"
  using bc.write_through [OF assms(1-4), of f e] assms(5) by simp

text \<open>
  C39. When all 30 buffers are pinned or held, reading a block that is not in the cache
  panics.
\<close>

theorem no_buffer_panics:
  assumes a: "at_rest c i s" and R: "cache_rel s M P H" and full: "card (P \<union> ran H) = NBUF"
    and nc: "\<nexists>b. caches (bufs s) (unat n) b"
  shows "\<exists>t. bread 1 n e s = Panic ''bget: no buffers'' t"
proof -
  note r = cache_relD [OF R]
  note d = at_restD [OF a]
  obtain xs where l: "lru (bufs s) xs" and xs: "set xs = {..<NBUF}" using r(1) by blast
  let ?f = "\<lambda>b. unat (bblockno (bufs s ! b))"
  have used: "refcnt (bufs s ! b) \<noteq> 0 \<or> bflags (bufs s ! b) AND B_DIRTY \<noteq> 0" if b: "b < NBUF" for b
  proof (rule ccontr)
    assume n: "\<not> ?thesis"
    then have h: "H b = None" using r(5) [OF b] by (auto simp: buf_ok_def split: if_splits)
    have "m \<in> ?f ` ({..<NBUF} - {b})" if m: "m \<in> P \<union> ran H" for m
    proof (cases "m \<in> P")
      case True
      then obtain b' where "caches (bufs s) m b'" using r(8) by blast
      moreover then have "b' \<noteq> b" using n r(5) [OF b] True by (auto simp: buf_ok_def caches_def)
      ultimately show ?thesis by (auto simp: caches_def)
    next
      case False
      then obtain b' where b': "H b' = Some m" using m by (auto simp: ran_def)
      moreover have "caches (bufs s) m b'" using held_caches [OF R b'] by simp
      ultimately show ?thesis using h by (auto simp: caches_def)
    qed
    then have "card (P \<union> ran H) \<le> card ({..<NBUF} - {b})"
      by (intro surj_card_le [of _ _ ?f]) auto
    then show False using full b by simp
  qed
  let ?t = "s\<lparr>cpus := deeper c (cpus s), intr_on := False, locks := (locks s)(BCACHE_LOCK := lk_take c (locks s BCACHE_LOCK))\<rparr>"
  have "find (\<lambda>b. bdev (bufs s ! b) = 1 \<and> bblockno (bufs s ! b) = n) xs = None"
    using nc cached_find [OF R l xs, of n]
    by (cases "find (\<lambda>b. bdev (bufs s ! b) = 1 \<and> bblockno (bufs s ! b) = n) xs") auto
  moreover have "find (\<lambda>b. refcnt (bufs s ! b) = 0 \<and> bflags (bufs s ! b) AND B_DIRTY = 0) (rev xs) = None"
    using used xs by (auto simp: find_None_iff)
  ultimately have "walk next_buf (\<lambda>x. bdev x = 1 \<and> bblockno x = n) (next_buf (bufs s ! 30)) e ?t = Ret None e ?t"
    "walk prev (\<lambda>x. refcnt x = 0 \<and> bflags x AND B_DIRTY = 0) (prev (bufs s ! 30)) e ?t = Ret None e ?t"
    using walk_run [of ?t xs] l by simp_all
  then show ?thesis
    using d by (simp add: bread_def bget_def acquire_run [where c = c] kmon_run)
qed

text \<open>
  C38. A buffer that nobody else waits for moves to the front of the list when it is let
  go, and the order of the others stays: the buffer that \<open>bget\<close> recycles first is the one
  unused for the longest time. The contents of the buffers do not change.
\<close>

theorem brelse_moves_to_front:
  assumes "at_rest c i s" "sl_locked (slocks s (BufSleep b))" "refcnt (bufs s ! b) = 1" "lru (bufs s) (us @ b # vs)"
  shows "\<exists>t. brelse b e s = Ret () e t \<and> lru (bufs t) (b # us @ vs) \<and> \<not> sl_locked (slocks t (BufSleep b))
    \<and> map contents (bufs t) = map contents ((bufs s)[b := (bufs s ! b)\<lparr>refcnt := 0\<rparr>])"
  using brelse_run [OF assms, of e] by auto

lemma binit_links:
  assumes B: "\<And>b. body b = kseq (link_first b) (initsleeplock (BufSleep b) nm)"
    and "lru (bufs s) xs" "distinct (bs @ xs)" "set bs \<subseteq> {..<NBUF}"
  shows "\<exists>t. kfor bs body e s = Ret () e t
    \<and> lru (bufs t) (rev bs @ xs) \<and> map contents (bufs t) = map contents (bufs s)
    \<and> memdisk t = memdisk s \<and> disksize t = disksize s
    \<and> (\<forall>l. sl_locked (slocks t l) \<longleftrightarrow> sl_locked (slocks s l) \<and> l \<notin> BufSleep ` set bs)"
  using assms(2-)
proof (induction bs arbitrary: s xs)
  case (Cons b bs)
  obtain bf where f: "link_first b e s = Ret () e (s\<lparr>bufs := bf\<rparr>)" "lru bf (b # xs)"
    "map contents bf = map contents (bufs s)"
    using link_first_run [OF Cons.prems(1), of b e] Cons.prems by auto
  define u where "u = sl_upd (BufSleep b) (\<lambda>_. \<lparr>sl_locked = False, sl_name = nm, sl_pid = 0\<rparr>)
     (s\<lparr>bufs := bf, locks := (locks s)(BUF_LOCK b := \<lparr>lk_locked = False, lk_name = ''sleep lock'', lk_cpu = None\<rparr>)\<rparr>)"
  have run: "body b e s = Ret () e u"
    using f by (simp add: B initsleeplock_def initlock_def u_def)
  have u: "bufs u = bf" "memdisk u = memdisk s" "disksize u = disksize s"
    "\<And>l. sl_locked (slocks u l) \<longleftrightarrow> sl_locked (slocks s l) \<and> l \<noteq> BufSleep b"
    by (simp_all add: u_def sl_upd_def)
  obtain t where "kfor bs body e u = Ret () e t
    \<and> lru (bufs t) (rev bs @ b # xs) \<and> map contents (bufs t) = map contents bf
    \<and> memdisk t = memdisk u \<and> disksize t = disksize u
    \<and> (\<forall>l. sl_locked (slocks t l) \<longleftrightarrow> sl_locked (slocks u l) \<and> l \<notin> BufSleep ` set bs)"
    using Cons.IH [of u "b # xs"] Cons.prems f(2) u(1) by auto
  then show ?case using run u f(3) by (intro exI [of _ t]) auto
qed simp

text \<open>
  After \<open>binit\<close> the cache is empty and ready: it links all 30 buffers into the list,
  unlocks them, and shows every block as it is on the disk, with none pinned and none held.
\<close>

lemma binit_empty_cache:
  assumes n: "length (bufs s) = NBUF + 1" and d: "length (memdisk s) = unat (disksize s) * BSIZE"
    and z: "\<And>b. b < NBUF \<Longrightarrow> bdev (bufs s ! b) = 0 \<and> bflags (bufs s ! b) = 0 \<and> refcnt (bufs s ! b) = 0
      \<and> length (bdata (bufs s ! b)) = BSIZE"
  shows "\<exists>t. binit e s = Ret () e t \<and> cache_rel t (on_disk t) {} Map.empty \<and> memdisk t = memdisk s"
proof -
  let ?p = "(bufs s ! head)\<lparr>prev := head, next_buf := head\<rparr>"
  define u where "u = s\<lparr>locks := (locks s)(BCACHE_LOCK := \<lparr>lk_locked = False, lk_name = ''bcache'', lk_cpu = None\<rparr>),
    bufs := (bufs s)[head := ?p]\<rparr>"
  have u: "lru (bufs u) []" using n by (simp add: u_def lru_def ring_def nxt_def prv_def)
  have mc: "map contents (bufs u) = map contents (bufs s)" by (simp add: u_def map_contents_upd)
  obtain t where t: "kfor bslots (\<lambda>b. kseq (link_first b) (initsleeplock (BufSleep b) ''buffer'')) e u = Ret () e t"
    "lru (bufs t) (rev bslots)" "map contents (bufs t) = map contents (bufs u)"
    "memdisk t = memdisk u" "disksize t = disksize u"
    "\<And>l. sl_locked (slocks t l) \<longleftrightarrow> sl_locked (slocks u l) \<and> l \<notin> BufSleep ` set bslots"
    using binit_links [OF refl u, of bslots "''buffer''" e] by (auto simp: bslots_def atLeast0LessThan)
  have run: "binit e s = Ret () e t"
    using n t(1) by (simp add: binit_def initlock_def bupd_def u_def)
  have len: "length (bufs t) = 31" using t(2) by (simp add: lru_def)
  have x: "contents (bufs t ! b) = contents (bufs s ! b)" if "b < NBUF" for b
    using arg_cong [OF t(3) [unfolded mc], of "\<lambda>xs. xs ! b"] len n that by simp
  have y: "bdev (bufs t ! b) = 0 \<and> bflags (bufs t ! b) = 0 \<and> refcnt (bufs t ! b) = 0 \<and> length (bdata (bufs t ! b)) = BSIZE"
    if "b < NBUF" for b
    using z [OF that] arg_cong [OF x [OF that], of bdev] arg_cong [OF x [OF that], of bflags]
      arg_cong [OF x [OF that], of refcnt] arg_cong [OF x [OF that], of bdata] by simp
  have "\<not> caches (bufs t) m b" for m b using y [of b] by (auto simp: caches_def)
  moreover have "set (rev bslots) = {..<NBUF}" by (auto simp: bslots_def)
  moreover have "memdisk t = memdisk s" "disksize t = disksize s" using t(4,5) by (simp_all add: u_def)
  moreover have "\<not> sl_locked (slocks t (BufSleep b))" if "b < NBUF" for b
    using t(6) [of "BufSleep b"] that by (auto simp: bslots_def)
  ultimately show ?thesis
    using run t(2) y d unfolding cache_rel_def buf_ok_def by (intro exI [of _ t]) auto
qed


section \<open>Instances\<close>

text \<open>
  The two processes again, with a disk of 40 blocks of zeros and the buffers \<open>f\<close>, linked in
  the order of \<open>binit\<close>.
\<close>

definition zeros :: "u8 list" where
  "zeros = replicate BSIZE 0"

definition blank :: buf where
  "blank = \<lparr>bflags = 0, bdev = 0, bblockno = 0, refcnt = 0, prev = 0, next_buf = 0, bdata = zeros\<rparr>"

definition linked :: "(nat \<Rightarrow> buf) \<Rightarrow> buf list" where
  "linked f = map (\<lambda>b. (f b)\<lparr>prev := (if b = head then 0 else b + 1), next_buf := (if b = 0 then head else b - 1)\<rparr>) [0..<31]"

definition boot :: "(nat \<Rightarrow> buf) \<Rightarrow> nat set \<Rightarrow> bcache" where
  "boot f H = sltable.extend (ptable.extend (two_procs\<lparr>cpus := [one_cpu\<lparr>cproc := Some 0\<rparr>]\<rparr>)
       \<lparr>slocks = (\<lambda>l. \<lparr>sl_locked = l \<in> BufSleep ` H, sl_name = [], sl_pid = 0\<rparr>)\<rparr>)
     \<lparr>bufs = linked f, memdisk = replicate (40 * BSIZE) 0, disksize = 40, disk_writes = []\<rparr>"

lemma boot_facts [simp]:
  "bufs (boot f H) = linked f" "memdisk (boot f H) = replicate (40 * BSIZE) 0" "disksize (boot f H) = 40"
  "disk_writes (boot f H) = []" "sl_locked (slocks (boot f H) (BufSleep b)) \<longleftrightarrow> b \<in> H"
  by (auto simp: boot_def ptable.defs sltable.defs)

lemma boot_at_rest: "at_rest 0 0 (boot f H)"
  by (simp add: at_rest_def boot_def ptable.defs sltable.defs two_procs_cpu lk_free_def)
     (simp add: two_procs_simps cpu_ok_def cpu_if_def)

lemma linked_lru: "lru (linked f) (rev bslots)"
proof -
  have nx: "nxt (linked f) b = (if b < 31 then (if b = 0 then head else b - 1) else 0)"
    "prv (linked f) b = (if b < 31 then (if b = head then 0 else b + 1) else 0)" for b
    by (auto simp: nxt_def prv_def linked_def)
  have "links (nxt (linked f)) (prv (linked f)) k (rev [0..<k]) head" if "k \<le> 30" for k
    using that
  proof (induction k)
    case (Suc k)
    then show ?case by (simp add: nx)
  qed (simp add: nx)
  from this [of 30] show ?thesis
    by (auto simp: lru_def ring_def bslots_def linked_def simp del: upt_rec_numeral)
qed

lemma boot_rel:
  assumes ok: "\<And>b. b < NBUF \<Longrightarrow> buf_ok 40 M P (H b) (f b)" and d: "dom H \<subseteq> {..<NBUF}"
    and u: "\<And>a b. a < NBUF \<Longrightarrow> b < NBUF \<Longrightarrow> bdev (f a) = 1 \<Longrightarrow> bdev (f b) = 1 \<Longrightarrow> bblockno (f a) = bblockno (f b) \<Longrightarrow> a = b"
    and P: "\<And>n. n \<in> P \<Longrightarrow> \<exists>b<NBUF. bdev (f b) = 1 \<and> unat (bblockno (f b)) = n"
    and M: "\<And>n. n < 40 \<Longrightarrow> n \<notin> P \<Longrightarrow> n \<notin> ran H \<Longrightarrow> M n = zeros"
  shows "cache_rel (boot f (dom H)) M P H"
proof -
  have x: "linked f ! b = (f b)\<lparr>prev := b + 1, next_buf := (if b = 0 then head else b - 1)\<rparr>" if "b < NBUF" for b
    using that by (simp add: linked_def del: upt_rec_numeral)
  have c: "caches (linked f) n b \<longleftrightarrow> b < NBUF \<and> bdev (f b) = 1 \<and> unat (bblockno (f b)) = n" for n b
    by (auto simp: caches_def x)
  have "buf_ok 40 M P (H b) (linked f ! b)" if "b < NBUF" for b
    using ok [OF that] by (simp add: x that buf_ok_def)
  moreover have "on_disk (boot f (dom H)) n = zeros" if "n < 40" for n
    using that by (simp add: on_disk_def part_def zeros_def min_def)
  moreover have "set (rev bslots) = {..<NBUF}" by (auto simp: bslots_def)
  moreover have "\<forall>n\<in>P. \<exists>b. caches (linked f) n b"
    using P by (force simp: c intro: exI [of "caches (linked f) n" for n])
  moreover have "\<forall>n b b'. caches (linked f) n b \<and> caches (linked f) n b' \<longrightarrow> b = b'"
    using u by (auto simp: c simp flip: word_unat_eq_iff)
  ultimately show ?thesis
    using linked_lru [of f] d M unfolding cache_rel_def boot_facts by simp fastforce
qed

lemmas boot_free = boot_rel [where H = Map.empty, simplified dom_empty ran_empty]

theorem block_update_refines_witness:
  "\<exists>t. kbind (bread 1 7) (\<lambda>b. kseq (kmod (\<lambda>s. bupd b (\<lambda>x. x\<lparr>bdata := rev (bdata (bufs s ! b))\<rparr>) s))
      (kseq (bwrite b) (brelse b))) [] (boot (\<lambda>_. blank) {}) = Ret () [] t
    \<and> disk_writes t = [(7, rev zeros)]"
proof -
  have "cache_rel (boot (\<lambda>_. blank) {}) (\<lambda>_. zeros) {} Map.empty"
    by (rule boot_free) (simp_all add: buf_ok_def blank_def zeros_def)
  then show ?thesis
    using block_update_refines [OF boot_at_rest, of "\<lambda>_. blank" "{}" "\<lambda>_. zeros" "{}" 7 rev "[]"] by auto
qed

theorem no_buffer_panics_witness:
  "\<exists>t. bread 1 35 [] (boot (\<lambda>b. blank\<lparr>bflags := 6, bdev := 1, bblockno := of_nat b\<rparr>) {}) = Panic ''bget: no buffers'' t"
proof -
  let ?f = "\<lambda>b. blank\<lparr>bflags := 6, bdev := 1, bblockno := of_nat b\<rparr>"
  have "cache_rel (boot ?f {}) (\<lambda>_. zeros) {..<NBUF} Map.empty"
    by (rule boot_free) (auto simp: buf_ok_def blank_def zeros_def unat_of_nat word_unat_eq_iff)
  moreover have "\<not> caches (linked ?f) 35 b" for b
    by (auto simp: caches_def linked_def unat_of_nat simp del: upt_rec_numeral)
  ultimately show ?thesis
    using no_buffer_panics [OF boot_at_rest, of ?f "{}" "\<lambda>_. zeros" "{..<NBUF}" Map.empty 35 "[]"] by simp
qed

theorem brelse_moves_to_front_witness:
  "\<exists>t. brelse 5 [] (boot (\<lambda>b. blank\<lparr>refcnt := 1\<rparr>) {5}) = Ret () [] t
    \<and> lru (bufs t) (5 # rev [6..<30] @ rev [0..<5])"
proof -
  have "[0..<NBUF] = [0..<5] @ 5 # [6..<NBUF]" by (simp add: upt_rec)
  then have "rev bslots = rev [6..<30] @ 5 # rev [0..<5]"
    unfolding bslots_def by (simp del: upt_rec_numeral)
  then have "lru (linked (\<lambda>b. blank\<lparr>refcnt := 1\<rparr>)) (rev [6..<30] @ 5 # rev [0..<5])"
    using linked_lru [of "\<lambda>b. blank\<lparr>refcnt := 1\<rparr>"] by (simp del: upt_rec_numeral)
  moreover have "refcnt (linked (\<lambda>b. blank\<lparr>refcnt := 1\<rparr>) ! 5) = 1" by (simp add: linked_def del: upt_rec_numeral)
  ultimately show ?thesis
    using brelse_moves_to_front [OF boot_at_rest, of "\<lambda>b. blank\<lparr>refcnt := 1\<rparr>" "{5}" 5 "rev [6..<30]" "rev [0..<5]" "[]"]
    by (auto simp del: upt_rec_numeral)
qed

end
