(* ===== verification/Log.thy ===== *)
theory Log
  imports Bio
begin

text \<open>
  The write-ahead log (\<^verbatim>\<open>log.c\<close>), through which every system call that changes the file system
  writes its blocks.
\<close>

section \<open>State\<close>

abbreviation (input) MAXOPBLOCKS :: int where "MAXOPBLOCKS \<equiv> 10"
abbreviation (input) LOGSIZE :: nat where "LOGSIZE \<equiv> 30"

text \<open>\<open>struct log\<close>; \<open>lh_n\<close> and \<open>lh_block\<close> are its \<open>struct logheader\<close>.\<close>

record log = bcache +
  log_start :: u32
  log_size :: int
  outstanding :: int
  committing :: bool
  log_dev :: u32
  lh_n :: int
  lh_block :: "u32 list"

text \<open>The superblock (\<^verbatim>\<open>fs.h\<close>) and how it lies in a block.\<close>

record superblock =
  sb_size :: u32
  sb_nblocks :: u32
  sb_ninodes :: u32
  sb_nlog :: u32
  sb_logstart :: u32
  sb_inodestart :: u32
  sb_bmapstart :: u32

definition superblock_of :: "u8 list \<Rightarrow> superblock" where
  "superblock_of d = \<lparr>sb_size = get32 d 0, sb_nblocks = get32 d 4, sb_ninodes = get32 d 8, sb_nlog = get32 d 12,
     sb_logstart = get32 d 16, sb_inodestart = get32 d 20, sb_bmapstart = get32 d 24\<rparr>"

text \<open>\<open>readsb\<close> of \<^verbatim>\<open>fs.c\<close>, which the log uses as well.\<close>

definition readsb :: "u32 \<Rightarrow> ('a bcache_scheme, superblock) kmon" where
  "readsb dev = kbind (bread dev 1) (\<lambda>bp.
     kbind (bfield bp (\<lambda>x. superblock_of (bdata x))) (\<lambda>sb.
     kseq (brelse bp)
     (kreturn sb)))"

section \<open>Operations\<close>

text \<open>
  An access beyond the end of an array is undefined in C; the model stops there.
\<close>

definition kundefined :: "('s, 'a) kmon" where
  "kundefined = kpanic ''undefined behaviour''"

definition read_head :: "('a log_scheme, unit) kmon" where
  "read_head = kbind (kget log_dev) (\<lambda>dev. kbind (kget log_start) (\<lambda>start.
     kbind (bread dev start) (\<lambda>b.
     kbind (bfield b bdata) (\<lambda>d.
     (let n = sint (get32 d 0) in
      kseq (kmod (\<lambda>s. s\<lparr>lh_n := n\<rparr>))
      (if n > int LOGSIZE then kundefined
       else
         kseq (kmod (\<lambda>s. s\<lparr>lh_block := get_words d 4 (nat n) @ drop (nat n) (lh_block s)\<rparr>))
         (brelse b)))))))"

definition write_head :: "('a log_scheme, unit) kmon" where
  "write_head = kbind (kget log_dev) (\<lambda>dev. kbind (kget log_start) (\<lambda>start.
     kbind (bread dev start) (\<lambda>b.
     kbind (kget lh_n) (\<lambda>n.
     kbind (kget lh_block) (\<lambda>bl.
     kseq (kmod (bupd b (\<lambda>x. x\<lparr>bdata := put32 0 (of_int n) (bdata x)\<rparr>)))
     (kseq (kmod (bupd b (\<lambda>x. x\<lparr>bdata := put_words 4 (take (nat n) bl) (bdata x)\<rparr>)))
     (kseq (bwrite b)
     (brelse b))))))))"

definition install_trans :: "('a log_scheme, unit) kmon" where
  "install_trans = kbind (kget lh_n) (\<lambda>n.
     kfor [0..<nat n] (\<lambda>tail.
       kbind (kget log_dev) (\<lambda>dev. kbind (kget log_start) (\<lambda>start. kbind (kget lh_block) (\<lambda>bl.
       kbind (bread dev (start + of_nat tail + 1)) (\<lambda>lbuf.
       kbind (bread dev (bl ! tail)) (\<lambda>dbuf.
       kseq (kmod (\<lambda>s. bupd dbuf (\<lambda>x. x\<lparr>bdata := bdata (bufs s ! lbuf)\<rparr>) s))
       (kseq (bwrite dbuf)
       (kseq (brelse lbuf)
       (brelse dbuf))))))))))"

definition write_log :: "('a log_scheme, unit) kmon" where
  "write_log = kbind (kget lh_n) (\<lambda>n.
     kfor [0..<nat n] (\<lambda>tail.
       kbind (kget log_dev) (\<lambda>dev. kbind (kget log_start) (\<lambda>start. kbind (kget lh_block) (\<lambda>bl.
       kbind (bread dev (start + of_nat tail + 1)) (\<lambda>to.
       kbind (bread dev (bl ! tail)) (\<lambda>from.
       kseq (kmod (\<lambda>s. bupd to (\<lambda>x. x\<lparr>bdata := bdata (bufs s ! from)\<rparr>) s))
       (kseq (bwrite to)
       (kseq (brelse from)
       (brelse to))))))))))"

definition recover_from_log :: "('a log_scheme, unit) kmon" where
  "recover_from_log =
     kseq read_head
     (kseq install_trans
     (kseq (kmod (\<lambda>s. s\<lparr>lh_n := 0\<rparr>))
     write_head))"

text \<open>The header of 124 bytes fits into a block, so the check of \<open>initlog\<close> passes.\<close>

definition initlog :: "u32 \<Rightarrow> ('a log_scheme, unit) kmon" where
  "initlog dev =
     (if 4 + 4 * LOGSIZE \<ge> BSIZE then kpanic ''initlog: too big logheader''
      else
        kseq (initlock LOG_LOCK ''log'')
        (kbind (readsb dev) (\<lambda>sb.
         kseq (kmod (\<lambda>s. s\<lparr>log_start := sb_logstart sb, log_size := sint (sb_nlog sb), log_dev := dev\<rparr>))
         recover_from_log)))"

definition begin_op :: "('a log_scheme, unit) kmon" where
  "begin_op =
     kseq (acquire LOG_LOCK)
     (kloop (kbind (kget committing) (\<lambda>busy.
        kbind (kget lh_n) (\<lambda>n. kbind (kget outstanding) (\<lambda>k.
        if busy then kseq (sleep (Some LogChan) (Some LOG_LOCK)) (kreturn None)
        else if n + (k + 1) * MAXOPBLOCKS > int LOGSIZE then
          kseq (sleep (Some LogChan) (Some LOG_LOCK)) (kreturn None)
        else
          kseq (kmod (\<lambda>s. s\<lparr>outstanding := outstanding s + 1\<rparr>))
          (kseq (release LOG_LOCK)
          (kreturn (Some ()))))))))"

definition commit :: "('a log_scheme, unit) kmon" where
  "commit = kbind (kget lh_n) (\<lambda>n.
     kwhen (n > 0)
       (kseq write_log
       (kseq write_head
       (kseq install_trans
       (kseq (kmod (\<lambda>s. s\<lparr>lh_n := 0\<rparr>))
       write_head)))))"

definition end_op :: "('a log_scheme, unit) kmon" where
  "end_op =
     kseq (acquire LOG_LOCK)
     (kseq (kmod (\<lambda>s. s\<lparr>outstanding := outstanding s - 1\<rparr>))
     (kbind (kget committing) (\<lambda>busy.
      if busy then kpanic ''log.committing''
      else kbind (kget outstanding) (\<lambda>k.
        kseq (if k = 0 then kmod (\<lambda>s. s\<lparr>committing := True\<rparr>) else wakeup (Some LogChan))
        (kseq (release LOG_LOCK)
        (kwhen (k = 0)
          (kseq commit
          (kseq (acquire LOG_LOCK)
          (kseq (kmod (\<lambda>s. s\<lparr>committing := False\<rparr>))
          (kseq (wakeup (Some LogChan))
          (release LOG_LOCK)))))))))))"

text \<open>The loop of \<open>log_write\<close>: the first entry with the block's number, else the first unused one.\<close>

definition log_slot :: "u32 list \<Rightarrow> int \<Rightarrow> u32 \<Rightarrow> nat" where
  "log_slot bl n b = (case find (\<lambda>i. bl ! i = b) [0..<nat n] of Some i \<Rightarrow> i | None \<Rightarrow> nat n)"

definition log_write :: "nat \<Rightarrow> ('a log_scheme, unit) kmon" where
  "log_write b = kbind (kget lh_n) (\<lambda>n. kbind (kget log_size) (\<lambda>size.
     if n \<ge> int LOGSIZE \<or> n \<ge> size - 1 then kpanic ''too big a transaction''
     else kbind (kget outstanding) (\<lambda>k.
       if k < 1 then kpanic ''log_write outside of trans''
       else
         kseq (acquire LOG_LOCK)
         (kbind (bfield b bblockno) (\<lambda>bn.
          kbind (kget (\<lambda>s. log_slot (lh_block s) (lh_n s) bn)) (\<lambda>i.
          kseq (kmod (\<lambda>s. s\<lparr>lh_block := (lh_block s)[i := bn]\<rparr>))
          (kseq (kmod (\<lambda>s. s\<lparr>lh_n := (if int i = lh_n s then lh_n s + 1 else lh_n s)\<rparr>))
          (kseq (kmod (bupd b (\<lambda>x. x\<lparr>bflags := bflags x OR B_DIRTY\<rparr>)))
          (release LOG_LOCK)))))))))"


section \<open>The blocks and the log\<close>

text \<open>
  The effect of a sequence of block writes, and the writes of the parts of a commit, for a
  log that starts at block \<open>L\<close> and the block numbers \<open>bl\<close>.
\<close>

definition apply_writes :: "(nat \<times> u8 list) list \<Rightarrow> (nat \<Rightarrow> u8 list) \<Rightarrow> nat \<Rightarrow> u8 list" where
  "apply_writes ws M = fold (\<lambda>(n, d) M. M(n := d)) ws M"

definition header :: "u32 list \<Rightarrow> u8 list \<Rightarrow> u8 list" where
  "header bl d = put_words 4 bl (put32 0 (of_nat (length bl)) d)"

definition log_writes :: "nat \<Rightarrow> nat list \<Rightarrow> (nat \<Rightarrow> u8 list) \<Rightarrow> (nat \<times> u8 list) list" where
  "log_writes L bs M = map (\<lambda>i. (L + 1 + i, M (bs ! i))) [0..<length bs]"

definition home_writes :: "nat \<Rightarrow> nat list \<Rightarrow> (nat \<Rightarrow> u8 list) \<Rightarrow> (nat \<times> u8 list) list" where
  "home_writes L bs M = map (\<lambda>i. (bs ! i, M (L + 1 + i))) [0..<length bs]"

lemma apply_writes_simps [simp]:
  "apply_writes [] M = M" "apply_writes (ws @ vs) M = apply_writes vs (apply_writes ws M)"
  "apply_writes ((n, d) # ws) M = apply_writes ws (M(n := d))"
  by (simp_all add: apply_writes_def)

lemma apply_writes_other: "n \<notin> fst ` set ws \<Longrightarrow> apply_writes ws M n = M n"
  by (induction ws arbitrary: M) (auto simp: apply_writes_def)

lemma apply_writes_at: "distinct (map fst ws) \<Longrightarrow> (n, d) \<in> set ws \<Longrightarrow> apply_writes ws M n = d"
proof (induction ws rule: rev_induct)
  case (snoc w ws)
  then show ?case by (cases w) (auto simp: apply_writes_other rev_image_eqI)
qed simp

lemma bio_step_log:
  assumes "bio_step s t"
  shows "log_dev t = log_dev s" "log_start t = log_start s" "lh_n t = lh_n s" "lh_block t = lh_block s"
    "log_size t = log_size s" "outstanding t = outstanding s" "committing t = committing s"
proof -
  have r: "rest_of t = rest_of s" using assms by (simp add: bio_step_def)
  show "log_dev t = log_dev s" using arg_cong [OF r, of log_dev] by (simp add: rest_of_def)
  show "log_start t = log_start s" using arg_cong [OF r, of log_start] by (simp add: rest_of_def)
  show "lh_n t = lh_n s" using arg_cong [OF r, of lh_n] by (simp add: rest_of_def)
  show "lh_block t = lh_block s" using arg_cong [OF r, of lh_block] by (simp add: rest_of_def)
  show "log_size t = log_size s" using arg_cong [OF r, of log_size] by (simp add: rest_of_def)
  show "outstanding t = outstanding s" using arg_cong [OF r, of outstanding] by (simp add: rest_of_def)
  show "committing t = committing s" using arg_cong [OF r, of committing] by (simp add: rest_of_def)
qed

text \<open>
  The log as the commit finds it: the header lists the distinct blocks \<open>bs\<close>, which lie on
  the disk and outside of the log.
\<close>

definition log_ok :: "'a log_scheme \<Rightarrow> nat list \<Rightarrow> bool" where
  "log_ok s bs \<longleftrightarrow> log_dev s = 1 \<and> lh_n s = int (length bs) \<and> length bs < LOGSIZE \<and> length (lh_block s) = LOGSIZE
     \<and> bs = map unat (take (length bs) (lh_block s)) \<and> distinct bs
     \<and> unat (log_start s) + LOGSIZE \<le> unat (disksize s)
     \<and> (\<forall>b\<in>set bs. b < unat (disksize s) \<and> b \<notin> {unat (log_start s)..<unat (log_start s) + LOGSIZE})"

abbreviation (input) log_area :: "'a log_scheme \<Rightarrow> nat set" where
  "log_area s \<equiv> {unat (log_start s)..<unat (log_start s) + LOGSIZE}"

lemma log_ok_step: "bio_step s t \<Longrightarrow> log_ok t bs = log_ok s bs"
  by (simp add: log_ok_def bio_step_log bio_stepD)

lemma log_ok_nth:
  assumes "log_ok s bs" "i < length bs"
  shows "unat (lh_block s ! i) = bs ! i" "bs ! i < unat (disksize s)" "lh_block s ! i < disksize s"
    "unat (log_start s + of_nat i + 1) = unat (log_start s) + 1 + i" "log_start s + of_nat i + 1 < disksize s"
    "bs ! i \<noteq> unat (log_start s) + 1 + j \<or> 29 \<le> j" "i < 29"
proof -
  note l = assms [unfolded log_ok_def]
  show a: "unat (lh_block s ! i) = bs ! i" using l by (metis length_take min_less_iff_conj nth_map nth_take length_map)
  have b: "bs ! i \<in> set bs" using l by simp
  then show c: "bs ! i < unat (disksize s)" "bs ! i \<noteq> unat (log_start s) + 1 + j \<or> 29 \<le> j" using l by force+
  show "lh_block s ! i < disksize s" using a c by (simp add: word_less_nat_alt)
  have "unat (disksize s) < 2 ^ 32" using unsigned_less [of "disksize s"] by simp
  moreover have "unat (log_start s) + 30 \<le> unat (disksize s)" "length bs < 30" using l by simp_all
  ultimately have "unat (log_start s) + 1 + i < 2 ^ 32" using assms(2) by linarith
  moreover have "unat (of_nat m :: u32) = m" if "m < 2 ^ 32" for m using that by (simp add: unat_of_nat)
  ultimately have "unat (of_nat (unat (log_start s) + 1 + i) :: u32) = unat (log_start s) + 1 + i" by blast
  moreover have "(of_nat (unat (log_start s) + 1 + i) :: u32) = log_start s + of_nat i + 1" by (simp add: ac_simps)
  ultimately show d: "unat (log_start s + of_nat i + 1) = unat (log_start s) + 1 + i" by metis
  show "log_start s + of_nat i + 1 < disksize s" using l by (simp add: word_less_nat_alt d)
  show "i < 29" using l by simp
qed


lemma log_writes_take:
  assumes "k < length bs"
  shows "log_writes L (take (Suc k) bs) M = log_writes L (take k bs) M @ [(L + 1 + k, M (bs ! k))]"
    and "home_writes L (take (Suc k) bs) M = home_writes L (take k bs) M @ [(bs ! k, M (L + 1 + k))]"
proof -
  have "min (length bs) (Suc k) = Suc k" "min (length bs) k = k" using assms by simp_all
  then show "log_writes L (take (Suc k) bs) M = log_writes L (take k bs) M @ [(L + 1 + k, M (bs ! k))]"
    "home_writes L (take (Suc k) bs) M = home_writes L (take k bs) M @ [(bs ! k, M (L + 1 + k))]"
    by (simp_all add: log_writes_def home_writes_def)
qed

lemma writes_fst [simp]:
  "fst ` set (log_writes L bs M) = {L + 1..<L + 1 + length bs}" "fst ` set (home_writes L bs M) = set bs"
proof -
  show "fst ` set (log_writes L bs M) = {L + 1..<L + 1 + length bs}"
    using image_add_atLeastLessThan [of "L + 1" 0 "length bs"] by (simp add: log_writes_def image_image add.commute)
  show "fst ` set (home_writes L bs M) = set bs"
    by (force simp: home_writes_def image_iff in_set_conv_nth)
qed

lemma write_log_run:
  assumes a: "at_rest c i s" and l: "log_ok s bs" and R: "cache_rel s M (set bs) Map.empty"
  shows "\<exists>t. write_log e s = Ret () e t \<and> bio_step s t
    \<and> cache_rel t (apply_writes (log_writes (unat (log_start s)) bs M) M) (set bs) Map.empty
    \<and> disk_writes t = disk_writes s @ log_writes (unat (log_start s)) bs M"
proof -
  let ?L = "unat (log_start s)" and ?n = "length bs"
  let ?W = "\<lambda>k. log_writes ?L (take k bs) M"
  define I where "I k t \<longleftrightarrow> bio_step s t \<and> cache_rel t (apply_writes (?W k) M) (set bs) Map.empty
    \<and> disk_writes t = disk_writes s @ ?W k" for k and t :: "'a log_scheme"
  define body :: "nat \<Rightarrow> ('a log_scheme, unit) kmon" where "body = (\<lambda>tail.
       kbind (kget log_dev) (\<lambda>dev. kbind (kget log_start) (\<lambda>start. kbind (kget lh_block) (\<lambda>bl.
       kbind (bread dev (start + of_nat tail + 1)) (\<lambda>to.
       kbind (bread dev (bl ! tail)) (\<lambda>from.
       kseq (kmod (\<lambda>s. bupd to (\<lambda>x. x\<lparr>bdata := bdata (bufs s ! from)\<rparr>) s))
       (kseq (bwrite to)
       (kseq (brelse from)
       (brelse to)))))))))"
  have card: "card (set bs) < 30" using l card_length [of bs] by (simp add: log_ok_def)
  have "\<exists>u. body k e t = Ret () e u \<and> I (Suc k) u" if k: "k < ?n" and "I k t" for k t
  proof -
    let ?M = "apply_writes (?W k) M"
    have st: "bio_step s t" and Rt: "cache_rel t ?M (set bs) Map.empty" and w: "disk_writes t = disk_writes s @ ?W k"
      using \<open>I k t\<close> by (simp_all add: I_def)
    note n = log_ok_nth [OF l k]
    note eq = bio_step_log [OF st] bio_stepD(2) [OF st]
    have at: "at_rest c i t" using a by (simp add: bio_stepD [OF st])
    have dev: "log_dev t = 1" using l eq by (simp add: log_ok_def)
    have ne: "log_start s + of_nat k + 1 \<noteq> lh_block s ! k" using n(1) n(4) n(6) [of k] n(7) by auto
    have pin: "unat (lh_block s ! k) \<in> set bs" using n(1) k by simp
    let ?F = "\<lambda>to from. kseq (kmod (\<lambda>s. bupd to (\<lambda>x. x\<lparr>bdata := bdata (bufs s ! from)\<rparr>) s))
       (kseq (bwrite to) (kseq (brelse from) (brelse to)))"
    obtain x y u where u: "kbind (bread 1 (log_start s + of_nat k + 1)) (\<lambda>a. kbind (bread 1 (lh_block s ! k)) (?F a)) e t = ?F x y e u"
      "bio_step t u" "x \<noteq> y" "cache_rel u ?M (set bs) [x \<mapsto> ?L + 1 + k, y \<mapsto> bs ! k]" "disk_writes u = disk_writes t"
      using bc.hold_two [OF at Rt, of "log_start s + of_nat k + 1" "lh_block s ! k" ?F e] n eq card ne pin by auto
    have au: "at_rest c i u" using at by (simp add: bio_stepD [OF u(2)])
    have h: "[x \<mapsto> ?L + 1 + k, y \<mapsto> bs ! k] = [y \<mapsto> bs ! k, x \<mapsto> ?L + 1 + k]" using u(3) by (simp add: fun_upd_twist)
    have d: "bs ! k \<noteq> ?L + 1 + k" using n(6) [of k] n(7) by simp
    obtain v where v: "?F x y e u = Ret () e v" "bio_step u v"
      "cache_rel v (?M(?L + 1 + k := ?M (bs ! k))) (set bs - {?L + 1 + k}) Map.empty"
      "disk_writes v = disk_writes u @ [(?L + 1 + k, ?M (bs ! k))]"
      using bc.copy_held [OF au u(4) h u(3) [symmetric] d, of e] pin n(1) by auto
    have m: "?M (bs ! k) = M (bs ! k)"
      by (rule apply_writes_other) (use n(6) [of "bs ! k - Suc ?L"] k n(7) in auto)
    have "?L + 1 + k \<notin> set bs" using log_ok_nth(6) [OF l] n(7) by (metis in_set_conv_nth not_le)
    then have "I (Suc k) v"
      using v(3,4) u(5) w bio_step_trans [OF st bio_step_trans [OF u(2) v(2)]]
      unfolding I_def log_writes_take(1) [OF k] by (simp add: m)
    moreover have "body k e t = Ret () e v" using u(1) v(1) dev eq by (simp add: body_def)
    ultimately show ?thesis by blast
  qed
  then obtain t where "kfor [0..<?n] body e s = Ret () e t" "I ?n t"
    using kfor_upto [of ?n I body e s] R by (auto simp: I_def log_writes_def)
  moreover have "write_log e s = kfor [0..<?n] body e s"
    using l by (simp add: write_log_def body_def log_ok_def)
  ultimately show ?thesis by (auto simp: I_def)
qed


lemma install_trans_run:
  assumes a: "at_rest c i s" and l: "log_ok s bs" and R: "cache_rel s M P Map.empty" and P: "P = set bs \<or> P = {}"
  shows "\<exists>t. install_trans e s = Ret () e t \<and> bio_step s t
    \<and> cache_rel t (apply_writes (home_writes (unat (log_start s)) bs M) M) {} Map.empty
    \<and> disk_writes t = disk_writes s @ home_writes (unat (log_start s)) bs M"
proof -
  let ?L = "unat (log_start s)" and ?n = "length bs"
  let ?W = "\<lambda>k. home_writes ?L (take k bs) M"
  define I where "I k t \<longleftrightarrow> bio_step s t \<and> cache_rel t (apply_writes (?W k) M) (P - set (take k bs)) Map.empty
    \<and> disk_writes t = disk_writes s @ ?W k" for k and t :: "'a log_scheme"
  define body :: "nat \<Rightarrow> ('a log_scheme, unit) kmon" where "body = (\<lambda>tail.
       kbind (kget log_dev) (\<lambda>dev. kbind (kget log_start) (\<lambda>start. kbind (kget lh_block) (\<lambda>bl.
       kbind (bread dev (start + of_nat tail + 1)) (\<lambda>lbuf.
       kbind (bread dev (bl ! tail)) (\<lambda>dbuf.
       kseq (kmod (\<lambda>s. bupd dbuf (\<lambda>x. x\<lparr>bdata := bdata (bufs s ! lbuf)\<rparr>) s))
       (kseq (bwrite dbuf)
       (kseq (brelse lbuf)
       (brelse dbuf)))))))))"
  have log: "?L + 1 + k \<notin> set bs" if "k < ?n" for k
    using log_ok_nth(6) [OF l] log_ok_nth(7) [OF l that] by (metis in_set_conv_nth not_le)
  have "card (set bs) < 30" using l card_length [of bs] by (simp add: log_ok_def)
  then have card: "card (P - A) < 30" for A
    using P by (metis card.empty card_mono Diff_subset empty_Diff finite_set le_less_trans zero_less_numeral)
  have "\<exists>u. body k e t = Ret () e u \<and> I (Suc k) u" if k: "k < ?n" and "I k t" for k t
  proof -
    let ?M = "apply_writes (?W k) M" and ?P = "P - set (take k bs)" and ?x = "log_start s + of_nat k + 1"
    have st: "bio_step s t" and Rt: "cache_rel t ?M ?P Map.empty" and w: "disk_writes t = disk_writes s @ ?W k"
      using \<open>I k t\<close> by (simp_all add: I_def)
    note n = log_ok_nth [OF l k]
    note eq = bio_step_log [OF st] bio_stepD(2) [OF st]
    have at: "at_rest c i t" using a by (simp add: bio_stepD [OF st])
    have dev: "log_dev t = 1" using l eq by (simp add: log_ok_def)
    have ne: "?x \<noteq> lh_block s ! k" using n(1) n(4) n(6) [of k] n(7) by auto
    have tk: "bs ! k \<notin> set (take k bs)" "set (take (Suc k) bs) = insert (bs ! k) (set (take k bs))"
      using l k by (auto simp: log_ok_def take_Suc_conv_app_nth distinct_conv_nth in_set_conv_nth)
    have pin: "unat (lh_block s ! k) \<in> ?P \<or> card (insert (unat ?x) ?P) < 30" using P tk k n(1) by auto
    let ?F = "\<lambda>lb db. kseq (kmod (\<lambda>s. bupd db (\<lambda>x. x\<lparr>bdata := bdata (bufs s ! lb)\<rparr>) s))
       (kseq (bwrite db) (kseq (brelse lb) (brelse db)))"
    obtain x y u where u: "kbind (bread 1 ?x) (\<lambda>a. kbind (bread 1 (lh_block s ! k)) (?F a)) e t = ?F x y e u"
      "bio_step t u" "x \<noteq> y" "cache_rel u ?M ?P [x \<mapsto> ?L + 1 + k, y \<mapsto> bs ! k]" "disk_writes u = disk_writes t"
      "on_disk u = on_disk t"
      using bc.hold_two [OF at Rt, of ?x "lh_block s ! k" ?F e] n eq card ne pin by auto
    have au: "at_rest c i u" using at by (simp add: bio_stepD [OF u(2)])
    have m: "?M (?L + 1 + k) = M (?L + 1 + k)"
      by (rule apply_writes_other) (use log [OF k] in \<open>auto dest: in_set_takeD\<close>)
    have cl: "?M (?L + 1 + k) = on_disk u (?L + 1 + k)"
      using cache_relD(9) [OF Rt, of "?L + 1 + k"] log [OF k] P u(6) l n(7) eq by (auto simp: log_ok_def)
    have d: "?L + 1 + k \<noteq> bs ! k" using n(6) [of k] n(7) by simp
    obtain v where v: "?F x y e u = Ret () e v" "bio_step u v"
      "cache_rel v (?M(bs ! k := ?M (?L + 1 + k))) (?P - {bs ! k}) Map.empty"
      "disk_writes v = disk_writes u @ [(bs ! k, ?M (?L + 1 + k))]"
      using bc.copy_held [OF au u(4) refl u(3) d, of e] cl by auto
    have "?P - {bs ! k} = P - set (take (Suc k) bs)" using tk(2) by auto
    then have "I (Suc k) v"
      using v(3,4) u(5) w bio_step_trans [OF st bio_step_trans [OF u(2) v(2)]]
      unfolding I_def log_writes_take(2) [OF k] by (simp add: m [simplified])
    moreover have "body k e t = Ret () e v" using u(1) v(1) dev eq by (simp add: body_def)
    ultimately show ?thesis by blast
  qed
  then obtain t where t: "kfor [0..<?n] body e s = Ret () e t" "I ?n t"
    using kfor_upto [of ?n I body e s] R by (auto simp: I_def home_writes_def)
  moreover have "install_trans e s = kfor [0..<?n] body e s"
    using l by (simp add: install_trans_def body_def log_ok_def)
  moreover have "P - set bs = {}" using P by auto
  ultimately show ?thesis by (auto simp: I_def)
qed

lemma bupd_bupd: "b < length (bufs s) \<Longrightarrow> bupd b f (bupd b g s) = bupd b (\<lambda>x. f (g x)) s"
  by (simp add: bupd_def)

lemma write_head_run:
  assumes a: "at_rest c i s" and R: "cache_rel s M P Map.empty" and card: "card P < NBUF"
    and l: "log_dev s = 1" "log_start s < disksize s" "lh_n s = int n" "n \<le> LOGSIZE" "length (lh_block s) = LOGSIZE"
    and P: "unat (log_start s) \<notin> P"
  shows "\<exists>t. write_head e s = Ret () e t \<and> bio_step s t
    \<and> cache_rel t (apply_writes [(unat (log_start s), header (take n (lh_block s)) (M (unat (log_start s))))] M) P Map.empty
    \<and> disk_writes t = disk_writes s @ [(unat (log_start s), header (take n (lh_block s)) (M (unat (log_start s))))]"
proof -
  let ?L = "log_start s" and ?f = "header (take n (lh_block s))"
  let ?F = "\<lambda>b. kseq (kmod (\<lambda>s. bupd b (\<lambda>x. x\<lparr>bdata := ?f (bdata (bufs s ! b))\<rparr>) s)) (kseq (bwrite b) (brelse b))"
  have len: "length (take n (lh_block s)) = n" using l by simp
  have f: "length (?f d) = BSIZE" if "length d = BSIZE" for d using that l(4) len by (simp add: header_def)
  obtain b s1 where 1: "bread 1 ?L e s = Ret b e s1" "bio_step s s1" "cache_rel s1 M P [b \<mapsto> unat ?L]"
    using bc.rd_law [OF a R, of ?L e] l card by auto
  have b: "b < length (bufs s1)" using held_caches [OF 1(3), of b] cache_relD(2) [OF 1(3)] by (simp add: caches_def)
  have w: "of_int (int n) = (of_nat (length (take n (lh_block s))) :: u32)" using len by simp
  have "write_head e s = kbind (bread 1 ?L) ?F e s"
    using 1(1) bio_step_log [OF 1(2)] l b w by (simp add: write_head_def bupd_bupd header_def bupd_def)
  moreover obtain t where "kbind (bread 1 ?L) ?F e s = Ret () e t" "bio_step s t"
    "cache_rel t (M(unat ?L := ?f (M (unat ?L)))) (P - {unat ?L}) Map.empty"
    "disk_writes t = disk_writes s @ [(unat ?L, ?f (M (unat ?L)))]"
    using bc.write_through [OF a R, of ?L ?f e] l card f by auto
  ultimately show ?thesis using P by (intro exI [of _ t]) simp
qed


lemma log_fields [simp]:
  "cache_rel (s\<lparr>lh_n := n\<rparr>) = cache_rel s" "cache_rel (s\<lparr>lh_block := bl\<rparr>) = cache_rel s"
  "at_rest c i (s\<lparr>lh_n := n\<rparr>) = at_rest c i s" "at_rest c i (s\<lparr>lh_block := bl\<rparr>) = at_rest c i s"
  "on_disk (s\<lparr>lh_n := n\<rparr>) = on_disk s" "on_disk (s\<lparr>lh_block := bl\<rparr>) = on_disk s"
  by (simp_all add: cache_rel_def at_rest_def on_disk_def fun_eq_iff)

lemma log_ok_head:
  assumes "log_ok s bs"
  shows "unat (log_start s) \<notin> set bs" "log_start s < disksize s" "card (set bs) < NBUF"
    "unat (log_start s) \<notin> {unat (log_start s) + 1..<unat (log_start s) + 1 + length bs}"
  using assms card_length [of bs] by (auto simp: log_ok_def word_less_nat_alt)

text \<open>The writes of a commit, in order: the log, its header, the blocks at home, the empty header.\<close>

definition commit_writes :: "nat \<Rightarrow> u32 list \<Rightarrow> (nat \<Rightarrow> u8 list) \<Rightarrow> (nat \<times> u8 list) list" where
  "commit_writes L bl M = log_writes L (map unat bl) M @ [(L, header bl (M L))]
     @ map (\<lambda>b. (unat b, M (unat b))) bl @ [(L, header [] (header bl (M L)))]"

lemma home_of_log:
  assumes l: "log_ok s bs" and "L = unat (log_start s)"
  shows "home_writes L bs ((apply_writes (log_writes L bs M) M)(L := h)) = map (\<lambda>b. (b, M b)) bs"
proof -
  have "apply_writes (log_writes L bs M) M (L + 1 + i) = M (bs ! i)" if "i < length bs" for i
  proof (rule apply_writes_at)
    have "map fst (log_writes L bs M) = map (\<lambda>i. L + 1 + i) [0..<length bs]" by (simp add: log_writes_def)
    then show "distinct (map fst (log_writes L bs M))" by (simp add: distinct_map inj_on_def)
    show "(L + 1 + i, M (bs ! i)) \<in> set (log_writes L bs M)" using that by (auto simp: log_writes_def)
  qed
  then show ?thesis by (intro nth_equalityI) (simp_all add: home_writes_def)
qed

lemma commit_run:
  assumes a: "at_rest c i s" and l: "log_ok s bs" and R: "cache_rel s M (set bs) Map.empty" and ne: "bs \<noteq> []"
  shows "\<exists>t. commit e s = Ret () e t \<and> at_rest c i t \<and> log_ok t [] \<and> log_start t = log_start s \<and> disksize t = disksize s
    \<and> cache_rel t (apply_writes (commit_writes (unat (log_start s)) (take (length bs) (lh_block s)) M) M) {} Map.empty
    \<and> disk_writes t = disk_writes s @ commit_writes (unat (log_start s)) (take (length bs) (lh_block s)) M"
proof -
  let ?L = "unat (log_start s)" and ?bl = "take (length bs) (lh_block s)"
  have bs: "map unat ?bl = bs" and L: "log_dev s = 1" "log_start s < disksize s" "lh_n s = int (length bs)"
    "length bs \<le> 30" "length (lh_block s) = 30"
    using l log_ok_head [OF l] by (simp_all add: log_ok_def)
  let ?M1 = "apply_writes (log_writes ?L bs M) M" and ?h = "header ?bl (M ?L)"
  let ?M2 = "?M1(?L := ?h)" and ?z = "header [] (header ?bl (M ?L))"
  let ?M3 = "apply_writes (map (\<lambda>b. (b, M b)) bs) ?M2"
  obtain s1 where 1: "write_log e s = Ret () e s1" "bio_step s s1" "cache_rel s1 ?M1 (set bs) Map.empty"
    "disk_writes s1 = disk_writes s @ log_writes ?L bs M"
    using write_log_run [OF a l R] by blast
  note e1 = bio_step_log [OF 1(2)] bio_stepD [OF 1(2)]
  have m1: "?M1 ?L = M ?L" by (rule apply_writes_other) (use log_ok_head [OF l] in simp)
  obtain s2 where 2: "write_head e s1 = Ret () e s2" "bio_step s1 s2" "cache_rel s2 ?M2 (set bs) Map.empty"
    "disk_writes s2 = disk_writes s1 @ [(?L, ?h)]"
    using write_head_run [of c i s1 ?M1 "set bs" "length bs" e] 1(3) a L log_ok_head [OF l] by (auto simp: e1 m1)
  note e2 = bio_step_log [OF 2(2)] bio_stepD [OF 2(2)]
  have l2: "log_ok s2 bs" using l log_ok_step [OF 1(2)] log_ok_step [OF 2(2)] by simp
  obtain s3 where 3: "install_trans e s2 = Ret () e s3" "bio_step s2 s3" "cache_rel s3 ?M3 {} Map.empty"
    "disk_writes s3 = disk_writes s2 @ map (\<lambda>b. (b, M b)) bs"
    using install_trans_run [of c i s2 bs ?M2 "set bs" e] 2(3) a l2 home_of_log [OF l refl]
    by (auto simp: e1 e2)
  note e3 = bio_step_log [OF 3(2)] bio_stepD [OF 3(2)]
  have "fst ` set (map (\<lambda>b. (b, M b)) bs) = set bs" by (auto simp: image_image)
  then have m3: "?M3 ?L = ?h" using log_ok_head [OF l] by (simp add: apply_writes_other)
  obtain t where 4: "write_head e (s3\<lparr>lh_n := 0\<rparr>) = Ret () e t" "bio_step (s3\<lparr>lh_n := 0\<rparr>) t"
    "cache_rel t (?M3(?L := ?z)) {} Map.empty" "disk_writes t = disk_writes s3 @ [(?L, ?z)]"
    using write_head_run [of c i "s3\<lparr>lh_n := 0\<rparr>" ?M3 "{}" 0 e] 3(3) a L by (auto simp: e1 e2 e3 m3)
  note e4 = bio_step_log [OF 4(2)] bio_stepD [OF 4(2)]
  have "commit e s = Ret () e t"
    using 1(1) 2(1) 3(1) 4(1) ne L by (simp add: commit_def)
  moreover have "log_ok t []" using l by (simp add: log_ok_def e1 e2 e3 e4)
  moreover have "map (\<lambda>b. (unat b, M (unat b))) ?bl = map (\<lambda>b. (b, M b)) (map unat ?bl)" by simp
  then have W: "commit_writes ?L ?bl M = log_writes ?L bs M @ [(?L, ?h)] @ map (\<lambda>b. (b, M b)) bs @ [(?L, ?z)]"
    by (simp only: commit_writes_def bs)
  ultimately show ?thesis
    using 1(4) 2(4) 3(4) 4(3,4) a by (intro exI [of _ t]) (simp add: e1 e2 e3 e4 W)
qed


section \<open>Recovery\<close>

lemma rest_of_log: "rest_of (s\<lparr>lh_n := n, lh_block := bl\<rparr>) = (rest_of s)\<lparr>lh_n := n, lh_block := bl\<rparr>"
  by (rule log.equality) (simp_all add: rest_of_def)

lemma bio_step_fields:
  "bio_step s t \<Longrightarrow> bio_step (s\<lparr>lh_n := n, lh_block := bl\<rparr>) (t\<lparr>lh_n := n, lh_block := bl\<rparr>)"
  by (simp add: bio_step_def rest_of_log)

lemma read_head_run:
  assumes a: "at_rest c i s" and R: "cache_rel s D {} Map.empty"
    and l: "log_dev s = 1" "log_start s < disksize s" "n \<le> LOGSIZE" "sint (get32 (D (unat (log_start s))) 0) = int n"
  shows "\<exists>t. read_head e s = Ret () e t \<and> bio_step (s\<lparr>lh_n := int n,
      lh_block := get_words (D (unat (log_start s))) 4 n @ drop n (lh_block s)\<rparr>) t \<and> cache_rel t D {} Map.empty"
proof -
  let ?L = "log_start s"
  let ?u = "\<lambda>s. s\<lparr>lh_n := int n, lh_block := get_words (D (unat ?L)) 4 n @ drop n (lh_block s)\<rparr>"
  obtain b s1 where 1: "bread 1 ?L e s = Ret b e s1" "bio_step s s1" "cache_rel s1 D {} [b \<mapsto> unat ?L]" "on_disk s1 = on_disk s"
    using bc.rd_law [OF a R, of ?L e] l by auto
  have d: "bdata (bufs s1 ! b) = D (unat ?L)" using bc.held [OF 1(3), of b "unat ?L"] by simp
  have "D (unat ?L) = on_disk s1 (unat ?L)"
    using cache_relD(9) [OF R, of "unat ?L"] l(2) 1(4) by (simp add: word_less_nat_alt)
  moreover have "at_rest c i (?u s1)" "cache_rel (?u s1) D {} [b \<mapsto> unat ?L]" "on_disk (?u s1) = on_disk s1"
    using a 1(3) by (simp_all add: bio_stepD [OF 1(2)])
  ultimately obtain t where 2: "brelse b e (?u s1) = Ret () e t" "bio_step (?u s1) t" "cache_rel t D {} Map.empty"
    using bc.rl_law [of c i "?u s1" D "{}" "[b \<mapsto> unat ?L]" b "unat ?L" e] by auto
  have "read_head e s = Ret () e t"
    using 1(1) 2(1) l d by (simp add: read_head_def let_run if_run)
  moreover have "bio_step (?u s) (?u s1)"
    using bio_step_fields [OF 1(2)] bio_step_log(4) [OF 1(2)] by simp
  ultimately show ?thesis using 2 bio_step_trans by blast
qed

lemma recover_run:
  assumes a: "at_rest c i s" and R: "cache_rel s D {} Map.empty"
    and n: "sint (get32 (D (unat (log_start s))) 0) = int n"
    and l: "log_ok (s\<lparr>lh_n := int n, lh_block := get_words (D (unat (log_start s))) 4 n @ drop n (lh_block s)\<rparr>) bs"
  shows "\<exists>t. recover_from_log e s = Ret () e t \<and> log_ok t []
    \<and> (\<forall>m<unat (disksize s). m \<notin> log_area s \<longrightarrow> on_disk t m = apply_writes (home_writes (unat (log_start s)) bs D) D m)"
proof -
  let ?L = "log_start s"
  let ?u = "s\<lparr>lh_n := int n, lh_block := get_words (D (unat ?L)) 4 n @ drop n (lh_block s)\<rparr>"
  let ?D1 = "apply_writes (home_writes (unat ?L) bs D) D"
  have L: "log_dev s = 1" "?L < disksize s" "n = length bs" "n \<le> 30" "length (lh_block ?u) = 30"
    using l log_ok_head(2) [OF l] by (auto simp add: log_ok_def)
  obtain s1 where 1: "read_head e s = Ret () e s1" "bio_step ?u s1" "cache_rel s1 D {} Map.empty"
    using read_head_run [OF a R L(1,2,4) n] by blast
  note e1 = bio_step_log [OF 1(2)] bio_stepD [OF 1(2)]
  obtain s2 where 2: "install_trans e s1 = Ret () e s2" "bio_step s1 s2" "cache_rel s2 ?D1 {} Map.empty"
    using install_trans_run [of c i s1 bs D "{}" e] 1(3) a l log_ok_step [OF 1(2)] by (auto simp: e1)
  note e2 = bio_step_log [OF 2(2)] bio_stepD [OF 2(2)]
  obtain t where 3: "write_head e (s2\<lparr>lh_n := 0\<rparr>) = Ret () e t" "bio_step (s2\<lparr>lh_n := 0\<rparr>) t"
    "cache_rel t (?D1(unat ?L := header [] (?D1 (unat ?L)))) {} Map.empty"
    using write_head_run [of c i "s2\<lparr>lh_n := 0\<rparr>" ?D1 "{}" 0 e] 2(3) a L by (auto simp: e1 e2)
  note e3 = bio_step_log [OF 3(2)] bio_stepD [OF 3(2)]
  have "recover_from_log e s = Ret () e t" using 1(1) 2(1) 3(1) by (simp add: recover_from_log_def)
  moreover have "log_ok t []" using l by (auto simp: log_ok_def e1 e2 e3)
  moreover have "on_disk t m = ?D1 m" if "m < unat (disksize s)" "m \<notin> log_area s" for m
    using cache_relD(9) [OF 3(3), of m] that by (auto simp: e1 e2 e3 split: if_splits)
  ultimately show ?thesis by blast
qed

lemma header_count:
  assumes "length d = BSIZE" "length bl \<le> LOGSIZE"
  shows "sint (get32 (header bl d) 0) = int (length bl)" "get_words (header bl d) 4 (length bl) = bl"
    "length (header bl d) = BSIZE" "get32 (header bl d) 0 = of_nat (length bl)"
proof -
  show c: "get32 (header bl d) 0 = of_nat (length bl)"
    using assms by (simp add: header_def get32_def put_words_def part_patch_other) (simp add: put32_def)
  have "sint (of_nat n :: u32) = int n" if "n \<le> 30" for n
    using that by (simp add: signed_of_nat sint_word_ariths signed_take_bit_int_eq_self)
  then show "sint (get32 (header bl d) 0) = int (length bl)" using assms c by simp
  show "get_words (header bl d) 4 (length bl) = bl" "length (header bl d) = BSIZE"
    using assms by (simp_all add: header_def)
qed


text \<open>
  The state after a crash: the disk holds what it had in \<open>s\<close> and the writes \<open>ws\<close>, the
  cache has been emptied by \<open>binit\<close>, and \<open>initlog\<close> has found the log where it was.
\<close>

definition rebooted :: "'a log_scheme \<Rightarrow> (nat \<times> u8 list) list \<Rightarrow> 'a log_scheme \<Rightarrow> bool" where
  "rebooted s ws u \<longleftrightarrow> cache_rel u (on_disk u) {} Map.empty \<and> disksize u = disksize s
     \<and> (\<forall>m<unat (disksize s). on_disk u m = apply_writes ws (on_disk s) m)
     \<and> log_dev u = 1 \<and> log_start u = log_start s \<and> length (lh_block u) = LOGSIZE"

lemma recover_empty:
  assumes a: "at_rest c i u" and u: "rebooted s ws u" and l: "log_ok s bs"
    and z: "get32 (on_disk u (unat (log_start s))) 0 = 0"
  shows "\<exists>v. recover_from_log e u = Ret () e v \<and> (\<forall>m<unat (disksize s). m \<notin> log_area s \<longrightarrow> on_disk v m = on_disk u m)"
proof -
  have r: "cache_rel u (on_disk u) {} Map.empty" "disksize u = disksize s" "log_dev u = 1" "log_start u = log_start s"
    "length (lh_block u) = 30"
    using u by (auto simp: rebooted_def)
  have "log_ok (u\<lparr>lh_n := int 0, lh_block := get_words (on_disk u (unat (log_start u))) 4 0 @ drop 0 (lh_block u)\<rparr>) []"
    using l r by (auto simp: log_ok_def)
  then show ?thesis
    using recover_run [OF a r(1), of 0 "[]" e] z r by (auto simp: home_writes_def)
qed

lemma recover_full:
  assumes a: "at_rest c i u" and u: "rebooted s ws u" and l: "log_ok s bs"
    and h: "on_disk u (unat (log_start s)) = header (take (length bs) (lh_block s)) d" "length d = BSIZE"
  shows "\<exists>v. recover_from_log e u = Ret () e v \<and> (\<forall>m<unat (disksize s). m \<notin> log_area s \<longrightarrow>
    on_disk v m = apply_writes (home_writes (unat (log_start s)) bs (on_disk u)) (on_disk u) m)"
proof -
  let ?bl = "take (length bs) (lh_block s)"
  have r: "cache_rel u (on_disk u) {} Map.empty" "disksize u = disksize s" "log_dev u = 1" "log_start u = log_start s"
    "length (lh_block u) = 30"
    using u by (auto simp: rebooted_def)
  have bl: "length ?bl = length bs" "length bs \<le> 30" using l by (auto simp: log_ok_def)
  note c = header_count [OF h(2), of ?bl, unfolded bl(1), OF bl(2), folded h(1)]
  have "log_ok (u\<lparr>lh_n := int (length bs), lh_block := get_words (on_disk u (unat (log_start u))) 4 (length bs)
      @ drop (length bs) (lh_block u)\<rparr>) bs"
    using l r c(2) bl by (auto simp: log_ok_def)
  then show ?thesis
    using recover_run [OF a r(1), of "length bs" bs e] c(1) r by auto
qed

text \<open>What is on the disk after the log and its header have been written, and some of the blocks at home.\<close>

lemma crashed_blocks:
  assumes l: "log_ok s bs" and B: "\<And>m. m < unat (disksize s) \<Longrightarrow> m \<notin> set bs \<Longrightarrow> B m = M m"
    and D: "D = apply_writes (log_writes (unat (log_start s)) bs M @ (unat (log_start s), h) # take j (map (\<lambda>b. (b, M b)) bs)) B"
  shows "D (unat (log_start s)) = h" "i < length bs \<Longrightarrow> D (unat (log_start s) + 1 + i) = M (bs ! i)"
    "m < unat (disksize s) \<Longrightarrow> m \<notin> log_area s \<Longrightarrow> m \<notin> set bs \<Longrightarrow> D m = M m"
proof -
  let ?L = "unat (log_start s)" and ?H = "take j (map (\<lambda>b. (b, M b)) bs)"
  let ?D1 = "(apply_writes (log_writes ?L bs M) B)(?L := h)"
  have H: "fst ` set ?H \<subseteq> set bs" by (auto dest: in_set_takeD)
  have D: "D = apply_writes ?H ?D1" by (simp add: D)
  have o: "D m = ?D1 m" if "m \<notin> set bs" for m
    unfolding D by (rule apply_writes_other) (use H that in blast)
  show "D ?L = h" using o [of ?L] log_ok_head [OF l] by simp
  show "D m = M m" if m: "m < unat (disksize s)" "m \<notin> log_area s" "m \<notin> set bs"
  proof -
    have "length bs < 30" using l by (simp add: log_ok_def)
    then have "apply_writes (log_writes ?L bs M) B m = B m"
      by (intro apply_writes_other) (use m in auto)
    then show ?thesis using o [OF m(3)] m B [of m] by auto
  qed
  show "D (?L + 1 + i) = M (bs ! i)" if i: "i < length bs"
  proof -
    have "?L + 1 + i \<notin> set bs" using l i by (auto simp: log_ok_def)
    moreover have "apply_writes (log_writes ?L bs M) B (?L + 1 + i) = M (bs ! i)"
      by (rule apply_writes_at) (use i in \<open>auto simp: log_writes_def distinct_map inj_on_def comp_def\<close>)
    ultimately show ?thesis using o by simp
  qed
qed


lemma home_blocks:
  "distinct bs \<Longrightarrow> apply_writes (map (\<lambda>b. (b, M b)) bs) B m = (if m \<in> set bs then M m else B m)"
  using apply_writes_at [of "map (\<lambda>b. (b, M b)) bs" m "M m" B] apply_writes_other [of m "map (\<lambda>b. (b, M b)) bs" B]
  by (auto simp: comp_def image_image)

lemma commit_writes_alt:
  assumes "log_ok s bs"
  shows "commit_writes L (take (length bs) (lh_block s)) M = log_writes L bs M
     @ (L, header (take (length bs) (lh_block s)) (M L)) # map (\<lambda>b. (b, M b)) bs
     @ [(L, header [] (header (take (length bs) (lh_block s)) (M L)))]"
proof -
  let ?bl = "take (length bs) (lh_block s)"
  have "map unat ?bl = bs" using assms by (simp add: log_ok_def)
  moreover have "map (\<lambda>b. (unat b, M (unat b))) ?bl = map (\<lambda>b. (b, M b)) (map unat ?bl)" by simp
  ultimately show ?thesis by (simp only: commit_writes_def append_Cons append_Nil)
qed

lemma length_log_writes [simp]: "length (log_writes L bs M) = length bs"
  by (simp add: log_writes_def)

lemma committed_blocks:
  assumes l: "log_ok s bs" and m: "m < unat (disksize s)" "m \<notin> log_area s"
    and B: "\<And>m. m < unat (disksize s) \<Longrightarrow> m \<notin> set bs \<Longrightarrow> B m = M m"
  shows "apply_writes (commit_writes (unat (log_start s)) (take (length bs) (lh_block s)) M) B m = M m"
proof -
  let ?L = "unat (log_start s)" and ?h = "header (take (length bs) (lh_block s)) (M (unat (log_start s)))"
  let ?B = "(apply_writes (log_writes ?L bs M) B)(?L := ?h)"
  have d: "distinct bs" using l by (simp add: log_ok_def)
  have "apply_writes (log_writes ?L bs M @ (?L, ?h) # take (length bs) (map (\<lambda>b. (b, M b)) bs)) B m = M m" if "m \<notin> set bs"
    by (rule crashed_blocks(3) [OF l B refl m that])
  then have "apply_writes (map (\<lambda>b. (b, M b)) bs) ?B m = M m"
    using home_blocks [OF d, of M ?B m] by auto
  then show ?thesis using m by (auto simp: commit_writes_alt [OF l])
qed

lemma recover_between:
  assumes a: "at_rest c i u" and l: "log_ok s bs" and B: "\<And>m. m < unat (disksize s) \<Longrightarrow> m \<notin> set bs \<Longrightarrow> on_disk s m = M m"
    and h: "length (M (unat (log_start s))) = BSIZE"
    and u: "rebooted s (log_writes (unat (log_start s)) bs M
       @ (unat (log_start s), header (take (length bs) (lh_block s)) (M (unat (log_start s)))) # take j (map (\<lambda>b. (b, M b)) bs)) u"
  shows "\<exists>v. recover_from_log e u = Ret () e v \<and> (\<forall>m<unat (disksize s). m \<notin> log_area s \<longrightarrow> on_disk v m = M m)"
proof -
  let ?L = "unat (log_start s)" and ?h = "header (take (length bs) (lh_block s)) (M (unat (log_start s)))"
  let ?D = "apply_writes (log_writes ?L bs M @ (?L, ?h) # take j (map (\<lambda>b. (b, M b)) bs)) (on_disk s)"
  have d: "distinct bs" "?L + 30 \<le> unat (disksize s)" "length bs < 30" using l by (simp_all add: log_ok_def)
  have D: "on_disk u m = ?D m" if "m < unat (disksize s)" for m using u that by (simp add: rebooted_def)
  have D1: "?D ?L = ?h" by (rule crashed_blocks(1) [OF l B refl])
  have D2: "?D (?L + 1 + k) = M (bs ! k)" if "k < length bs" for k by (rule crashed_blocks(2) [OF l B refl that])
  have D3: "?D m = M m" if "m < unat (disksize s)" "m \<notin> log_area s" "m \<notin> set bs" for m
    by (rule crashed_blocks(3) [OF l B refl that])
  have "on_disk u ?L = ?h" using D [of ?L] D1 d by simp
  then obtain v where v: "recover_from_log e u = Ret () e v"
    "\<And>m. m < unat (disksize s) \<Longrightarrow> m \<notin> log_area s \<Longrightarrow> on_disk v m = apply_writes (home_writes ?L bs (on_disk u)) (on_disk u) m"
    using recover_full [OF a u l _ h, of e] by blast
  have "apply_writes (home_writes ?L bs (on_disk u)) (on_disk u) m = M m" if m: "m < unat (disksize s)" "m \<notin> log_area s" for m
  proof (cases "m \<in> set bs")
    case True
    then obtain k where k: "k < length bs" "m = bs ! k" by (auto simp: in_set_conv_nth)
    have "map fst (home_writes ?L bs (on_disk u)) = bs" by (rule nth_equalityI) (simp_all add: home_writes_def)
    moreover have "(bs ! k, M (bs ! k)) \<in> set (home_writes ?L bs (on_disk u))"
      using k D2 [of k] D [of "?L + 1 + k"] d by (auto simp: home_writes_def image_iff intro!: bexI [of _ k])
    ultimately show ?thesis using apply_writes_at d(1) k(2) by metis
  next
    case False
    then show ?thesis using D3 [OF m False] D [OF m(1)] by (simp add: apply_writes_other)
  qed
  then show ?thesis using v by auto
qed

lemma recover_before:
  assumes a: "at_rest c i u" and l: "log_ok s bs" and z: "get32 (on_disk s (unat (log_start s))) 0 = 0"
    and u: "rebooted s (take k (log_writes (unat (log_start s)) bs M)) u"
  shows "\<exists>v. recover_from_log e u = Ret () e v \<and> (\<forall>m<unat (disksize s). m \<notin> log_area s \<longrightarrow> on_disk v m = on_disk s m)"
proof -
  let ?L = "unat (log_start s)" and ?W = "log_writes (unat (log_start s)) bs M"
  have b: "?L + 30 \<le> unat (disksize s)" "length bs < 30" using l by (simp_all add: log_ok_def)
  have "fst ` set (take k ?W) \<subseteq> fst ` set ?W" by (intro image_mono set_take_subset)
  then have same: "on_disk u m = on_disk s m" if "m < unat (disksize s)" "m \<notin> {?L + 1..<?L + 30}" for m
    using u that b apply_writes_other [of m "take k ?W" "on_disk s"] by (force simp: rebooted_def)
  from recover_empty [OF a u l, of e] same [of ?L] z b obtain v where "recover_from_log e u = Ret () e v"
    "\<And>m. m < unat (disksize s) \<Longrightarrow> m \<notin> log_area s \<Longrightarrow> on_disk v m = on_disk u m" by auto
  with same show ?thesis by (intro exI [of _ v]) auto
qed

lemma recover_after:
  assumes a: "at_rest c i u" and l: "log_ok s bs" and B: "\<And>m. m < unat (disksize s) \<Longrightarrow> m \<notin> set bs \<Longrightarrow> on_disk s m = M m"
    and h: "length (M (unat (log_start s))) = BSIZE"
    and u: "rebooted s (commit_writes (unat (log_start s)) (take (length bs) (lh_block s)) M) u"
  shows "\<exists>v. recover_from_log e u = Ret () e v \<and> (\<forall>m<unat (disksize s). m \<notin> log_area s \<longrightarrow> on_disk v m = M m)"
proof -
  let ?L = "unat (log_start s)" and ?bl = "take (length bs) (lh_block s)"
  have b: "?L + 30 \<le> unat (disksize s)" "length ?bl \<le> 30" using l by (simp_all add: log_ok_def)
  have "on_disk u ?L = header [] (header ?bl (M ?L))"
    using u b by (simp add: rebooted_def commit_writes_alt [OF l])
  then have "get32 (on_disk u ?L) 0 = 0"
    using header_count(3) [OF h b(2)] header_count(4) [of "header ?bl (M ?L)" "[]"] by simp
  moreover have "on_disk u m = M m" if m: "m < unat (disksize s)" "m \<notin> log_area s" for m
    using u m committed_blocks [OF l m B] by (simp add: rebooted_def)
  ultimately show ?thesis using recover_empty [OF a u l, of e] by auto
qed

text \<open>
  C1. A commit is atomic with respect to crashes. The commit of a transaction ends, with all
  its blocks on the disk. If the machine stops after any number \<open>k\<close> of the block writes that
  the commit makes, then recovery ends, and it leaves all the blocks outside of the log
  either as they were before the transaction or as the transaction made them.
\<close>

theorem commit_crash_atomic:
  assumes a: "at_rest c i s" and l: "log_ok s bs" and R: "cache_rel s M (set bs) Map.empty" and ne: "bs \<noteq> []"
    and z: "get32 (on_disk s (unat (log_start s))) 0 = 0"
  shows "\<exists>t ws. commit e s = Ret () e t \<and> disk_writes t = disk_writes s @ ws
    \<and> (\<forall>m<unat (disksize s). m \<notin> log_area s \<longrightarrow> on_disk t m = M m)
    \<and> (\<forall>k c' i' u. at_rest c' i' u \<and> rebooted s (take k ws) u \<longrightarrow>
        (\<exists>v. recover_from_log e u = Ret () e v
          \<and> ((\<forall>m<unat (disksize s). m \<notin> log_area s \<longrightarrow> on_disk v m = on_disk s m)
            \<or> (\<forall>m<unat (disksize s). m \<notin> log_area s \<longrightarrow> on_disk v m = M m))))"
proof -
  let ?L = "unat (log_start s)" and ?n = "length bs" and ?bl = "take (length bs) (lh_block s)"
  let ?W = "commit_writes ?L ?bl M"
  have L: "?L < unat (disksize s)" using l by (simp add: log_ok_def)
  have h: "length (M ?L) = BSIZE"
    using cache_relD(9) [OF R, of ?L] cache_relD(3) [OF R] L log_ok_head(1) [OF l] by (simp add: on_disk_def)
  have B: "on_disk s m = M m" if "m < unat (disksize s)" "m \<notin> set bs" for m
    using cache_relD(9) [OF R] that by simp
  obtain t where t: "commit e s = Ret () e t" "cache_rel t (apply_writes ?W M) {} Map.empty" "disk_writes t = disk_writes s @ ?W"
    "disksize t = disksize s"
    using commit_run [OF a l R ne] by blast
  have "on_disk t m = M m" if m: "m < unat (disksize s)" "m \<notin> log_area s" for m
    using cache_relD(9) [OF t(2), of m] committed_blocks [OF l m, of M M] m t(4) by simp
  moreover have "\<exists>v. recover_from_log e u = Ret () e v
          \<and> ((\<forall>m<unat (disksize s). m \<notin> log_area s \<longrightarrow> on_disk v m = on_disk s m)
            \<or> (\<forall>m<unat (disksize s). m \<notin> log_area s \<longrightarrow> on_disk v m = M m))"
    if a': "at_rest c' i' u" and u: "rebooted s (take k ?W) u" for k c' i' u
  proof -
    consider "k \<le> ?n" | j where "k = ?n + 1 + j" "j \<le> ?n" | "2 * ?n + 2 \<le> k"
      using that(2) [of "k - ?n - 1"] that(1,3) by (cases "k \<le> ?n"; cases "2 * ?n + 2 \<le> k") auto
    then show ?thesis
    proof cases
      case 1
      then have "take k ?W = take k (log_writes ?L bs M)" by (simp add: commit_writes_alt [OF l])
      with u have "rebooted s (take k (log_writes ?L bs M)) u" by (simp only:)
      from recover_before [OF a' l z this, of e] show ?thesis by blast
    next
      case 2
      then have "take k ?W = log_writes ?L bs M @ (?L, header ?bl (M ?L)) # take j (map (\<lambda>b. (b, M b)) bs)"
        by (simp add: commit_writes_alt [OF l])
      with u have "rebooted s (log_writes ?L bs M @ (?L, header ?bl (M ?L)) # take j (map (\<lambda>b. (b, M b)) bs)) u"
        by (simp only:)
      from recover_between [OF a' l B h this, of e] show ?thesis by blast
    next
      case 3
      then have "take k ?W = ?W" by (simp add: commit_writes_alt [OF l])
      with u have "rebooted s ?W u" by (simp only:)
      from recover_after [OF a' l B h this, of e] show ?thesis by blast
    qed
  qed
  ultimately show ?thesis using t by blast
qed


section \<open>Recording a block\<close>

lemma log_slot_cases:
  assumes l: "log_ok s bs"
  shows "unat w \<in> set bs \<Longrightarrow> \<exists>i<length bs. log_slot (lh_block s) (lh_n s) w = i \<and> lh_block s ! i = w"
    and "unat w \<notin> set bs \<Longrightarrow> log_slot (lh_block s) (lh_n s) w = length bs"
proof -
  have n: "lh_n s = int (length bs)" using l by (simp add: log_ok_def)
  have eq: "lh_block s ! i = w \<longleftrightarrow> bs ! i = unat w" if "i < length bs" for i
    using log_ok_nth(1) [OF l that] by (metis word_unat_eq_iff)
  show "log_slot (lh_block s) (lh_n s) w = length bs" if "unat w \<notin> set bs"
  proof -
    have "find (\<lambda>i. lh_block s ! i = w) [0..<length bs] = None"
      using that eq nth_mem by (force simp: find_None_iff)
    then show ?thesis by (simp add: log_slot_def n)
  qed
  show "\<exists>i<length bs. log_slot (lh_block s) (lh_n s) w = i \<and> lh_block s ! i = w" if w: "unat w \<in> set bs"
  proof -
    obtain k where "k < length bs" "bs ! k = unat w" using w by (auto simp: in_set_conv_nth)
    then have "find (\<lambda>i. lh_block s ! i = w) [0..<length bs] \<noteq> None" using eq by (auto simp: find_None_iff)
    then obtain i where "find (\<lambda>i. lh_block s ! i = w) [0..<length bs] = Some i" by blast
    then show ?thesis using find_in by (fastforce simp: log_slot_def n)
  qed
qed

lemma log_write_run:
  assumes a: "at_rest c i s" and g: "lh_n s < int LOGSIZE" "lh_n s < log_size s - 1" "1 \<le> outstanding s"
  shows "log_write b e s = (let bn = bblockno (bufs s ! b); k = log_slot (lh_block s) (lh_n s) bn in
    Ret () e (bupd b (\<lambda>x. x\<lparr>bflags := bflags x OR B_DIRTY\<rparr>) (s\<lparr>lh_n := (if int k = lh_n s then lh_n s + 1 else lh_n s),
      lh_block := (lh_block s)[k := bn]\<rparr>)))"
  using at_restD [OF a] g
  by (simp add: log_write_def if_run acquire_run [where c = c] release_section [where c = c and s = s] bupd_def Let_def)

lemma log_write_logged:
  assumes a: "at_rest c i s" and l: "log_ok s bs" and R: "cache_rel s M (set bs) H" and h: "H b = Some n"
    and n: "n \<notin> log_area s" and g: "int (length bs) < log_size s - 1" "log_size s \<le> int LOGSIZE" "1 \<le> outstanding s"
  shows "\<exists>k bl t. log_write b e s = Ret () e t \<and> t = bupd b (\<lambda>x. x\<lparr>bflags := bflags x OR B_DIRTY\<rparr>) (s\<lparr>lh_n := k, lh_block := bl\<rparr>)
    \<and> log_ok t (if n \<in> set bs then bs else bs @ [n]) \<and> cache_rel t M (insert n (set bs)) H"
proof -
  let ?w = "bblockno (bufs s ! b)" and ?f = "\<lambda>x. x\<lparr>bflags := bflags x OR B_DIRTY\<rparr>"
  have w: "unat ?w = n" "n < unat (disksize s)" using held_caches [OF R h] by (simp_all add: caches_def)
  have len: "lh_n s = int (length bs)" "length (lh_block s) = 30" "bs = map unat (take (length bs) (lh_block s))"
    using l by (simp_all add: log_ok_def)
  note run = log_write_run [OF a, of b e]
  have D: "cache_rel (bupd b ?f s) M (insert n (set bs)) H" by (rule set_dirty_rel [OF R h])
  have D': "cache_rel (bupd b ?f (s\<lparr>lh_n := k, lh_block := bl\<rparr>)) M (insert n (set bs)) H" for k bl
    using set_dirty_rel [of "s\<lparr>lh_n := k, lh_block := bl\<rparr>" M "set bs" H b n] R h by simp
  show ?thesis
  proof (cases "n \<in> set bs")
    case True
    then obtain k where k: "k < length bs" "log_slot (lh_block s) (lh_n s) ?w = k" "lh_block s ! k = ?w"
      using log_slot_cases(1) [OF l, of ?w] w by auto
    then have "(lh_block s)[k := ?w] = lh_block s" using list_update_id [of "lh_block s" k] by simp
    then have "s\<lparr>lh_n := lh_n s, lh_block := (lh_block s)[k := ?w]\<rparr> = s" by simp
    moreover have "log_write b e s = Ret () e (bupd b ?f (s\<lparr>lh_n := lh_n s, lh_block := (lh_block s)[k := ?w]\<rparr>))"
      using run g len k by (simp add: Let_def)
    ultimately have "log_write b e s = Ret () e (bupd b ?f s)" by (simp only:)
    moreover have "log_ok (bupd b ?f s) bs" using l by (simp add: log_ok_def bupd_def)
    ultimately show ?thesis using D True by (intro exI [of _ "lh_n s"] exI [of _ "lh_block s"] exI [of _ "bupd b ?f s"]) simp
  next
    case False
    let ?t = "bupd b ?f (s\<lparr>lh_n := lh_n s + 1, lh_block := (lh_block s)[length bs := ?w]\<rparr>)"
    have "log_write b e s = Ret () e ?t"
      using run g len log_slot_cases(2) [OF l, of ?w] w False by (simp add: Let_def)
    moreover have "map unat (take (Suc (length bs)) ((lh_block s)[length bs := ?w])) = bs @ [n]"
      using len g w by (simp add: take_Suc_conv_app_nth)
    then have "log_ok ?t (bs @ [n])"
      using l g w n False len(1) by (auto simp: log_ok_def bupd_def)
    ultimately show ?thesis
      using D' False by (intro exI [of _ "lh_n s + 1"] exI [of _ "(lh_block s)[length bs := ?w]"] exI [of _ ?t]) simp
  qed
qed

text \<open>
  C17. \<open>log_write\<close> keeps the log well formed and absorbs repeated writes: the block of the
  held buffer is added to the list if it is not there, and is in it once; the block is
  pinned in the cache until the commit, and nothing reaches the disk.
\<close>

theorem log_write_records:
  assumes a: "at_rest c i s" and l: "log_ok s bs" and R: "cache_rel s M (set bs) H" and h: "H b = Some n"
    and n: "n \<notin> log_area s" and g: "int (length bs) < log_size s - 1" "log_size s \<le> int LOGSIZE" "1 \<le> outstanding s"
  shows "\<exists>t. log_write b e s = Ret () e t \<and> log_ok t (if n \<in> set bs then bs else bs @ [n])
    \<and> cache_rel t M (insert n (set bs)) H \<and> disk_writes t = disk_writes s"
proof -
  obtain k bl t where "log_write b e s = Ret () e t" "t = bupd b (\<lambda>x. x\<lparr>bflags := bflags x OR B_DIRTY\<rparr>) (s\<lparr>lh_n := k, lh_block := bl\<rparr>)"
    "log_ok t (if n \<in> set bs then bs else bs @ [n])" "cache_rel t M (insert n (set bs)) H"
    using log_write_logged [OF assms, of e] by blast
  then show ?thesis by (intro exI [of _ t]) (simp add: bupd_def)
qed

lemma begin_op_run:
  assumes a: "at_rest c i s" and g: "\<not> committing s" "lh_n s + (outstanding s + 1) * MAXOPBLOCKS \<le> int LOGSIZE"
  shows "begin_op e s = Ret () e (s\<lparr>outstanding := outstanding s + 1\<rparr>)"
proof -
  let ?t = "s\<lparr>cpus := deeper c (cpus s), intr_on := False, locks := (locks s)(LOG_LOCK := lk_take c (locks s LOG_LOCK))\<rparr>"
  have "kloop (kbind (kget committing) (\<lambda>busy.
        kbind (kget lh_n) (\<lambda>n. kbind (kget outstanding) (\<lambda>k.
        if busy then kseq (sleep (Some LogChan) (Some LOG_LOCK)) (kreturn None)
        else if n + (k + 1) * MAXOPBLOCKS > int LOGSIZE then
          kseq (sleep (Some LogChan) (Some LOG_LOCK)) (kreturn None)
        else
          kseq (kmod (\<lambda>s. s\<lparr>outstanding := outstanding s + 1\<rparr>))
          (kseq (release LOG_LOCK)
          (kreturn (Some ()))))))) e ?t = Ret () e (s\<lparr>outstanding := outstanding s + 1\<rparr>)"
    by (rule kloop_done) (use at_restD [OF a] g in \<open>simp add: if_run release_section [where c = c and s = s]\<close>)
  then show ?thesis
    using at_restD [OF a] by (simp add: begin_op_def acquire_run [where c = c])
qed

lemma at_rest_outstanding [simp]: "at_rest c i (s\<lparr>outstanding := k\<rparr>) = at_rest c i s"
  by (simp add: at_rest_def)

text \<open>
  C36. \<open>begin_op\<close> lets an operation start while there is room for ten blocks of every running
  operation, and else puts it to sleep on the log.
\<close>

theorem begin_op_admits:
  assumes a: "at_rest c i s" and i: "ncli (cpus s ! c) = 0" "i < length (procs s)"
  shows "if \<not> committing s \<and> lh_n s + (outstanding s + 1) * MAXOPBLOCKS \<le> int LOGSIZE
    then begin_op e s = Ret () e (s\<lparr>outstanding := outstanding s + 1\<rparr>)
    else \<exists>t. begin_op [] s = Asleep t \<and> outstanding t = outstanding s \<and> lk_free (locks t LOG_LOCK)
      \<and> pstate (procs t ! i) = SLEEPING \<and> chan (procs t ! i) = Some LogChan"
proof (cases "\<not> committing s \<and> lh_n s + (outstanding s + 1) * MAXOPBLOCKS \<le> int LOGSIZE")
  case True
  then show ?thesis using begin_op_run [OF a] by simp
next
  case False
  let ?t = "s\<lparr>cpus := deeper c (cpus s), intr_on := False, locks := (locks s)(LOG_LOCK := lk_take c (locks s LOG_LOCK))\<rparr>"
  let ?u = "asleep_state c i LogChan LOG_LOCK ?t"
  have "sleep (Some LogChan) (Some LOG_LOCK) [] ?t = Asleep ?u"
    by (rule sleep_in_section [OF a i]) simp
  then have "begin_op [] s = Asleep ?u"
    using at_restD [OF a] False
    by (auto simp: begin_op_def acquire_run [where c = c] kloop_def if_run)
  then show ?thesis using False i by (auto simp: asleep_state_def)
qed



section \<open>Instances\<close>

text \<open>The disk of 40 blocks, with the log from block 2, the buffers \<open>f\<close> and the blocks \<open>bl\<close> recorded.\<close>

definition boot_log :: "(nat \<Rightarrow> buf) \<Rightarrow> nat set \<Rightarrow> u32 list \<Rightarrow> log" where
  "boot_log f H bl = bcache.extend (boot f H) \<lparr>log_start = 2, log_size = 30, outstanding = 1, committing = False,
     log_dev = 1, lh_n = int (length bl), lh_block = bl @ replicate (30 - length bl) 0\<rparr>"

lemma boot_log_facts [simp]:
  "log_start (boot_log f H bl) = 2" "log_size (boot_log f H bl) = 30" "outstanding (boot_log f H bl) = 1"
  "\<not> committing (boot_log f H bl)" "log_dev (boot_log f H bl) = 1" "lh_n (boot_log f H bl) = int (length bl)"
  "lh_block (boot_log f H bl) = bl @ replicate (30 - length bl) 0" "disk_writes (boot_log f H bl) = []"
  "disksize (boot_log f H bl) = 40" "ncli (cpus (boot_log f H bl) ! 0) = 0" "length (procs (boot_log f H bl)) = 64"
  by (simp_all add: boot_log_def bcache.defs boot_def ptable.defs sltable.defs one_cpu_def two_procs_slots)

lemma boot_log_at_rest: "at_rest 0 0 (boot_log f H bl)"
  using boot_at_rest [of f H] by (simp add: at_rest_def boot_log_def bcache.defs)

lemma boot_log_rel: "cache_rel (boot_log f H bl) = cache_rel (boot f H)"
  by (simp add: fun_eq_iff cache_rel_def on_disk_def boot_log_def bcache.defs)

lemma boot_log_disk: "n < 40 \<Longrightarrow> on_disk (boot_log f H bl) n = zeros"
  by (simp add: on_disk_def part_def zeros_def boot_log_def bcache.defs min_def)

definition ones :: "u8 list" where
  "ones = replicate BSIZE 1"

text \<open>Buffer 0 has block 35, modified.\<close>

definition dirty35 :: "nat \<Rightarrow> buf" where
  "dirty35 b = (if b = 0 then blank\<lparr>bflags := 6, bdev := 1, bblockno := 35, bdata := ones\<rparr> else blank)"

theorem commit_crash_atomic_witness:
  "\<exists>t. commit [] (boot_log dirty35 {} [35]) = Ret () [] t \<and> on_disk t 35 = ones
    \<and> (\<exists>v. recover_from_log [] (boot_log (\<lambda>_. blank) {} []) = Ret () [] v \<and> (on_disk v 35 = zeros \<or> on_disk v 35 = ones))"
proof -
  let ?s = "boot_log dirty35 {} [35]" and ?u = "boot_log (\<lambda>_. blank) {} []" and ?M = "(\<lambda>_. zeros)(35 := ones)"
  have "cache_rel (boot dirty35 {}) ?M {35} Map.empty"
    by (rule boot_free) (auto simp: buf_ok_def dirty35_def blank_def zeros_def ones_def split: if_splits)
  then have R: "cache_rel ?s ?M (set [35]) Map.empty" by (simp add: boot_log_rel)
  have l: "log_ok ?s [35]" by (simp add: log_ok_def)
  have "get32 zeros 0 = 0" by (simp add: zeros_def get32_def part_def word_of_bytes_def numeral_eq_Suc)
  then have z: "get32 (on_disk ?s (unat (log_start ?s))) 0 = 0" by (simp add: boot_log_disk)
  have d: "on_disk ?u m = zeros" if "m < 40" for m using that by (rule boot_log_disk)
  have "cache_rel (boot (\<lambda>_. blank) {}) (on_disk ?u) {} Map.empty"
    by (rule boot_free) (simp_all add: d, simp_all add: buf_ok_def blank_def zeros_def)
  then have u: "rebooted ?s (take 0 ws) ?u" for ws
    by (simp add: rebooted_def boot_log_rel boot_log_disk)
  obtain t ws where t: "commit [] ?s = Ret () [] t" "\<forall>m<unat (disksize ?s). m \<notin> log_area ?s \<longrightarrow> on_disk t m = ?M m"
    and v: "\<And>k c' i' u. at_rest c' i' u \<Longrightarrow> rebooted ?s (take k ws) u \<Longrightarrow> \<exists>v. recover_from_log [] u = Ret () [] v
      \<and> ((\<forall>m<unat (disksize ?s). m \<notin> log_area ?s \<longrightarrow> on_disk v m = on_disk ?s m)
        \<or> (\<forall>m<unat (disksize ?s). m \<notin> log_area ?s \<longrightarrow> on_disk v m = ?M m))"
    using commit_crash_atomic [OF boot_log_at_rest l R _ z, of "[]"] by blast
  obtain w where w: "recover_from_log [] ?u = Ret () [] w"
    "(\<forall>m<unat (disksize ?s). m \<notin> log_area ?s \<longrightarrow> on_disk w m = on_disk ?s m)
      \<or> (\<forall>m<unat (disksize ?s). m \<notin> log_area ?s \<longrightarrow> on_disk w m = ?M m)"
    using v [OF boot_log_at_rest u] by (elim exE conjE)
  have "on_disk w 35 = zeros \<or> on_disk w 35 = ones" using w(2) by (elim disjE) (simp_all add: boot_log_disk)
  moreover have "on_disk t 35 = ones" using t(2) by simp
  ultimately show ?thesis using t(1) w(1) by (intro exI [of _ t] exI [of _ w] conjI)
qed

theorem log_write_records_witness:
  "\<exists>t. log_write 0 [] (boot_log (\<lambda>b. if b = 0 then blank\<lparr>bflags := 2, bdev := 1, bblockno := 35, refcnt := 1\<rparr> else blank) {0} [])
      = Ret () [] t \<and> log_ok t [35] \<and> disk_writes t = []"
proof -
  let ?f = "\<lambda>b. if b = 0 then blank\<lparr>bflags := 2, bdev := 1, bblockno := 35, refcnt := 1\<rparr> else blank"
  have "cache_rel (boot ?f (dom [0 \<mapsto> 35 :: nat])) (\<lambda>_. zeros) {} [0 \<mapsto> 35]"
    by (rule boot_rel) (auto simp: buf_ok_def blank_def zeros_def split: if_splits)
  then have R: "cache_rel (boot_log ?f {0} []) (\<lambda>_. zeros) (set []) [0 \<mapsto> 35]" by (simp add: boot_log_rel)
  have l: "log_ok (boot_log ?f {0} []) []" by (simp add: log_ok_def)
  show ?thesis using log_write_records [OF boot_log_at_rest l R, of 0 35 "[]"] by auto
qed

theorem begin_op_admits_witness:
  "begin_op [] (boot_log (\<lambda>_. blank) {} []) = Ret () [] ((boot_log (\<lambda>_. blank) {} [])\<lparr>outstanding := 2\<rparr>)"
  using begin_op_admits [OF boot_log_at_rest, of "\<lambda>_. blank" "{}" "[]" "[]"] by simp


end
