(* ===== verification/Inode.thy ===== *)
theory Inode
  imports Log
begin

text \<open>
  Disk blocks and inodes (the first half of \<^verbatim>\<open>fs.c\<close>): the block bitmap, the inode cache, and the
  blocks that an inode consists of.
\<close>

section \<open>State\<close>

abbreviation (input) NINODE :: nat where "NINODE \<equiv> 50"
abbreviation (input) NDIRECT :: nat where "NDIRECT \<equiv> 12"
abbreviation (input) NINDIRECT :: nat where "NINDIRECT \<equiv> 128"
abbreviation (input) IPB :: nat where "IPB \<equiv> 8"
abbreviation (input) BPB :: nat where "BPB \<equiv> 4096"
abbreviation (input) ROOTDEV :: u32 where "ROOTDEV \<equiv> 1"
abbreviation (input) ROOTINO :: u32 where "ROOTINO \<equiv> 1"
abbreviation (input) T_DIR :: u16 where "T_DIR \<equiv> 1"
abbreviation (input) T_FILE :: u16 where "T_FILE \<equiv> 2"
abbreviation (input) T_DEV :: u16 where "T_DEV \<equiv> 3"

text \<open>\<open>struct dinode\<close>, the 64 bytes of an inode on the disk.\<close>

record dinode =
  di_type :: u16
  di_major :: u16
  di_minor :: u16
  di_nlink :: u16
  di_size :: u32
  di_addrs :: "u32 list"

definition dinode_at :: "u8 list \<Rightarrow> nat \<Rightarrow> dinode" where
  "dinode_at d off = \<lparr>di_type = get16 d off, di_major = get16 d (off + 2), di_minor = get16 d (off + 4),
     di_nlink = get16 d (off + 6), di_size = get32 d (off + 8), di_addrs = get_words d (off + 12) (NDIRECT + 1)\<rparr>"

definition put_dinode :: "nat \<Rightarrow> dinode \<Rightarrow> u8 list \<Rightarrow> u8 list" where
  "put_dinode off di d =
     put_words (off + 12) (di_addrs di)
     (put32 (off + 8) (di_size di)
     (put16 (off + 6) (di_nlink di)
     (put16 (off + 4) (di_minor di)
     (put16 (off + 2) (di_major di)
     (put16 off (di_type di) d)))))"

text \<open>\<open>struct inode\<close>; its sleep lock is \<open>InodeSleep i\<close>.\<close>

record inode =
  idev :: u32
  inum :: u32
  iref :: int
  ivalid :: bool
  itype :: u16
  major :: u16
  minor :: u16
  nlink :: u16
  isize :: u32
  addrs :: "u32 list"

record icache = log +
  inodes :: "inode list"
  sb :: superblock

definition iupd :: "nat \<Rightarrow> (inode \<Rightarrow> inode) \<Rightarrow> 'a icache_scheme \<Rightarrow> 'a icache_scheme" where
  "iupd i f s = s\<lparr>inodes := (inodes s)[i := f (inodes s ! i)]\<rparr>"

abbreviation (input) ifield :: "nat \<Rightarrow> (inode \<Rightarrow> 'b) \<Rightarrow> ('a icache_scheme, 'b) kmon" where
  "ifield i f \<equiv> kget (\<lambda>s. f (inodes s ! i))"

text \<open>The slots of the inode cache, and the entries of an indirect block.\<close>

definition islots :: "nat list" where
  "islots = [0..<NINODE]"

definition indirects :: "nat list" where
  "indirects = [0..<NINDIRECT]"

definition IBLOCK :: "u32 \<Rightarrow> superblock \<Rightarrow> u32" where
  "IBLOCK i sp = i div of_nat IPB + sb_inodestart sp"

definition BBLOCK :: "u32 \<Rightarrow> superblock \<Rightarrow> u32" where
  "BBLOCK b sp = b div of_nat BPB + sb_bmapstart sp"

text \<open>\<open>(struct dinode*)bp->data + inum%IPB\<close>\<close>

definition dinode_off :: "u32 \<Rightarrow> nat" where
  "dinode_off i = unat i mod IPB * 64"

section \<open>Blocks\<close>

definition bzero :: "u32 \<Rightarrow> u32 \<Rightarrow> ('a log_scheme, unit) kmon" where
  "bzero dev bno = kbind (bread dev bno) (\<lambda>bp.
     kseq (kmod (bupd bp (\<lambda>x. x\<lparr>bdata := replicate BSIZE 0\<rparr>)))
     (kseq (log_write bp)
     (brelse bp)))"

text \<open>Bit \<open>bi\<close> of a block of the bitmap, and the inner loop of \<open>balloc\<close>.\<close>

definition bit_free :: "u8 list \<Rightarrow> nat \<Rightarrow> bool" where
  "bit_free d bi \<longleftrightarrow> d ! (bi div 8) AND push_bit (bi mod 8) 1 = 0"

definition bit_set :: "nat \<Rightarrow> u8 list \<Rightarrow> u8 list" where
  "bit_set bi d = d[bi div 8 := d ! (bi div 8) OR push_bit (bi mod 8) 1]"

definition bit_clear :: "nat \<Rightarrow> u8 list \<Rightarrow> u8 list" where
  "bit_clear bi d = d[bi div 8 := d ! (bi div 8) AND NOT (push_bit (bi mod 8) 1)]"

definition first_free :: "u8 list \<Rightarrow> nat \<Rightarrow> nat option" where
  "first_free d limit = find (bit_free d) [0..<min BPB limit]"

text \<open>
  The outer loop runs once for each of the \<open>size / 4096\<close> blocks of the bitmap, so at
  most \<open>2\<^sup>20\<close> times.
\<close>

definition balloc :: "u32 \<Rightarrow> ('a icache_scheme, u32) kmon" where
  "balloc dev = kiter 1048577 (\<lambda>b.
     kbind (kget sb) (\<lambda>sb.
     if b < sb_size sb then
       kbind (bread dev (BBLOCK b sb)) (\<lambda>bp.
       kbind (bfield bp (\<lambda>x. first_free (bdata x) (unat (sb_size sb - b)))) (\<lambda>found.
       case found of
         Some bi \<Rightarrow>
           kseq (kmod (bupd bp (\<lambda>x. x\<lparr>bdata := bit_set bi (bdata x)\<rparr>)))
           (kseq (log_write bp)
           (kseq (brelse bp)
           (kseq (bzero dev (b + of_nat bi))
           (kreturn (Inr (b + of_nat bi))))))
       | None \<Rightarrow> kseq (brelse bp) (kreturn (Inl (b + of_nat BPB)))))
     else kpanic ''balloc: out of blocks'')) 0"

definition bfree :: "u32 \<Rightarrow> u32 \<Rightarrow> ('a icache_scheme, unit) kmon" where
  "bfree dev b = kbind (readsb dev) (\<lambda>sb'.
     kseq (kmod (\<lambda>s. s\<lparr>sb := sb'\<rparr>))
     (kbind (bread dev (BBLOCK b sb')) (\<lambda>bp.
      (let bi = unat b mod BPB in
       kbind (bfield bp (\<lambda>x. bit_free (bdata x) bi)) (\<lambda>free.
       if free then kpanic ''freeing free block''
       else
         kseq (kmod (bupd bp (\<lambda>x. x\<lparr>bdata := bit_clear bi (bdata x)\<rparr>)))
         (kseq (log_write bp)
         (brelse bp)))))))"

section \<open>Inodes\<close>

definition iinit :: "u32 \<Rightarrow> ('a icache_scheme, unit) kmon" where
  "iinit dev =
     kseq (initlock ICACHE_LOCK ''icache'')
     (kseq (kfor islots (\<lambda>i. initsleeplock (InodeSleep i) ''inode''))
     (kbind (readsb dev) (\<lambda>sb'.
      kseq (kmod (\<lambda>s. s\<lparr>sb := sb'\<rparr>))
      (cprintf ''sb: size %d nblocks %d ninodes %d nlog %d logstart %d inodestart %d bmap start %d\<newline>''
         [Word (sb_size sb'), Word (sb_nblocks sb'), Word (sb_ninodes sb'), Word (sb_nlog sb'),
          Word (sb_logstart sb'), Word (sb_inodestart sb'), Word (sb_bmapstart sb')]))))"

definition iget :: "u32 \<Rightarrow> u32 \<Rightarrow> ('a icache_scheme, nat) kmon" where
  "iget dev n =
     kseq (acquire ICACHE_LOCK)
     (kbind (kget (\<lambda>s. find (\<lambda>i. iref (inodes s ! i) > 0 \<and> idev (inodes s ! i) = dev \<and> inum (inodes s ! i) = n) islots)) (\<lambda>hit.
      case hit of
        Some i \<Rightarrow>
          kseq (kmod (iupd i (\<lambda>x. x\<lparr>iref := iref x + 1\<rparr>)))
          (kseq (release ICACHE_LOCK)
          (kreturn i))
      | None \<Rightarrow>
          kbind (kget (\<lambda>s. find (\<lambda>i. iref (inodes s ! i) = 0) islots)) (\<lambda>empty.
          case empty of
            None \<Rightarrow> kpanic ''iget: no inodes''
          | Some i \<Rightarrow>
              kseq (kmod (iupd i (\<lambda>x. x\<lparr>idev := dev, inum := n, iref := 1, ivalid := False\<rparr>)))
              (kseq (release ICACHE_LOCK)
              (kreturn i)))))"

text \<open>
  The loop over the inode numbers from 1, which ends because the number grows towards
  \<open>sb.ninodes\<close>; an inode number has 32 bits.
\<close>

definition ialloc :: "u32 \<Rightarrow> u16 \<Rightarrow> ('a icache_scheme, nat) kmon" where
  "ialloc dev ty = kiter 4294967296 (\<lambda>n.
     kbind (kget sb) (\<lambda>sb.
     if n < sb_ninodes sb then
       kbind (bread dev (IBLOCK n sb)) (\<lambda>bp.
       kbind (bfield bp (\<lambda>x. get16 (bdata x) (dinode_off n))) (\<lambda>t.
       if t = 0 then
         kseq (kmod (bupd bp (\<lambda>x. x\<lparr>bdata := patch (dinode_off n) (replicate 64 0) (bdata x)\<rparr>)))
         (kseq (kmod (bupd bp (\<lambda>x. x\<lparr>bdata := put16 (dinode_off n) ty (bdata x)\<rparr>)))
         (kseq (log_write bp)
         (kseq (brelse bp)
         (kbind (iget dev n) (\<lambda>ip. kreturn (Inr ip))))))
       else kseq (brelse bp) (kreturn (Inl (n + 1)))))
     else kpanic ''ialloc: no inodes'')) 1"

definition iupdate :: "nat \<Rightarrow> ('a icache_scheme, unit) kmon" where
  "iupdate ip = kbind (ifield ip id) (\<lambda>x.
     kbind (kget sb) (\<lambda>sb.
     kbind (bread (idev x) (IBLOCK (inum x) sb)) (\<lambda>bp.
     kbind (ifield ip id) (\<lambda>x.
     kseq (kmod (bupd bp (\<lambda>y. y\<lparr>bdata := put_dinode (dinode_off (inum x))
        \<lparr>di_type = itype x, di_major = major x, di_minor = minor x, di_nlink = nlink x,
         di_size = isize x, di_addrs = addrs x\<rparr> (bdata y)\<rparr>)))
     (kseq (log_write bp)
     (brelse bp))))))"

definition idup :: "nat \<Rightarrow> ('a icache_scheme, nat) kmon" where
  "idup ip =
     kseq (acquire ICACHE_LOCK)
     (kseq (kmod (iupd ip (\<lambda>x. x\<lparr>iref := iref x + 1\<rparr>)))
     (kseq (release ICACHE_LOCK)
     (kreturn ip)))"

definition ilock :: "nat option \<Rightarrow> ('a icache_scheme, unit) kmon" where
  "ilock p = (case p of None \<Rightarrow> kpanic ''ilock'' | Some ip \<Rightarrow>
     kbind (ifield ip iref) (\<lambda>r.
     if r < 1 then kpanic ''ilock''
     else
       kseq (acquiresleep (InodeSleep ip))
       (kbind (ifield ip ivalid) (\<lambda>v.
        kwhen (\<not> v)
          (kbind (ifield ip id) (\<lambda>x.
           kbind (kget sb) (\<lambda>sb.
           kbind (bread (idev x) (IBLOCK (inum x) sb)) (\<lambda>bp.
           kbind (bfield bp (\<lambda>y. dinode_at (bdata y) (dinode_off (inum x)))) (\<lambda>di.
           kseq (kmod (iupd ip (\<lambda>x. x\<lparr>itype := di_type di, major := di_major di, minor := di_minor di,
              nlink := di_nlink di, isize := di_size di, addrs := di_addrs di\<rparr>)))
           (kseq (brelse bp)
           (kseq (kmod (iupd ip (\<lambda>x. x\<lparr>ivalid := True\<rparr>)))
           (kbind (ifield ip itype) (\<lambda>t.
            kwhen (t = 0) (kpanic ''ilock: no type''))))))))))))))"

definition iunlock :: "nat option \<Rightarrow> ('a icache_scheme, unit) kmon" where
  "iunlock p = (case p of None \<Rightarrow> kpanic ''iunlock'' | Some ip \<Rightarrow>
     kbind (holdingsleep (InodeSleep ip)) (\<lambda>h.
     kbind (ifield ip iref) (\<lambda>r.
     if \<not> h \<or> r < 1 then kpanic ''iunlock''
     else releasesleep (InodeSleep ip))))"

section \<open>The blocks of an inode\<close>

definition bmap :: "nat \<Rightarrow> u32 \<Rightarrow> ('a icache_scheme, u32) kmon" where
  "bmap ip bn =
     (if unat bn < NDIRECT then
        kbind (ifield ip (\<lambda>x. addrs x ! unat bn)) (\<lambda>addr.
        if addr = 0 then
          kbind (ifield ip idev) (\<lambda>dev.
          kbind (balloc dev) (\<lambda>addr.
          kseq (kmod (iupd ip (\<lambda>x. x\<lparr>addrs := (addrs x)[unat bn := addr]\<rparr>)))
          (kreturn addr)))
        else kreturn addr)
      else if unat bn - NDIRECT < NINDIRECT then
        kbind (ifield ip (\<lambda>x. addrs x ! NDIRECT)) (\<lambda>addr.
        kbind (ifield ip idev) (\<lambda>dev.
        kbind (if addr = 0 then
                 kbind (balloc dev) (\<lambda>addr.
                 kseq (kmod (iupd ip (\<lambda>x. x\<lparr>addrs := (addrs x)[NDIRECT := addr]\<rparr>)))
                 (kreturn addr))
               else kreturn addr) (\<lambda>addr.
        kbind (bread dev addr) (\<lambda>bp.
        (let k = 4 * (unat bn - NDIRECT) in
         kbind (bfield bp (\<lambda>x. get32 (bdata x) k)) (\<lambda>addr.
         kbind (if addr = 0 then
                  kbind (balloc dev) (\<lambda>addr.
                  kseq (kmod (bupd bp (\<lambda>x. x\<lparr>bdata := put32 k addr (bdata x)\<rparr>)))
                  (kseq (log_write bp)
                  (kreturn addr)))
                else kreturn addr) (\<lambda>addr.
         kseq (brelse bp)
         (kreturn addr))))))))
      else kpanic ''bmap: out of range'')"

definition itrunc :: "nat \<Rightarrow> ('a icache_scheme, unit) kmon" where
  "itrunc ip =
     kbind (ifield ip idev) (\<lambda>dev.
     kseq (kfor [0..<NDIRECT] (\<lambda>i.
        kbind (ifield ip (\<lambda>x. addrs x ! i)) (\<lambda>addr.
        kwhen (addr \<noteq> 0)
          (kseq (bfree dev addr)
          (kmod (iupd ip (\<lambda>x. x\<lparr>addrs := (addrs x)[i := 0]\<rparr>)))))))
     (kbind (ifield ip (\<lambda>x. addrs x ! NDIRECT)) (\<lambda>addr.
      kseq (kwhen (addr \<noteq> 0)
        (kbind (bread dev addr) (\<lambda>bp.
         kseq (kfor indirects (\<lambda>j.
           kbind (bfield bp (\<lambda>x. get32 (bdata x) (4 * j))) (\<lambda>a.
           kwhen (a \<noteq> 0) (bfree dev a))))
         (kseq (brelse bp)
         (kseq (bfree dev addr)
         (kmod (iupd ip (\<lambda>x. x\<lparr>addrs := (addrs x)[NDIRECT := 0]\<rparr>))))))))
      (kseq (kmod (iupd ip (\<lambda>x. x\<lparr>isize := 0\<rparr>)))
      (iupdate ip)))))"

definition iput :: "nat \<Rightarrow> ('a icache_scheme, unit) kmon" where
  "iput ip =
     kseq (acquiresleep (InodeSleep ip))
     (kbind (ifield ip (\<lambda>x. ivalid x \<and> nlink x = 0)) (\<lambda>gone.
      kseq (kwhen gone
        (kseq (acquire ICACHE_LOCK)
        (kbind (ifield ip iref) (\<lambda>r.
         kseq (release ICACHE_LOCK)
         (kwhen (r = 1)
           (kseq (itrunc ip)
           (kseq (kmod (iupd ip (\<lambda>x. x\<lparr>itype := 0\<rparr>)))
           (kseq (iupdate ip)
           (kmod (iupd ip (\<lambda>x. x\<lparr>ivalid := False\<rparr>)))))))))))
      (kseq (releasesleep (InodeSleep ip))
      (kseq (acquire ICACHE_LOCK)
      (kseq (kmod (iupd ip (\<lambda>x. x\<lparr>iref := iref x - 1\<rparr>)))
      (release ICACHE_LOCK))))))"

definition iunlockput :: "nat \<Rightarrow> ('a icache_scheme, unit) kmon" where
  "iunlockput ip = kseq (iunlock (Some ip)) (iput ip)"

text \<open>\<open>struct stat\<close> (\<^verbatim>\<open>stat.h\<close>).\<close>

record stat =
  st_type :: u16
  st_dev :: u32
  st_ino :: u32
  st_nlink :: u16
  st_size :: u32

definition stati :: "nat \<Rightarrow> ('a icache_scheme, stat) kmon" where
  "stati ip = ifield ip (\<lambda>x. \<lparr>st_type = itype x, st_dev = idev x, st_ino = inum x, st_nlink = nlink x, st_size = isize x\<rparr>)"

section \<open>Updates inside a transaction\<close>

text \<open>
  \<open>in_tx c i s M bs\<close>: process \<open>i\<close> runs on processor \<open>c\<close> inside a file system operation; the log has the
  blocks \<open>bs\<close>, and the cache and the disk together stand for the blocks \<open>M\<close>. \<open>tx_frame s t\<close>: only the
  cache, the list of logged blocks and sleeping processes differ.
\<close>

definition in_tx :: "nat \<Rightarrow> nat \<Rightarrow> 'a log_scheme \<Rightarrow> (nat \<Rightarrow> u8 list) \<Rightarrow> nat list \<Rightarrow> bool" where
  "in_tx c i s M bs \<longleftrightarrow> at_rest c i s \<and> log_ok s bs \<and> cache_rel s M (set bs) Map.empty
     \<and> log_size s \<le> int LOGSIZE \<and> 1 \<le> outstanding s"

definition tx_frame :: "'a log_scheme \<Rightarrow> 'a log_scheme \<Rightarrow> bool" where
  "tx_frame s t \<longleftrightarrow> rest_of (t\<lparr>lh_n := 0, lh_block := []\<rparr>) = rest_of (s\<lparr>lh_n := 0, lh_block := []\<rparr>)"

definition logged :: "nat \<Rightarrow> nat list \<Rightarrow> nat list" where
  "logged n bs = (if n \<in> set bs then bs else bs @ [n])"

lemma logged_simps [simp]: "set (logged n bs) = insert n (set bs)" "length (logged n bs) \<le> Suc (length bs)"
  by (auto simp: logged_def)

lemma tx_frame_trans: "tx_frame s t \<Longrightarrow> tx_frame t u \<Longrightarrow> tx_frame s u"
  by (simp add: tx_frame_def)

lemma tx_frame_step: "bio_step s t \<Longrightarrow> tx_frame s t"
  using bio_step_fields [where n = 0 and bl = "[]" and s = s and t = t] by (simp add: tx_frame_def bio_step_def)

lemma tx_frame_logged: "tx_frame s (bupd b f (s\<lparr>lh_n := k, lh_block := bl\<rparr>))"
  by (simp add: tx_frame_def rest_of_def bupd_def)

lemma tx_frameD:
  assumes "tx_frame s t"
  shows "disksize t = disksize s" "log_start t = log_start s" "log_size t = log_size s" "outstanding t = outstanding s"
proof -
  have r: "rest_of (t\<lparr>lh_n := 0, lh_block := []\<rparr>) = rest_of (s\<lparr>lh_n := 0, lh_block := []\<rparr>)" using assms by (simp add: tx_frame_def)
  show "disksize t = disksize s" using arg_cong [OF r, of disksize] by (simp add: rest_of_def)
  show "log_start t = log_start s" using arg_cong [OF r, of log_start] by (simp add: rest_of_def)
  show "log_size t = log_size s" using arg_cong [OF r, of log_size] by (simp add: rest_of_def)
  show "outstanding t = outstanding s" using arg_cong [OF r, of outstanding] by (simp add: rest_of_def)
qed

text \<open>The way every change of a block is made: read it, change it, \<open>log_write\<close> it, release it.\<close>

lemma logged_update:
  assumes tx: "in_tx c i s M bs" and n: "n < disksize s" "unat n \<notin> log_area s" "int (length bs) < log_size s - 1"
  shows "\<exists>b s1. bread 1 n e s = Ret b e s1 \<and> bdata (bufs s1 ! b) = M (unat n) \<and> length (M (unat n)) = BSIZE \<and> tx_frame s s1
    \<and> (\<forall>d. length d = BSIZE \<longrightarrow> (\<exists>s2 t. log_write b e (bupd b (\<lambda>x. x\<lparr>bdata := d\<rparr>) s1) = Ret () e s2 \<and> brelse b e s2 = Ret () e t
        \<and> in_tx c i t (M(unat n := d)) (logged (unat n) bs) \<and> tx_frame s t \<and> disk_writes t = disk_writes s))"
proof -
  have a: "at_rest c i s" and l: "log_ok s bs" and R: "cache_rel s M (set bs) Map.empty"
    and size: "log_size s \<le> 30" and out: "1 \<le> outstanding s" using tx by (auto simp: in_tx_def)
  have "card (set bs) < 30" using l card_length [of bs] by (simp add: log_ok_def)
  then obtain b s1 where 1: "bread 1 n e s = Ret b e s1" "bio_step s s1" "cache_rel s1 M (set bs) [b \<mapsto> unat n]"
    "disk_writes s1 = disk_writes s" using bc.rd_law [OF a R n(1), of e] by auto
  have h: "bdata (bufs s1 ! b) = M (unat n)" "length (M (unat n)) = BSIZE" using bc.held [OF 1(3)] by simp_all
  have "\<exists>s2 t. log_write b e (bupd b (\<lambda>x. x\<lparr>bdata := d\<rparr>) s1) = Ret () e s2 \<and> brelse b e s2 = Ret () e t
      \<and> in_tx c i t (M(unat n := d)) (logged (unat n) bs) \<and> tx_frame s t \<and> disk_writes t = disk_writes s"
    if d: "length d = BSIZE" for d
  proof -
    let ?u = "bupd b (\<lambda>x. x\<lparr>bdata := d\<rparr>) s1" and ?M = "M(unat n := d)"
    have u: "cache_rel ?u ?M (set bs) [b \<mapsto> unat n]" "bio_step s1 ?u" "disk_writes ?u = disk_writes s1"
      using bc.put_law [OF 1(3), of b "unat n" d] d by simp_all
    note st = bio_step_trans [OF 1(2) u(2)]
    have au: "at_rest c i ?u" using a bio_stepD(1) [OF st] by simp
    obtain k bl s2 where 2: "log_write b e ?u = Ret () e s2"
      "s2 = bupd b (\<lambda>x. x\<lparr>bflags := bflags x OR B_DIRTY\<rparr>) (?u\<lparr>lh_n := k, lh_block := bl\<rparr>)"
      "log_ok s2 (logged (unat n) bs)" "cache_rel s2 ?M (insert (unat n) (set bs)) [b \<mapsto> unat n]"
      using log_write_logged [OF au _ u(1), of b "unat n" e] l log_ok_step [OF st] n(2,3) size out
        bio_step_log [OF st] by (auto simp: logged_def)
    have a2: "at_rest c i s2" using au by (simp add: 2(2) at_rest_def bupd_def)
    obtain t where 3: "brelse b e s2 = Ret () e t" "bio_step s2 t" "cache_rel t ?M (insert (unat n) (set bs)) Map.empty"
      "disk_writes t = disk_writes s2" using bc.rl_law [OF a2 2(4), of b "unat n" e] by auto
    have "tx_frame s s2" unfolding 2(2) by (rule tx_frame_trans [OF tx_frame_step [OF st] tx_frame_logged])
    then have f: "tx_frame s t" by (rule tx_frame_trans [OF _ tx_frame_step [OF 3(2)]])
    have "in_tx c i t ?M (logged (unat n) bs)"
      using 3(3) a2 bio_stepD(1) [OF 3(2)] log_ok_step [OF 3(2)] 2(3) tx_frameD [OF f] size out by (simp add: in_tx_def)
    moreover have "disk_writes t = disk_writes s" using 3(4) 2(2) u(3) 1(4) by (simp add: bupd_def)
    ultimately show ?thesis using 2(1) 3(1) f by (intro exI [of _ s2] exI [of _ t]) simp
  qed
  then show ?thesis using 1(1) h tx_frame_step [OF 1(2)] by (intro exI [of _ b] exI [of _ s1]) simp
qed

section \<open>Allocation of blocks\<close>

lemma first_freeD:
  "first_free d limit = Some bi \<Longrightarrow> bi < limit \<and> bi < BPB \<and> bit_free d bi \<and> (\<forall>j<bi. \<not> bit_free d j)"
  by (auto simp: first_free_def find_Some_iff)

lemma bit_free_iff: "bit_free d j \<longleftrightarrow> \<not> bit (d ! (j div 8)) (j mod 8)"
proof -
  have "push_bit (j mod 8) (1 :: u8) = 2 ^ (j mod 8)" by (simp add: push_bit_eq_mult)
  then show ?thesis by (simp add: bit_free_def and_exp_eq_0_iff_not_bit)
qed

lemma bit_set_free:
  assumes "length d = BSIZE" "bi < BPB" "j < BPB"
  shows "bit_free (bit_set bi d) j \<longleftrightarrow> j \<noteq> bi \<and> bit_free d j"
proof (cases "j div 8 = bi div 8")
  case True
  have "j = bi \<longleftrightarrow> j mod 8 = bi mod 8" using True div_mult_mod_eq [of j 8] div_mult_mod_eq [of bi 8] by metis
  moreover have "bi div 8 < length d" using assms by simp
  moreover have "bit (push_bit (bi mod 8) (1 :: u8)) (j mod 8) \<longleftrightarrow> j mod 8 = bi mod 8"
    by (auto simp: bit_simps push_bit_eq_mult)
  ultimately show ?thesis using True by (auto simp: bit_free_iff bit_set_def bit_or_iff)
next
  case False
  then show ?thesis by (auto simp: bit_free_iff bit_set_def)
qed

lemma kiter_done: "body x e s = Ret (Inr v) e' t \<Longrightarrow> kiter (numeral k) body x e s = Ret v e' t"
  by (simp add: numeral_eq_Suc)

lemma bzero_run:
  assumes tx: "in_tx c i s M bs" and n: "n < disksize s" "unat n \<notin> log_area s" "int (length bs) < log_size s - 1"
  shows "\<exists>t. bzero 1 n e s = Ret () e t \<and> in_tx c i t (M(unat n := replicate BSIZE 0)) (logged (unat n) bs)
    \<and> tx_frame s t \<and> disk_writes t = disk_writes s"
proof -
  obtain b s1 s2 t where "bread 1 n e s = Ret b e s1" "log_write b e (bupd b (\<lambda>x. x\<lparr>bdata := replicate BSIZE 0\<rparr>) s1) = Ret () e s2"
    "brelse b e s2 = Ret () e t" "in_tx c i t (M(unat n := replicate BSIZE 0)) (logged (unat n) bs)" "tx_frame s t"
    "disk_writes t = disk_writes s" using logged_update [OF assms, of e] length_replicate [of BSIZE "0 :: u8"] by blast
  then show ?thesis by (intro exI [of _ t]) (simp add: bzero_def)
qed

text \<open>
  C7. \<open>balloc\<close> gives out a free block, and gives it out once. In a file system whose bitmap is one block, as
  with \<open>FSSIZE\<close> 1000, it returns the first block whose bit is clear; afterwards that bit is set and
  all others are as before, so that the next allocation cannot return the block again; the block
  itself is zeroed; no other block changes; and both changes are in the log of the current
  operation and not yet on the disk.
\<close>

theorem balloc_takes_free_block:
  fixes s :: "'a icache_scheme"
  assumes tx: "in_tx c i s M bs" and room: "int (length bs) + 1 < log_size s - 1"
    and fs: "0 < sb_size (sb s)" "sb_size (sb s) \<le> of_nat BPB" "sb_size (sb s) \<le> disksize s"
      "sb_bmapstart (sb s) < disksize s" "unat (sb_bmapstart (sb s)) \<notin> log_area s"
    and free: "first_free (M (unat (sb_bmapstart (sb s)))) (unat (sb_size (sb s))) = Some bi"
      "bi \<notin> log_area s" "bi \<noteq> unat (sb_bmapstart (sb s))"
  shows "\<exists>t M'. balloc 1 e s = Ret (of_nat bi) e t \<and> in_tx c i t M' (logged bi (logged (unat (sb_bmapstart (sb s))) bs))
    \<and> disk_writes t = disk_writes s \<and> M' bi = replicate BSIZE 0
    \<and> (\<forall>j<BPB. bit_free (M' (unat (sb_bmapstart (sb s)))) j \<longleftrightarrow> j \<noteq> bi \<and> bit_free (M (unat (sb_bmapstart (sb s)))) j)
    \<and> bit_free (M (unat (sb_bmapstart (sb s)))) bi
    \<and> (\<forall>n. n \<noteq> bi \<longrightarrow> n \<noteq> unat (sb_bmapstart (sb s)) \<longrightarrow> M' n = M n)"
proof -
  let ?bb = "sb_bmapstart (sb s)" and ?w = "of_nat bi :: u32"
  let ?d = "bit_set bi (M (unat ?bb))"
  note bi = first_freeD [OF free(1)]
  have "unat (sb_size (sb s)) \<le> 4096" using fs(2) by (simp add: word_le_nat_alt)
  then have "bi < 4096" using bi by simp
  then have w: "unat ?w = bi" by (simp add: unat_of_nat)
  then have "?w < sb_size (sb s)" using bi by (simp add: word_less_nat_alt)
  then have w2: "?w < disksize s" using fs(3) by (rule less_le_trans)
  obtain b s1 where 1: "bread 1 ?bb e s = Ret b e s1" "bdata (bufs s1 ! b) = M (unat ?bb)" "length (M (unat ?bb)) = BSIZE" "tx_frame s s1"
    "\<And>d. length d = BSIZE \<Longrightarrow> \<exists>s2 t. log_write b e (bupd b (\<lambda>x. x\<lparr>bdata := d\<rparr>) s1) = Ret () e s2 \<and> brelse b e s2 = Ret () e t
        \<and> in_tx c i t (M(unat ?bb := d)) (logged (unat ?bb) bs) \<and> tx_frame s t \<and> disk_writes t = disk_writes s"
    using logged_update [OF tx fs(4,5), of e] room by auto
  obtain s2 s3 where 2: "log_write b e (bupd b (\<lambda>x. x\<lparr>bdata := ?d\<rparr>) s1) = Ret () e s2" "brelse b e s2 = Ret () e s3"
    "in_tx c i s3 (M(unat ?bb := ?d)) (logged (unat ?bb) bs)" "tx_frame s s3" "disk_writes s3 = disk_writes s"
    using 1(5) [of ?d] 1(3) by (auto simp: bit_set_def)
  have "int (length (logged (unat ?bb) bs)) \<le> int (length bs) + 1" by (simp add: logged_def)
  then obtain t where 3: "bzero 1 ?w e s3 = Ret () e t" "in_tx c i t ((M(unat ?bb := ?d))(bi := replicate BSIZE 0)) (logged bi (logged (unat ?bb) bs))"
    "disk_writes t = disk_writes s3"
    using bzero_run [OF 2(3), of ?w e] w w2 free(2) room tx_frameD [OF 2(4)] by auto
  have "bupd b (\<lambda>x. x\<lparr>bdata := bit_set bi (bdata x)\<rparr>) s1 = bupd b (\<lambda>x. x\<lparr>bdata := ?d\<rparr>) s1"
    using 1(2) by (simp add: bupd_def)
  then have "balloc 1 e s = Ret ?w e t"
    unfolding balloc_def using 1(1,2) 2(1,2) 3(1) fs(1) free(1)
    by (intro kiter_done) (simp add: BBLOCK_def option_run if_run)
  then show ?thesis
    using 3(2,3) 2(5) bit_set_free [OF 1(3), of bi] bi free(3)
    by (intro exI [of _ t] exI [of _ "(M(unat ?bb := ?d))(bi := replicate BSIZE 0)"]) auto
qed

text \<open>A file system of 40 blocks, with the bitmap in block 33 and no block in use.\<close>

definition boot_fs :: icache where
  "boot_fs = log.extend (boot_log (\<lambda>_. blank) {} [])
     \<lparr>inodes = [], sb = \<lparr>sb_size = 40, sb_nblocks = 6, sb_ninodes = 8, sb_nlog = 30, sb_logstart = 2, sb_inodestart = 32, sb_bmapstart = 33\<rparr>\<rparr>"

lemma boot_fs_tx: "in_tx 0 0 boot_fs (\<lambda>_. zeros) []"
proof -
  have "cache_rel (boot (\<lambda>_. blank) {}) (\<lambda>_. zeros) {} Map.empty"
    by (rule boot_free) (simp_all add: buf_ok_def blank_def zeros_def)
  then have "cache_rel (boot_log (\<lambda>_. blank) {} []) (\<lambda>_. zeros) {} Map.empty" by (simp add: boot_log_rel)
  then have "cache_rel boot_fs (\<lambda>_. zeros) {} Map.empty" by (simp add: cache_rel_def on_disk_def boot_fs_def log.defs)
  moreover have "at_rest 0 0 boot_fs" using boot_log_at_rest [of "\<lambda>_. blank" "{}" "[]"] by (simp add: at_rest_def boot_fs_def log.defs)
  ultimately show ?thesis by (simp add: in_tx_def log_ok_def boot_fs_def log.defs)
qed

theorem balloc_takes_free_block_witness:
  "\<exists>t. balloc 1 [] boot_fs = Ret 0 [] t \<and> log_ok t [33, 0] \<and> disk_writes t = []"
proof -
  have f: "sb boot_fs = \<lparr>sb_size = 40, sb_nblocks = 6, sb_ninodes = 8, sb_nlog = 30, sb_logstart = 2, sb_inodestart = 32, sb_bmapstart = 33\<rparr>"
    "disksize boot_fs = 40" "log_start boot_fs = 2" "log_size boot_fs = 30" "disk_writes boot_fs = []"
    by (simp_all add: boot_fs_def log.defs)
  have "first_free zeros 40 = Some 0" by (simp add: first_free_def bit_free_def zeros_def upt_rec [of 0])
  then show ?thesis
    using balloc_takes_free_block [OF boot_fs_tx, of 0 "[]"] by (auto simp: f in_tx_def logged_def)
qed

end
