(* ===== verification/Console.thy ===== *)
theory Console
  imports Inode
begin

text \<open>
  The console as a device (the second half of \<^verbatim>\<open>console.c\<close>): line editing in the interrupt handler,
  and reading and writing; with \<open>procdump\<close>, which the console runs on control-P.
\<close>

section \<open>State\<close>

abbreviation (input) INPUT_BUF :: nat where "INPUT_BUF \<equiv> 128"
abbreviation (input) CONSOLE :: nat where "CONSOLE \<equiv> 1"

text \<open>The only device that the kernel enters into \<open>devsw\<close> is the console.\<close>

datatype device = ConsoleDev

record console = icache +
  input_buf :: "u8 list"
  input_r :: u32
  input_w :: u32
  input_e :: u32
  devsw :: "device option list"

section \<open>Process listing\<close>

text \<open>
  \<open>getcallerpcs\<close> follows saved frame pointers; \<open>k\<close> counts the entries still to fill, and the
  rest of the 10 entries is 0.
\<close>

fun getcallerpcs :: "nat \<Rightarrow> memory \<Rightarrow> u32 \<Rightarrow> u32 list" where
  "getcallerpcs 0 m ebp = []"
| "getcallerpcs (Suc k) m ebp =
     (if ebp = 0 \<or> ebp < KERNBASE \<or> ebp = 0xFFFFFFFF then replicate (Suc k) 0
      else load32 m (ebp + 4) # getcallerpcs k m (load32 m ebp))"

fun state_name :: "procstate \<Rightarrow> string" where
  "state_name UNUSED = ''unused''"
| "state_name EMBRYO = ''embryo''"
| "state_name SLEEPING = ''sleep ''"
| "state_name RUNNABLE = ''runble''"
| "state_name RUNNING = ''run   ''"
| "state_name ZOMBIE = ''zombie''"

definition cstring :: "u8 list \<Rightarrow> string" where
  "cstring bs = map (\<lambda>b. char_of (unat b)) (takeWhile (\<lambda>b. b \<noteq> 0) bs)"

definition procdump :: "('a ptable_scheme, unit) kmon" where
  "procdump = kfor slots (\<lambda>i.
     kbind (pget i id) (\<lambda>p.
     kwhen (pstate p \<noteq> UNUSED)
       (kseq (cprintf ''%d %s %s'' [Word (pid p), Str (Some (state_name (pstate p))), Str (Some (cstring (pname p)))])
       (kseq (kwhen (pstate p = SLEEPING)
          (kbind (kget (\<lambda>s. getcallerpcs 10 (ram s) (load32 (ram s) (kcontext p + 12)))) (\<lambda>pcs.
           kfor (takeWhile (\<lambda>pc. pc \<noteq> 0) pcs) (\<lambda>pc. cprintf '' %p'' [Word pc]))))
       (cprintf ''\<newline>'' [])))))"

section \<open>Input\<close>

abbreviation (input) BS :: int where "BS \<equiv> 8"

definition put_input :: "u32 \<Rightarrow> u8 \<Rightarrow> u8 list \<Rightarrow> u8 list" where
  "put_input k c buf = buf[unat k mod INPUT_BUF := c]"

definition get_input :: "u8 list \<Rightarrow> u32 \<Rightarrow> u8" where
  "get_input buf k = buf ! (unat k mod INPUT_BUF)"

text \<open>
  Control-U: take characters back as far as the start of the line. The edit index moves
  down to the write index, so the loop ends before the counter has gone round.
\<close>

definition kill_line :: "('a console_scheme, unit) kmon" where
  "kill_line = kiter 4294967296 (\<lambda>_.
     kbind (kget (\<lambda>s. input_e s \<noteq> input_w s \<and> get_input (input_buf s) (input_e s - 1) \<noteq> 10)) (\<lambda>more.
     if more then
       kseq (kmod (\<lambda>s. s\<lparr>input_e := input_e s - 1\<rparr>))
       (kseq (consputc BACKSPACE)
       (kreturn (Inl ())))
     else kreturn (Inr ()))) ()"

text \<open>
  One character that \<open>getc\<close> delivered; the result says whether a process listing was asked for.
\<close>

definition console_char :: "int \<Rightarrow> ('a console_scheme, bool) kmon" where
  "console_char c =
     (if c = 16 then kreturn True
      else if c = 21 then kseq kill_line (kreturn False)
      else if c = BS \<or> c = 0x7f then
        kbind (kget (\<lambda>s. input_e s \<noteq> input_w s)) (\<lambda>some.
        kseq (kwhen some
          (kseq (kmod (\<lambda>s. s\<lparr>input_e := input_e s - 1\<rparr>))
          (consputc BACKSPACE)))
        (kreturn False))
      else
        kbind (kget (\<lambda>s. input_e s - input_r s < of_nat INPUT_BUF)) (\<lambda>room.
        kseq (kwhen (c \<noteq> 0 \<and> room)
          (let c = (if c = 13 then 10 else c) in
           kseq (kmod (\<lambda>s. s\<lparr>input_buf := put_input (input_e s) (of_int c) (input_buf s), input_e := input_e s + 1\<rparr>))
           (kseq (consputc c)
           (kbind (kget (\<lambda>s. c = 10 \<or> c = 4 \<or> input_e s = input_r s + of_nat INPUT_BUF)) (\<lambda>line.
            kwhen line
              (kseq (kmod (\<lambda>s. s\<lparr>input_w := input_e s\<rparr>))
              (wakeup (Some InputChan))))))))
        (kreturn False)))"

text \<open>\<open>consoleintr\<close>: \<open>cs\<close> are the characters that \<open>getc\<close> returns before it returns a negative number.\<close>

fun console_chars :: "int list \<Rightarrow> bool \<Rightarrow> ('a console_scheme, bool) kmon" where
  "console_chars [] dump = kreturn dump"
| "console_chars (c # cs) dump = kbind (console_char c) (\<lambda>d. console_chars cs (dump \<or> d))"

definition consoleintr :: "int list \<Rightarrow> ('a console_scheme, unit) kmon" where
  "consoleintr cs =
     kseq (acquire CONS_LOCK)
     (kbind (console_chars cs False) (\<lambda>doprocdump.
      kseq (release CONS_LOCK)
      (kwhen doprocdump procdump)))"

section \<open>The device\<close>

text \<open>
  Where the bytes that are read go: to a variable of the kernel, whose new value is the
  result, or to an address. Where bytes that are written come from: likewise.
\<close>

datatype dest = ToKernel | ToAddr u32

datatype source = FromKernel "u8 list" | FromAddr u32

fun dest_put :: "dest \<Rightarrow> nat \<Rightarrow> u8 list \<Rightarrow> ('a vm_scheme, unit) kmon" where
  "dest_put ToKernel k bs = kreturn ()"
| "dest_put (ToAddr a) k bs = kwrite_bytes (a + of_nat k) bs"

fun source_get :: "source \<Rightarrow> nat \<Rightarrow> nat \<Rightarrow> ('a vm_scheme, u8 list) kmon" where
  "source_get (FromKernel bs) k n = kreturn (part k n bs)"
| "source_get (FromAddr a) k n = kread_bytes (a + of_nat k) n"

text \<open>
  \<open>consoleread\<close>: the loop state is the number of bytes still wanted and the bytes read.
  It takes at most \<open>n\<close> characters, and a wait for input uses up the schedule.
\<close>

definition await_input :: "('a console_scheme, bool) kmon" where
  "await_input = kloop (kbind (kget (\<lambda>s. input_r s = input_w s)) (\<lambda>empty.
     if empty then
       kbind myproc (\<lambda>cur. kderef cur (\<lambda>i. kbind (pget i killed) (\<lambda>dead.
       if dead then kreturn (Some False)
       else kseq (sleep (Some InputChan) (Some CONS_LOCK)) (kreturn None))))
     else kreturn (Some True)))"

fun consoleread_loop :: "nat \<Rightarrow> nat \<Rightarrow> dest \<Rightarrow> u8 list \<Rightarrow> ('a console_scheme, u8 list option) kmon" where
  "consoleread_loop target 0 dst got = kreturn (Some got)"
| "consoleread_loop target (Suc n) dst got =
     kbind await_input (\<lambda>ok.
     if \<not> ok then kreturn None
     else
       kbind (kget (\<lambda>s. get_input (input_buf s) (input_r s))) (\<lambda>c.
       kseq (kmod (\<lambda>s. s\<lparr>input_r := input_r s + 1\<rparr>))
       (if c = 4 then
          kseq (kwhen (Suc n < target) (kmod (\<lambda>s. s\<lparr>input_r := input_r s - 1\<rparr>)))
          (kreturn (Some got))
        else
          kseq (dest_put dst (length got) [c])
          (if c = 10 then kreturn (Some (got @ [c]))
           else consoleread_loop target n dst (got @ [c])))))"

definition consoleread :: "nat \<Rightarrow> dest \<Rightarrow> int \<Rightarrow> ('a console_scheme, int \<times> u8 list) kmon" where
  "consoleread ip dst n =
     kseq (iunlock (Some ip))
     (kseq (acquire CONS_LOCK)
     (kbind (consoleread_loop (nat n) (nat n) dst []) (\<lambda>r.
      kseq (release CONS_LOCK)
      (kseq (ilock (Some ip))
      (kreturn (case r of None \<Rightarrow> (-1, []) | Some bs \<Rightarrow> (int (length bs), bs)))))))"

definition consolewrite :: "nat \<Rightarrow> source \<Rightarrow> int \<Rightarrow> ('a console_scheme, int) kmon" where
  "consolewrite ip src n =
     kseq (iunlock (Some ip))
     (kseq (acquire CONS_LOCK)
     (kseq (kfor [0..<nat n] (\<lambda>i. kbind (source_get src i 1) (\<lambda>b. consputc (uint (b ! 0)))))
     (kseq (release CONS_LOCK)
     (kseq (ilock (Some ip))
     (kreturn n)))))"

text \<open>\<open>consoleinit\<close>; the route of the keyboard interrupt is set in the I/O APIC, which is not modelled.\<close>

definition consoleinit :: "('a console_scheme, unit) kmon" where
  "consoleinit =
     kseq (initlock CONS_LOCK ''console'')
     (kmod (\<lambda>s. s\<lparr>cons_locking := True, devsw := (devsw s)[CONSOLE := Some ConsoleDev]\<rparr>))"

end
