(* ===== verification/Fs.thy ===== *)
theory Fs
  imports Console
begin

text \<open>
  Files, directories and paths (the second half of \<^verbatim>\<open>fs.c\<close>): reading and writing the contents of an
  inode, directory entries, and the walk along a path.
\<close>

section \<open>Contents of inodes\<close>

abbreviation (input) NDEV :: int where "NDEV \<equiv> 10"
abbreviation (input) MAXFILE :: nat where "MAXFILE \<equiv> 140"
abbreviation (input) DIRSIZ :: nat where "DIRSIZ \<equiv> 14"

text \<open>\<open>devsw[major]\<close>, when the number is in range and the entry is set.\<close>

definition device_of :: "device option list \<Rightarrow> u16 \<Rightarrow> device option" where
  "device_of sw m = (if sint m < 0 \<or> sint m \<ge> NDEV then None else sw ! unat m)"

text \<open>
  The amount of one round, \<open>min(n - tot, BSIZE - off%BSIZE)\<close>. Each round copies at
  least one byte, so \<open>n + 1\<close> rounds are enough.
\<close>

definition chunk :: "u32 \<Rightarrow> u32 \<Rightarrow> u32 \<Rightarrow> u32" where
  "chunk n tot off = min (n - tot) (of_nat BSIZE - off mod of_nat BSIZE)"

definition readi_loop :: "nat \<Rightarrow> dest \<Rightarrow> u32 \<Rightarrow> u32 \<Rightarrow> ('a icache_scheme, u8 list) kmon" where
  "readi_loop ip dst off n = kiter (unat n + 1) (\<lambda>(tot, off, got).
     if tot < n then
       kbind (bmap ip (off div of_nat BSIZE)) (\<lambda>bn.
       kbind (ifield ip idev) (\<lambda>dev.
       kbind (bread dev bn) (\<lambda>bp.
       (let m = chunk n tot off in
        kbind (bfield bp (\<lambda>x. part (unat (off mod of_nat BSIZE)) (unat m) (bdata x))) (\<lambda>bs.
        kseq (dest_put dst (unat tot) bs)
        (kseq (brelse bp)
        (kreturn (Inl (tot + m, off + m, got @ bs)))))))))
     else kreturn (Inr got)) (0, off, [])"

definition readi :: "nat \<Rightarrow> dest \<Rightarrow> u32 \<Rightarrow> u32 \<Rightarrow> ('a console_scheme, int \<times> u8 list) kmon" where
  "readi ip dst off n = kbind (ifield ip id) (\<lambda>x.
     if itype x = T_DEV then
       kbind (kget (\<lambda>s. device_of (devsw s) (major x))) (\<lambda>d.
       case d of None \<Rightarrow> kreturn (-1, []) | Some ConsoleDev \<Rightarrow> consoleread ip dst (sint n))
     else if off > isize x \<or> off + n < off then kreturn (-1, [])
     else
       (let n = (if off + n > isize x then isize x - off else n) in
        kbind (readi_loop ip dst off n) (\<lambda>bs. kreturn (sint n, bs))))"

definition writei_loop :: "nat \<Rightarrow> source \<Rightarrow> u32 \<Rightarrow> u32 \<Rightarrow> ('a icache_scheme, u32) kmon" where
  "writei_loop ip src off n = kiter (unat n + 1) (\<lambda>(tot, off).
     if tot < n then
       kbind (bmap ip (off div of_nat BSIZE)) (\<lambda>bn.
       kbind (ifield ip idev) (\<lambda>dev.
       kbind (bread dev bn) (\<lambda>bp.
       (let m = chunk n tot off in
        kbind (source_get src (unat tot) (unat m)) (\<lambda>bs.
        kseq (kmod (bupd bp (\<lambda>x. x\<lparr>bdata := patch (unat (off mod of_nat BSIZE)) bs (bdata x)\<rparr>)))
        (kseq (log_write bp)
        (kseq (brelse bp)
        (kreturn (Inl (tot + m, off + m))))))))))
     else kreturn (Inr off)) (0, off)"

definition writei :: "nat \<Rightarrow> source \<Rightarrow> u32 \<Rightarrow> u32 \<Rightarrow> ('a console_scheme, int) kmon" where
  "writei ip src off n = kbind (ifield ip id) (\<lambda>x.
     if itype x = T_DEV then
       kbind (kget (\<lambda>s. device_of (devsw s) (major x))) (\<lambda>d.
       case d of None \<Rightarrow> kreturn (-1) | Some ConsoleDev \<Rightarrow> consolewrite ip src (sint n))
     else if off > isize x \<or> off + n < off then kreturn (-1)
     else if off + n > of_nat (MAXFILE * BSIZE) then kreturn (-1)
     else
       kbind (writei_loop ip src off n) (\<lambda>off.
       kbind (ifield ip isize) (\<lambda>old.
       kseq (kwhen (n > 0 \<and> off > old)
         (kseq (kmod (iupd ip (\<lambda>x. x\<lparr>isize := off\<rparr>)))
         (iupdate ip)))
       (kreturn (sint n)))))"

section \<open>Directories\<close>

text \<open>
  A name is the bytes of a C string, without the null byte, of which at most 14 count.
  \<open>namecmp\<close> is \<open>strncmp\<close> with that bound.
\<close>

fun char_at :: "u8 list \<Rightarrow> u8" where
  "char_at [] = 0"
| "char_at (c # cs) = c"

definition chars :: "u8 list \<Rightarrow> nat \<Rightarrow> u8" where
  "chars p i = (if i < length p then p ! i else 0)"

definition namecmp :: "u8 list \<Rightarrow> u8 list \<Rightarrow> int" where
  "namecmp p q = strncmp (chars p) (chars q) DIRSIZ"

text \<open>\<open>struct dirent\<close>, 16 bytes.\<close>

record dirent =
  de_inum :: u16
  de_name :: "u8 list"

definition dirent_of :: "u8 list \<Rightarrow> dirent" where
  "dirent_of d = \<lparr>de_inum = get16 d 0, de_name = part 2 DIRSIZ d\<rparr>"

definition bytes_of_dirent :: "dirent \<Rightarrow> u8 list" where
  "bytes_of_dirent de = bytes_of_half (de_inum de) @ de_name de"

definition read_dirent :: "string \<Rightarrow> nat \<Rightarrow> u32 \<Rightarrow> ('a console_scheme, dirent) kmon" where
  "read_dirent msg dp off = kbind (readi dp ToKernel off 16) (\<lambda>(r, bs).
     if r \<noteq> 16 then kpanic msg else kreturn (dirent_of bs))"

text \<open>
  The result of \<open>dirlookup\<close> is the inode and the offset of its entry. A directory of
  at most \<open>2\<^sup>32\<close> bytes has at most \<open>2\<^sup>28\<close> entries.
\<close>

definition dirlookup :: "nat \<Rightarrow> u8 list \<Rightarrow> ('a console_scheme, (nat \<times> u32) option) kmon" where
  "dirlookup dp name = kbind (ifield dp itype) (\<lambda>t.
     if t \<noteq> T_DIR then kpanic ''dirlookup not DIR''
     else kiter 268435457 (\<lambda>off.
       kbind (ifield dp isize) (\<lambda>size.
       if off < size then
         kbind (read_dirent ''dirlookup read'' dp off) (\<lambda>de.
         if de_inum de = 0 then kreturn (Inl (off + 16))
         else if namecmp name (de_name de) = 0 then
           kbind (ifield dp idev) (\<lambda>dev.
           kbind (iget dev (ucast (de_inum de))) (\<lambda>ip.
           kreturn (Inr (Some (ip, off)))))
         else kreturn (Inl (off + 16)))
       else kreturn (Inr None))) 0)"

definition dirlink :: "nat \<Rightarrow> u8 list \<Rightarrow> u32 \<Rightarrow> ('a console_scheme, int) kmon" where
  "dirlink dp name n = kbind (dirlookup dp name) (\<lambda>found.
     case found of
       Some (ip, _) \<Rightarrow> kseq (iput ip) (kreturn (-1))
     | None \<Rightarrow>
         kbind (kiter 268435457 (\<lambda>off.
           kbind (ifield dp isize) (\<lambda>size.
           if off < size then
             kbind (read_dirent ''dirlink read'' dp off) (\<lambda>de.
             if de_inum de = 0 then kreturn (Inr off) else kreturn (Inl (off + 16)))
           else kreturn (Inr off))) 0) (\<lambda>off.
         kbind (writei dp (FromKernel (bytes_of_dirent \<lparr>de_inum = ucast n, de_name = strncpy (replicate DIRSIZ 0) (chars name) (int DIRSIZ)\<rparr>)) off 16) (\<lambda>r.
         if r \<noteq> 16 then kpanic ''dirlink'' else kreturn 0)))"

section \<open>Paths\<close>

abbreviation (input) SLASH :: u8 where "SLASH \<equiv> 47"

text \<open>
  \<open>skipelem\<close> splits the first element off a path; \<open>None\<close> is the null pointer.
\<close>

definition skipelem :: "u8 list \<Rightarrow> (u8 list \<times> u8 list) option" where
  "skipelem path =
     (let s = dropWhile (\<lambda>c. c = SLASH) path in
      if s = [] then None
      else
        (let elem = takeWhile (\<lambda>c. c \<noteq> SLASH) s;
             rest = dropWhile (\<lambda>c. c \<noteq> SLASH) s in
         Some (take DIRSIZ elem, dropWhile (\<lambda>c. c = SLASH) rest)))"

text \<open>
  \<open>namex\<close>; the loop state is the rest of the path, the inode and the last name copied.
  Every round shortens the path.
\<close>

definition namex :: "u8 list \<Rightarrow> bool \<Rightarrow> ('a console_scheme, (nat \<times> u8 list) option) kmon" where
  "namex path nameiparent =
     kbind (if char_at path = SLASH then iget ROOTDEV ROOTINO
            else kbind myproc (\<lambda>cur. kderef cur (\<lambda>i.
              kbind (pget i cwd) (\<lambda>d. kderef d idup)))) (\<lambda>ip.
     kiter (length path + 1) (\<lambda>(path, ip, name).
       case skipelem path of
         Some (name, path) \<Rightarrow>
           kseq (ilock (Some ip))
           (kbind (ifield ip itype) (\<lambda>t.
            if t \<noteq> T_DIR then kseq (iunlockput ip) (kreturn (Inr None))
            else if nameiparent \<and> path = [] then
              kseq (iunlock (Some ip)) (kreturn (Inr (Some (ip, name))))
            else
              kbind (dirlookup ip name) (\<lambda>found.
              kseq (iunlockput ip)
              (kreturn (case found of
                 None \<Rightarrow> Inr None
               | Some (nx, _) \<Rightarrow> Inl (path, nx, name))))))
       | None \<Rightarrow>
           if nameiparent then kseq (iput ip) (kreturn (Inr None))
           else kreturn (Inr (Some (ip, name)))) (path, ip, []))"

definition namei :: "u8 list \<Rightarrow> ('a console_scheme, nat option) kmon" where
  "namei path = kbind (namex path False) (\<lambda>r. kreturn (map_option fst r))"

definition nameiparent :: "u8 list \<Rightarrow> ('a console_scheme, (nat \<times> u8 list) option) kmon" where
  "nameiparent path = namex path True"

end
