(* ===== verification/Pipe.thy ===== *)
theory Pipe
  imports Fs
begin

text \<open>
  Pipes (\<^verbatim>\<open>pipe.c\<close>): a ring buffer of 512 bytes between two counters, in a page of its own. The
  operations that also allocate or close files are with the files.
\<close>

section \<open>State and operations\<close>

abbreviation (input) PIPESIZE :: nat where "PIPESIZE \<equiv> 512"

record pipe =
  pipe_data :: "u8 list"
  nread :: u32
  nwrite :: u32
  readopen :: bool
  writeopen :: bool

text \<open>
  The contents of the pages that hold a pipe, by the address of the page, are kept apart
  from the other memory.
\<close>

record pipes = console +
  pipes :: "u32 \<Rightarrow> pipe"

definition pipe_upd :: "u32 \<Rightarrow> (pipe \<Rightarrow> pipe) \<Rightarrow> 'a pipes_scheme \<Rightarrow> 'a pipes_scheme" where
  "pipe_upd p f s = s\<lparr>pipes := (pipes s)(p := f (pipes s p))\<rparr>"

abbreviation (input) pipe_field :: "u32 \<Rightarrow> (pipe \<Rightarrow> 'b) \<Rightarrow> ('a pipes_scheme, 'b) kmon" where
  "pipe_field p f \<equiv> kget (\<lambda>s. f (pipes s p))"

text \<open>Storing and fetching a byte, with the counter that goes on.\<close>

definition pipe_put :: "u8 \<Rightarrow> pipe \<Rightarrow> pipe" where
  "pipe_put b x = x\<lparr>pipe_data := (pipe_data x)[unat (nwrite x) mod PIPESIZE := b], nwrite := nwrite x + 1\<rparr>"

definition pipe_front :: "pipe \<Rightarrow> u8" where
  "pipe_front x = pipe_data x ! (unat (nread x) mod PIPESIZE)"

definition pipe_get :: "pipe \<Rightarrow> pipe" where
  "pipe_get x = x\<lparr>nread := nread x + 1\<rparr>"

definition pipe_full :: "pipe \<Rightarrow> bool" where
  "pipe_full x \<longleftrightarrow> nwrite x = nread x + of_nat PIPESIZE"

definition pipe_empty :: "pipe \<Rightarrow> bool" where
  "pipe_empty x \<longleftrightarrow> nread x = nwrite x"

definition pipeclose :: "u32 \<Rightarrow> bool \<Rightarrow> ('a pipes_scheme, unit) kmon" where
  "pipeclose p writable =
     kseq (acquire (PIPE_LOCK p))
     (kseq (if writable then
              kseq (kmod (pipe_upd p (\<lambda>x. x\<lparr>writeopen := False\<rparr>)))
              (wakeup (Some (PipeReadChan p)))
            else
              kseq (kmod (pipe_upd p (\<lambda>x. x\<lparr>readopen := False\<rparr>)))
              (wakeup (Some (PipeWriteChan p))))
     (kbind (pipe_field p (\<lambda>x. \<not> readopen x \<and> \<not> writeopen x)) (\<lambda>both.
      if both then kseq (release (PIPE_LOCK p)) (kfree p)
      else release (PIPE_LOCK p))))"

text \<open>
  The wait for room in \<open>pipewrite\<close>: \<open>False\<close> when nobody will read or the process was killed.
\<close>

definition await_room :: "u32 \<Rightarrow> ('a pipes_scheme, bool) kmon" where
  "await_room p = kloop (kbind (pipe_field p id) (\<lambda>x.
     if pipe_full x then
       kbind (if readopen x then kbind myproc (\<lambda>cur. kderef cur (\<lambda>i. pget i killed)) else kreturn True) (\<lambda>stop.
       if stop then kreturn (Some False)
       else
         kseq (wakeup (Some (PipeReadChan p)))
         (kseq (sleep (Some (PipeWriteChan p)) (Some (PIPE_LOCK p)))
         (kreturn None)))
     else kreturn (Some True)))"

fun pipewrite_loop :: "u32 \<Rightarrow> u32 \<Rightarrow> nat \<Rightarrow> ('a pipes_scheme, bool) kmon" where
  "pipewrite_loop p addr 0 = kreturn True"
| "pipewrite_loop p addr (Suc n) =
     kbind (await_room p) (\<lambda>ok.
     if \<not> ok then kreturn False
     else
       kbind (kread8 addr) (\<lambda>b.
       kseq (kmod (pipe_upd p (pipe_put b)))
       (pipewrite_loop p (addr + 1) n)))"

definition pipewrite :: "u32 \<Rightarrow> u32 \<Rightarrow> int \<Rightarrow> ('a pipes_scheme, int) kmon" where
  "pipewrite p addr n =
     kseq (acquire (PIPE_LOCK p))
     (kbind (pipewrite_loop p addr (nat n)) (\<lambda>ok.
      if ok then
        kseq (wakeup (Some (PipeReadChan p)))
        (kseq (release (PIPE_LOCK p))
        (kreturn n))
      else kseq (release (PIPE_LOCK p)) (kreturn (-1))))"

definition await_data :: "u32 \<Rightarrow> ('a pipes_scheme, bool) kmon" where
  "await_data p = kloop (kbind (pipe_field p id) (\<lambda>x.
     if pipe_empty x \<and> writeopen x then
       kbind (kbind myproc (\<lambda>cur. kderef cur (\<lambda>i. pget i killed))) (\<lambda>dead.
       if dead then kreturn (Some False)
       else
         kseq (sleep (Some (PipeReadChan p)) (Some (PIPE_LOCK p)))
         (kreturn None))
     else kreturn (Some True)))"

fun piperead_loop :: "u32 \<Rightarrow> u32 \<Rightarrow> nat \<Rightarrow> nat \<Rightarrow> ('a pipes_scheme, nat) kmon" where
  "piperead_loop p addr i 0 = kreturn i"
| "piperead_loop p addr i (Suc n) =
     kbind (pipe_field p id) (\<lambda>x.
     if pipe_empty x then kreturn i
     else
       kseq (kmod (pipe_upd p pipe_get))
       (kseq (kwrite_bytes addr [pipe_front x])
       (piperead_loop p (addr + 1) (Suc i) n)))"

definition piperead :: "u32 \<Rightarrow> u32 \<Rightarrow> int \<Rightarrow> ('a pipes_scheme, int) kmon" where
  "piperead p addr n =
     kseq (acquire (PIPE_LOCK p))
     (kbind (await_data p) (\<lambda>ok.
      if \<not> ok then kseq (release (PIPE_LOCK p)) (kreturn (-1))
      else
        kbind (piperead_loop p addr 0 (nat n)) (\<lambda>i.
        kseq (wakeup (Some (PipeWriteChan p)))
        (kseq (release (PIPE_LOCK p))
        (kreturn (int i))))))"


section \<open>Queues\<close>

text \<open>
  What the two ends of a pipe rely on: a bounded queue, with \<open>items\<close> from the oldest to the
  newest one.
\<close>

locale bounded_queue =
  fixes ok :: "'q \<Rightarrow> bool" and items :: "'q \<Rightarrow> 'x list" and cap :: nat
    and put :: "'x \<Rightarrow> 'q \<Rightarrow> 'q" and front :: "'q \<Rightarrow> 'x" and get :: "'q \<Rightarrow> 'q"
    and full :: "'q \<Rightarrow> bool" and empty :: "'q \<Rightarrow> bool"
  assumes empty_iff: "ok q \<Longrightarrow> empty q \<longleftrightarrow> items q = []"
    and full_iff: "ok q \<Longrightarrow> full q \<longleftrightarrow> length (items q) = cap"
    and bounded: "ok q \<Longrightarrow> length (items q) \<le> cap"
    and put_law: "ok q \<Longrightarrow> \<not> full q \<Longrightarrow> ok (put b q) \<and> items (put b q) = items q @ [b]"
    and get_law: "ok q \<Longrightarrow> \<not> empty q \<Longrightarrow> ok (get q) \<and> items q = front q # items (get q)"
begin

lemma put_all:
  "ok q \<Longrightarrow> length (items q) + length bs \<le> cap \<Longrightarrow> ok (fold put bs q) \<and> items (fold put bs q) = items q @ bs"
proof (induction bs arbitrary: q)
  case (Cons b bs)
  then have "\<not> full q" by (simp add: full_iff)
  with Cons.prems(1) have "ok (put b q)" "items (put b q) = items q @ [b]" using put_law by auto
  with Cons.IH [of "put b q"] Cons.prems(2) show ?case by simp
qed simp

lemma get_all:
  "ok q \<Longrightarrow> ok ((get ^^ min n (length (items q))) q) \<and> items ((get ^^ min n (length (items q))) q) = drop n (items q)"
proof (induction n arbitrary: q)
  case (Suc n)
  show ?case
  proof (cases "items q")
    case (Cons x xs)
    then have "\<not> empty q" using Suc.prems empty_iff by simp
    with Suc.prems Cons have "ok (get q)" "items (get q) = xs" using get_law by auto
    with Suc.IH [of "get q"] Cons show ?thesis by (simp add: funpow_swap1)
  qed (use Suc.prems in simp)
qed simp

end

text \<open>
  The bytes of a pipe. The counters run through all the 32 bit words and wrap around; the
  size of the buffer divides \<open>2\<^sup>3\<^sup>2\<close>, so a position in it does not jump then.
\<close>

definition pipe_ok :: "pipe \<Rightarrow> bool" where
  "pipe_ok x \<longleftrightarrow> length (pipe_data x) = PIPESIZE \<and> unat (nwrite x - nread x) \<le> PIPESIZE"

definition pipe_items :: "pipe \<Rightarrow> u8 list" where
  "pipe_items x = map (\<lambda>i. pipe_data x ! (unat (nread x + of_nat i) mod PIPESIZE)) [0..<unat (nwrite x - nread x)]"

lemma unat_add_mod: "unat (a + of_nat i :: u32) mod PIPESIZE = (unat a + i) mod PIPESIZE"
proof -
  have "unat (a + of_nat i) = (unat a + i) mod 2 ^ 32"
    by (simp add: unat_word_ariths unat_of_nat mod_simps)
  then show ?thesis by (simp add: mod_mod_cancel)
qed

lemma unat_pred:
  fixes a :: u32
  assumes "a \<noteq> 0"
  shows "unat (a - 1) = unat a - 1" "unat a = Suc (unat (a - 1))"
proof -
  show "unat (a - 1) = unat a - 1" using assms by (simp add: unat_minus_one)
  then show "unat a = Suc (unat (a - 1))" using assms by (simp add: unat_gt_0)
qed

lemma pipe_put_law:
  assumes x: "pipe_ok x" and f: "\<not> pipe_full x"
  shows "pipe_ok (pipe_put b x) \<and> pipe_items (pipe_put b x) = pipe_items x @ [b]"
proof -
  let ?k = "unat (nwrite x - nread x)"
  have "nwrite x - nread x \<noteq> of_nat PIPESIZE" using f by (auto simp: pipe_full_def algebra_simps)
  then have "?k \<noteq> PIPESIZE" using word_unat_eq_iff [of "nwrite x - nread x" "512"] by simp
  then have k: "?k < PIPESIZE" and d: "length (pipe_data x) = PIPESIZE" using x by (auto simp: pipe_ok_def)
  have w: "nwrite x = nread x + of_nat ?k" by simp
  have s: "nwrite x + 1 - nread x = (nwrite x - nread x) + 1" by simp
  have "unat ((nwrite x - nread x) + 1) = Suc ?k" using k by (simp add: unat_word_ariths)
  then have k1: "unat (nwrite x + 1 - nread x) = Suc ?k" by (simp only: s)
  have ne: "unat (nread x + of_nat i) mod PIPESIZE \<noteq> unat (nwrite x) mod PIPESIZE" if "i < ?k" for i
  proof -
    have "(unat (nread x) + i) mod 512 \<noteq> (unat (nread x) + ?k) mod 512"
    proof
      assume "(unat (nread x) + i) mod 512 = (unat (nread x) + ?k) mod 512"
      then have "512 dvd (unat (nread x) + ?k) - (unat (nread x) + i)"
        using that by (intro mod_eq_dvd_iff_nat [THEN iffD1]) simp_all
      then have "512 dvd ?k - i" by simp
      then show False using that k by (auto dest: dvd_imp_le)
    qed
    then show ?thesis using w unat_add_mod by metis
  qed
  have "pipe_items (pipe_put b x) ! i = (pipe_items x @ [b]) ! i" if "i < Suc ?k" for i
    using that ne [of i] k1 d w by (cases "i = ?k") (simp_all add: pipe_items_def pipe_put_def nth_append)
  then have "pipe_items (pipe_put b x) = pipe_items x @ [b]"
    by (intro nth_equalityI) (use k1 in \<open>simp_all add: pipe_items_def pipe_put_def\<close>)
  moreover have "pipe_ok (pipe_put b x)" using d k k1 by (simp add: pipe_ok_def pipe_put_def)
  ultimately show ?thesis by simp
qed

lemma pipe_get_law:
  assumes x: "pipe_ok x" and e: "\<not> pipe_empty x"
  shows "pipe_ok (pipe_get x) \<and> pipe_items x = pipe_front x # pipe_items (pipe_get x)"
proof -
  let ?a = "nwrite x - nread x"
  have a: "?a \<noteq> 0" using e by (auto simp: pipe_empty_def)
  have s: "nwrite x - (nread x + 1) = ?a - 1" by simp
  note u = unat_pred [OF a]
  have "[0..<Suc m] = 0 # map Suc [0..<m]" for m by (simp add: map_Suc_upt upt_conv_Cons del: upt_Suc)
  then have "pipe_items x = map (\<lambda>i. pipe_data x ! (unat (nread x + of_nat i) mod PIPESIZE)) (0 # map Suc [0..<unat (?a - 1)])"
    using u(2) by (simp only: pipe_items_def)
  then have "pipe_items x = pipe_front x # pipe_items (pipe_get x)"
    by (simp add: pipe_front_def pipe_items_def pipe_get_def s add.assoc)
  moreover have "unat (nwrite x - (nread x + 1)) \<le> PIPESIZE" unfolding s using x u(1) by (auto simp: pipe_ok_def)
  then have "pipe_ok (pipe_get x)" using x by (simp add: pipe_ok_def pipe_get_def)
  ultimately show ?thesis by simp
qed

interpretation pq: bounded_queue pipe_ok pipe_items PIPESIZE pipe_put pipe_front pipe_get pipe_full pipe_empty
proof
  fix q assume q: "pipe_ok q"
  show "pipe_empty q \<longleftrightarrow> pipe_items q = []"
    by (auto simp: pipe_empty_def pipe_items_def unat_eq_0)
  have "nwrite q - nread q = 512 \<longleftrightarrow> unat (nwrite q - nread q) = 512"
    using word_unat_eq_iff [of "nwrite q - nread q" "512"] by simp
  moreover have "nwrite q = nread q + 512 \<longleftrightarrow> nwrite q - nread q = 512" by (auto simp: algebra_simps)
  ultimately show "pipe_full q \<longleftrightarrow> length (pipe_items q) = PIPESIZE"
    by (simp add: pipe_full_def pipe_items_def)
  show "length (pipe_items q) \<le> PIPESIZE" using q by (simp add: pipe_ok_def pipe_items_def)
qed (rule pipe_put_law pipe_get_law, assumption+)+


section \<open>Writing and reading\<close>

lemma kread8_run:
  "kread8 va e s = (case kxlate (ram s) (cr3 s) False va of None \<Rightarrow> Panic ''trap'' s | Some pa \<Rightarrow> Ret (ram s pa) e s)"
  by (simp add: kread8_def option_run split: option.splits)

lemma kread_bytes_Cons:
  assumes "kread_bytes va (Suc n) e s = Ret bs e s"
  shows "\<exists>b bs'. bs = b # bs' \<and> kread8 va e s = Ret b e s \<and> kread_bytes (va + 1) n e s = Ret bs' e s"
proof -
  obtain b where b: "kread8 va e s = Ret b e s"
    using assms by (cases "kxlate (ram s) (cr3 s) False va") (simp_all add: kread8_run)
  with assms show ?thesis by (cases "kread_bytes (va + 1) n e s") auto
qed

lemma kread_bytes_pipes: "kread_bytes va n e s = Ret bs e s \<Longrightarrow> kread_bytes va n e (pipe_upd p f s) = Ret bs e (pipe_upd p f s)"
proof (induction n arbitrary: va bs)
  case (Suc n)
  then obtain b bs' where "bs = b # bs'" "kread8 va e s = Ret b e s" "kread_bytes (va + 1) n e s = Ret bs' e s"
    using kread_bytes_Cons by blast
  with Suc.IH show ?case by (auto simp: kread8_run pipe_upd_def split: option.splits)
qed simp

lemma pipe_upd_upd: "pipe_upd p f (pipe_upd p g s) = pipe_upd p (f \<circ> g) s"
  by (simp add: pipe_upd_def)

lemma pipe_upd_id: "pipe_upd p id s = s"
  by (simp add: pipe_upd_def)

lemma pipewrite_loop_run:
  assumes "pipe_ok (pipes s p)" "length (pipe_items (pipes s p)) + length bs \<le> PIPESIZE" "kread_bytes addr (length bs) e s = Ret bs e s"
  shows "pipewrite_loop p addr (length bs) e s = Ret True e (pipe_upd p (fold pipe_put bs) s)"
  using assms
proof (induction bs arbitrary: s addr)
  case Nil
  then show ?case by (simp add: pipe_upd_def)
next
  case (Cons b bs)
  have r: "kread8 addr e s = Ret b e s" "kread_bytes (addr + 1) (length bs) e s = Ret bs e s"
    using kread_bytes_Cons [of addr "length bs" e s "b # bs"] Cons.prems(3) by auto
  have f: "\<not> pipe_full (pipes s p)" using Cons.prems pq.full_iff by simp
  then have w: "await_room p e s = Ret True e s"
    unfolding await_room_def by (intro kloop_done) (simp add: if_run)
  let ?s = "pipe_upd p (pipe_put b) s"
  have "pipes ?s p = pipe_put b (pipes s p)" by (simp add: pipe_upd_def)
  then have "pipewrite_loop p (addr + 1) (length bs) e ?s = Ret True e (pipe_upd p (fold pipe_put bs) ?s)"
    using Cons.IH [of ?s "addr + 1"] Cons.prems pipe_put_law [OF Cons.prems(1) f, of b] kread_bytes_pipes [OF r(2)] by simp
  then show ?case using w r(1) by (simp add: pipe_upd_upd if_run comp_def)
qed

text \<open>
  C8. Writing to a pipe appends to the queue of its bytes: when there is room for all of
  them, \<open>pipewrite\<close> returns their number, the bytes at \<open>addr\<close> are the newest in the queue, in
  order, and the readers that wait for data are runnable.
\<close>

theorem pipewrite_appends:
  assumes a: "at_rest c i s" and q: "pipe_ok (pipes s p)" "length (pipe_items (pipes s p)) + length bs \<le> PIPESIZE"
    and m: "kread_bytes addr (length bs) e s = Ret bs e s"
  shows "\<exists>x. pipewrite p addr (int (length bs)) e s = Ret (int (length bs)) e
      (s\<lparr>procs := map (wake (Some (PipeReadChan p))) (procs s), pipes := (pipes s)(p := x)\<rparr>)
    \<and> pipe_ok x \<and> pipe_items x = pipe_items (pipes s p) @ bs"
proof -
  note d = at_restD [OF a]
  let ?t = "s\<lparr>cpus := deeper c (cpus s), intr_on := False, locks := (locks s)(PIPE_LOCK p := lk_take c (locks s (PIPE_LOCK p)))\<rparr>"
  let ?x = "fold pipe_put bs (pipes s p)"
  have r: "kread_bytes addr n e ?t = Ret bs e ?t" if "kread_bytes addr n e s = Ret bs e s" for addr n bs
    using that
  proof (induction n arbitrary: addr bs)
    case (Suc n)
    from kread_bytes_Cons [OF Suc.prems] Suc.IH show ?case by (auto simp: kread8_run split: option.splits)
  qed simp
  have "pipewrite_loop p addr (length bs) e ?t = Ret True e (?t\<lparr>pipes := (pipes s)(p := ?x)\<rparr>)"
    using pipewrite_loop_run [of ?t p bs addr e] q r [OF m] by (simp add: pipe_upd_def)
  moreover have "wakeup (Some (PipeReadChan p)) e (?t\<lparr>pipes := (pipes s)(p := ?x)\<rparr>)
      = Ret () e (?t\<lparr>procs := map (wake (Some (PipeReadChan p))) (procs s), pipes := (pipes s)(p := ?x)\<rparr>)"
    using wakeup_run [of c "?t\<lparr>pipes := (pipes s)(p := ?x)\<rparr>"] d by (simp add: cpu_ok_deeper)
  ultimately have "pipewrite p addr (int (length bs)) e s = Ret (int (length bs)) e
      (s\<lparr>procs := map (wake (Some (PipeReadChan p))) (procs s), pipes := (pipes s)(p := ?x)\<rparr>)"
    using d by (simp add: pipewrite_def acquire_run [where c = c] if_run release_section [where c = c and s = s])
  then show ?thesis using pq.put_all [OF q] by blast
qed


text \<open>Storing bytes looks at and changes nothing but the memory.\<close>

lemma kwrite_bytes_frame:
  assumes "kwrite_bytes va bs e s = Ret () e u" "ram t = ram s" "cr3 t = cr3 s"
  shows "kwrite_bytes va bs e t = Ret () e (t\<lparr>ram := ram u\<rparr>)"
  using assms
proof (induction bs arbitrary: va s t)
  case (Cons b bs)
  then obtain pa where pa: "kxlate (ram s) (cr3 s) True va = Some pa"
    by (cases "kxlate (ram s) (cr3 s) True va") simp_all
  have "kwrite_bytes (va + 1) bs e (s\<lparr>ram := (ram s)(pa := b)\<rparr>) = Ret () e u" using Cons.prems(1) pa by (simp add: option_run)
  from Cons.IH [OF this, of "t\<lparr>ram := (ram t)(pa := b)\<rparr>"] Cons.prems pa show ?case by (simp add: option_run)
qed simp

lemma kwrite_bytes_split:
  assumes "kwrite_bytes va (b # bs) e s = Ret () e u"
  shows "\<exists>t. kwrite_bytes va [b] e s = Ret () e t \<and> kwrite_bytes (va + 1) bs e t = Ret () e u"
  using assms by (cases "kxlate (ram s) (cr3 s) True va") (simp_all add: option_run)

lemma kwrite_bytes_ram: "kwrite_bytes va bs e s = Ret () e u \<Longrightarrow> u = s\<lparr>ram := ram u\<rparr>"
  using kwrite_bytes_frame [of va bs e s u s] by simp

lemma piperead_loop_run:
  assumes "pipe_ok (pipes s p)" "kwrite_bytes addr (take n (pipe_items (pipes s p))) e s = Ret () e u"
    and "k = min n (length (pipe_items (pipes s p)))"
  shows "piperead_loop p addr i n e s = Ret (i + k) e (pipe_upd p (pipe_get ^^ k) (s\<lparr>ram := ram u\<rparr>))"
  using assms
proof (induction n arbitrary: s addr i k u)
  case 0
  then show ?case by (simp add: pipe_upd_def)
next
  case (Suc n)
  let ?x = "pipes s p"
  show ?case
  proof (cases "pipe_items ?x")
    case Nil
    then have "pipe_empty ?x" using Suc.prems(1) pq.empty_iff by simp
    with Suc.prems Nil show ?thesis by (simp add: if_run pipe_upd_def)
  next
    case (Cons b bs)
    then have ne: "\<not> pipe_empty ?x" using Suc.prems(1) pq.empty_iff by simp
    have g: "pipe_ok (pipe_get ?x)" "pipe_front ?x = b" "pipe_items (pipe_get ?x) = bs"
      using pipe_get_law [OF Suc.prems(1) ne] Cons by simp_all
    obtain t where t: "kwrite_bytes addr [b] e s = Ret () e t" "kwrite_bytes (addr + 1) (take n bs) e t = Ret () e u"
      using kwrite_bytes_split [of addr b "take n bs" e s u] Suc.prems(2) Cons by auto
    let ?s = "(pipe_upd p pipe_get s)\<lparr>ram := ram t\<rparr>"
    have eq: "t = s\<lparr>ram := ram t\<rparr>" using kwrite_bytes_ram [OF t(1)] .
    have one: "kwrite_bytes addr [b] e (pipe_upd p pipe_get s) = Ret () e ?s"
      using kwrite_bytes_frame [OF t(1), of "pipe_upd p pipe_get s"] by (simp add: pipe_upd_def)
    have cr: "cr3 t = cr3 s" using arg_cong [OF eq, of cr3] by simp
    have "kwrite_bytes (addr + 1) (take n (pipe_items (pipes ?s p))) e ?s = Ret () e (?s\<lparr>ram := ram u\<rparr>)"
      using kwrite_bytes_frame [OF t(2), of ?s] cr g by (simp add: pipe_upd_def)
    then have "piperead_loop p (addr + 1) (Suc i) n e ?s
        = Ret (Suc i + min n (length bs)) e (pipe_upd p (pipe_get ^^ min n (length bs)) (?s\<lparr>ram := ram u\<rparr>))"
      using Suc.IH [where s = ?s and addr = "addr + 1" and u = "?s\<lparr>ram := ram u\<rparr>"] g by (simp add: pipe_upd_def)
    then show ?thesis
      using Suc.prems(3) one ne g(2) Cons by (simp add: if_run pipe_upd_def funpow_swap1 del: kwrite_bytes.simps)
  qed
qed

text \<open>
  C18. Reading from a pipe that has data, or that nobody writes to any more, takes the oldest
  bytes out of the queue: \<open>piperead\<close> returns their number, at most \<open>n\<close> and 0 at the end of the
  data, stores them in order at \<open>addr\<close>, and makes the waiting writers runnable.
\<close>

theorem piperead_takes:
  assumes a: "at_rest c i s" and q: "pipe_ok (pipes s p)" "pipe_items (pipes s p) \<noteq> [] \<or> \<not> writeopen (pipes s p)"
    and m: "kwrite_bytes addr (take n (pipe_items (pipes s p))) e s = Ret () e u"
  shows "\<exists>x. piperead p addr (int n) e s = Ret (int (min n (length (pipe_items (pipes s p))))) e
      (s\<lparr>ram := ram u, procs := map (wake (Some (PipeWriteChan p))) (procs s), pipes := (pipes s)(p := x)\<rparr>)
    \<and> pipe_ok x \<and> pipe_items x = drop n (pipe_items (pipes s p))"
proof -
  note d = at_restD [OF a]
  let ?k = "min n (length (pipe_items (pipes s p)))"
  let ?x = "(pipe_get ^^ ?k) (pipes s p)"
  let ?t = "s\<lparr>cpus := deeper c (cpus s), intr_on := False, locks := (locks s)(PIPE_LOCK p := lk_take c (locks s (PIPE_LOCK p)))\<rparr>"
  let ?t' = "pipe_upd p (pipe_get ^^ ?k) (?t\<lparr>ram := ram u\<rparr>)"
  have "\<not> (pipe_empty (pipes s p) \<and> writeopen (pipes s p))" using q pq.empty_iff by auto
  then have "await_data p e ?t = Ret True e ?t"
    unfolding await_data_def by (intro kloop_done) (auto simp: if_run)
  moreover have "kwrite_bytes addr (take n (pipe_items (pipes s p))) e ?t = Ret () e (?t\<lparr>ram := ram u\<rparr>)"
    using kwrite_bytes_frame [OF m, of ?t] by simp
  then have "piperead_loop p addr 0 n e ?t = Ret ?k e ?t'"
    using piperead_loop_run [of ?t p addr n e "?t\<lparr>ram := ram u\<rparr>" ?k 0] q by simp
  moreover have "wakeup (Some (PipeWriteChan p)) e ?t' = Ret () e (?t'\<lparr>procs := map (wake (Some (PipeWriteChan p))) (procs s)\<rparr>)"
    using wakeup_run [of c ?t'] d by (simp add: cpu_ok_deeper pipe_upd_def)
  ultimately have "piperead p addr (int n) e s = Ret (int ?k) e
      (s\<lparr>ram := ram u, procs := map (wake (Some (PipeWriteChan p))) (procs s), pipes := (pipes s)(p := ?x)\<rparr>)"
    using d by (simp add: piperead_def acquire_run [where c = c] if_run release_section [where c = c and s = s] pipe_upd_def)
  then show ?thesis using pq.get_all [OF q(1), of n] by blast
qed


section \<open>Instances\<close>

text \<open>All pipes have the contents \<open>x\<close>.\<close>

definition boot_pipe :: "pipe \<Rightarrow> pipes" where
  "boot_pipe x = console.extend (icache.extend (log.extend (boot_log (\<lambda>_. blank) {} [])
       \<lparr>inodes = [], sb = superblock_of zeros\<rparr>)
       \<lparr>input_buf = [], input_r = 0, input_w = 0, input_e = 0, devsw = []\<rparr>)
     \<lparr>pipes = (\<lambda>_. x)\<rparr>"

lemma boot_pipe_facts [simp]: "pipes (boot_pipe x) p = x"
  by (simp add: boot_pipe_def console.defs icache.defs log.defs)

lemma boot_pipe_at_rest: "at_rest 0 0 (boot_pipe x)"
  using boot_log_at_rest [of "\<lambda>_. blank" "{}" "[]"]
  by (simp add: at_rest_def boot_pipe_def console.defs icache.defs log.defs)

definition half_pipe :: "u32 \<Rightarrow> u32 \<Rightarrow> pipe" where
  "half_pipe r w = \<lparr>pipe_data = replicate 512 7, nread = r, nwrite = w, readopen = True, writeopen = True\<rparr>"

lemma half_pipe_items: "unat (w - r) \<le> 512 \<Longrightarrow> pipe_ok (half_pipe r w) \<and> pipe_items (half_pipe r w) = replicate (unat (w - r)) 7"
  by (auto simp: pipe_ok_def pipe_items_def half_pipe_def intro!: nth_equalityI)

lemma half_pipe_three: "pipe_ok (half_pipe 0xFFFFFFFF 2)" "pipe_items (half_pipe 0xFFFFFFFF 2) = [7, 7, 7]"
proof -
  have "unat (2 - 0xFFFFFFFF :: u32) = 3" by simp
  then show "pipe_ok (half_pipe 0xFFFFFFFF 2)" "pipe_items (half_pipe 0xFFFFFFFF 2) = [7, 7, 7]"
    using half_pipe_items [of 2 "0xFFFFFFFF"] by (simp_all add: numeral_3_eq_3)
qed

theorem pipewrite_appends_witness:
  "\<exists>t a b. pipewrite 0x80300000 0x80200000 2 [] (boot_pipe (half_pipe 0xFFFFFFFF 2)) = Ret 2 [] t
    \<and> pipe_items (pipes t 0x80300000) = [7, 7, 7, a, b]"
proof -
  let ?s = "boot_pipe (half_pipe 0xFFFFFFFF 2)"
  let ?bs = "[ram ?s 0x80200000, ram ?s 0x80200001]"
  have "kread_bytes 0x80200000 (length ?bs) [] ?s = Ret ?bs [] ?s"
    by (simp add: kread8_run kxlate_def)
  with half_pipe_three show ?thesis
    using pipewrite_appends [OF boot_pipe_at_rest, of "half_pipe 0xFFFFFFFF 2" "0x80300000" ?bs "0x80200000" "[]"] by auto
qed

theorem piperead_takes_witness:
  "\<exists>t. piperead 0x80300000 0x80200000 2 [] (boot_pipe (half_pipe 0xFFFFFFFF 2)) = Ret 2 [] t
    \<and> pipe_items (pipes t 0x80300000) = [7]"
proof -
  let ?s = "boot_pipe (half_pipe 0xFFFFFFFF 2)"
  obtain u where "kwrite_bytes 0x80200000 [7, 7] [] ?s = Ret () [] u" by (simp add: kxlate_def option_run)
  with half_pipe_three show ?thesis
    using piperead_takes [OF boot_pipe_at_rest, of "half_pipe 0xFFFFFFFF 2" "0x80300000" "0x80200000" 2 "[]" u] by auto
qed

end
