(* ===== verification/File.thy ===== *)
theory File
  imports Pipe
begin

text \<open>
  Open files (\<^verbatim>\<open>file.h\<close>, \<^verbatim>\<open>file.c\<close>): the table of files with reference counts, and reading and
  writing through them; with \<open>pipealloc\<close> of \<^verbatim>\<open>pipe.c\<close>.
\<close>

section \<open>State and operations\<close>

abbreviation (input) NFILE :: nat where "NFILE \<equiv> 100"

datatype file_type = FD_NONE | FD_PIPE | FD_INODE

record kfile =
  ftype :: file_type
  fref :: int
  readable :: bool
  writable :: bool
  fpipe :: u32
  fip :: nat
  foff :: u32

record ftable = pipes +
  files :: "kfile list"

definition fslots :: "nat list" where
  "fslots = [0..<NFILE]"

definition fupd :: "nat \<Rightarrow> (kfile \<Rightarrow> kfile) \<Rightarrow> 'a ftable_scheme \<Rightarrow> 'a ftable_scheme" where
  "fupd i f s = s\<lparr>files := (files s)[i := f (files s ! i)]\<rparr>"

abbreviation (input) ffield :: "nat \<Rightarrow> (kfile \<Rightarrow> 'b) \<Rightarrow> ('a ftable_scheme, 'b) kmon" where
  "ffield i f \<equiv> kget (\<lambda>s. f (files s ! i))"

definition fileinit :: "('a mach_scheme, unit) kmon" where
  "fileinit = initlock FTABLE_LOCK ''ftable''"

definition filealloc :: "('a ftable_scheme, nat option) kmon" where
  "filealloc =
     kseq (acquire FTABLE_LOCK)
     (kbind (kget (\<lambda>s. find (\<lambda>i. fref (files s ! i) = 0) fslots)) (\<lambda>found.
      case found of
        Some f \<Rightarrow>
          kseq (kmod (fupd f (\<lambda>x. x\<lparr>fref := 1\<rparr>)))
          (kseq (release FTABLE_LOCK)
          (kreturn (Some f)))
      | None \<Rightarrow> kseq (release FTABLE_LOCK) (kreturn None)))"

definition filedup :: "nat \<Rightarrow> ('a ftable_scheme, nat) kmon" where
  "filedup f =
     kseq (acquire FTABLE_LOCK)
     (kbind (ffield f fref) (\<lambda>r.
      if r < 1 then kpanic ''filedup''
      else
        kseq (kmod (fupd f (\<lambda>x. x\<lparr>fref := fref x + 1\<rparr>)))
        (kseq (release FTABLE_LOCK)
        (kreturn f))))"

definition fileclose :: "nat \<Rightarrow> ('a ftable_scheme, unit) kmon" where
  "fileclose f =
     kseq (acquire FTABLE_LOCK)
     (kbind (ffield f fref) (\<lambda>r.
      if r < 1 then kpanic ''fileclose''
      else
        kseq (kmod (fupd f (\<lambda>x. x\<lparr>fref := fref x - 1\<rparr>)))
        (if r - 1 > 0 then release FTABLE_LOCK
         else
           kbind (ffield f id) (\<lambda>ff.
           kseq (kmod (fupd f (\<lambda>x. x\<lparr>fref := 0, ftype := FD_NONE\<rparr>)))
           (kseq (release FTABLE_LOCK)
           (case ftype ff of
              FD_PIPE \<Rightarrow> pipeclose (fpipe ff) (writable ff)
            | FD_INODE \<Rightarrow>
                kseq begin_op
                (kseq (iput (fip ff))
                end_op)
            | FD_NONE \<Rightarrow> kreturn ()))))))"

text \<open>
  \<open>struct stat\<close> in memory has its fields at 0, 4, 8, 12 and 16; \<open>stati\<close> stores them one by one.
\<close>

definition store_stat :: "u32 \<Rightarrow> stat \<Rightarrow> ('a vm_scheme, unit) kmon" where
  "store_stat a st =
     kseq (kwrite32 (a + 4) (st_dev st))
     (kseq (kwrite32 (a + 8) (st_ino st))
     (kseq (kwrite_bytes a (bytes_of_half (st_type st)))
     (kseq (kwrite_bytes (a + 12) (bytes_of_half (st_nlink st)))
     (kwrite32 (a + 16) (st_size st)))))"

definition filestat :: "nat \<Rightarrow> u32 \<Rightarrow> ('a ftable_scheme, int) kmon" where
  "filestat f st = kbind (ffield f id) (\<lambda>x.
     if ftype x = FD_INODE then
       kseq (ilock (Some (fip x)))
       (kseq (kbind (stati (fip x)) (store_stat st))
       (kseq (iunlock (Some (fip x)))
       (kreturn 0)))
     else kreturn (-1))"

definition fileread :: "nat \<Rightarrow> u32 \<Rightarrow> int \<Rightarrow> ('a ftable_scheme, int) kmon" where
  "fileread f addr n = kbind (ffield f id) (\<lambda>x.
     if \<not> readable x then kreturn (-1)
     else case ftype x of
       FD_PIPE \<Rightarrow> piperead (fpipe x) addr n
     | FD_INODE \<Rightarrow>
         kseq (ilock (Some (fip x)))
         (kbind (ffield f foff) (\<lambda>off.
          kbind (readi (fip x) (ToAddr addr) off (of_int n)) (\<lambda>(r, _).
          kseq (kwhen (r > 0) (kmod (fupd f (\<lambda>x. x\<lparr>foff := foff x + of_int r\<rparr>))))
          (kseq (iunlock (Some (fip x)))
          (kreturn r)))))
     | FD_NONE \<Rightarrow> kpanic ''fileread'')"

text \<open>
  A write goes to the log in pieces of at most \<open>((MAXOPBLOCKS-1-1-2) / 2) * 512\<close> bytes.
  Each round writes at least one byte.
\<close>

abbreviation (input) max_write :: int where "max_write \<equiv> ((MAXOPBLOCKS - 1 - 1 - 2) div 2) * 512"

definition filewrite :: "nat \<Rightarrow> u32 \<Rightarrow> int \<Rightarrow> ('a ftable_scheme, int) kmon" where
  "filewrite f addr n = kbind (ffield f id) (\<lambda>x.
     if \<not> writable x then kreturn (-1)
     else case ftype x of
       FD_PIPE \<Rightarrow> pipewrite (fpipe x) addr n
     | FD_INODE \<Rightarrow>
         kiter (nat n + 1) (\<lambda>i.
           if i < n then
             (let n1 = min (n - i) max_write in
              kseq begin_op
              (kseq (ilock (Some (fip x)))
              (kbind (ffield f foff) (\<lambda>off.
               kbind (writei (fip x) (FromAddr (addr + of_int i)) off (of_int n1)) (\<lambda>r.
               kseq (kwhen (r > 0) (kmod (fupd f (\<lambda>x. x\<lparr>foff := foff x + of_int r\<rparr>))))
               (kseq (iunlock (Some (fip x)))
               (kseq end_op
               (if r < 0 then kreturn (Inr (if i = n then n else -1))
                else if r \<noteq> n1 then kpanic ''short filewrite''
                else kreturn (Inl (i + r))))))))))
           else kreturn (Inr (if i = n then n else -1))) 0
     | FD_NONE \<Rightarrow> kpanic ''filewrite'')"

section \<open>Allocating a pipe\<close>

definition close_opt :: "nat option \<Rightarrow> ('a ftable_scheme, unit) kmon" where
  "close_opt f = (case f of None \<Rightarrow> kreturn () | Some f \<Rightarrow> fileclose f)"

definition pipealloc :: "('a ftable_scheme, (nat \<times> nat) option) kmon" where
  "pipealloc =
     kbind filealloc (\<lambda>f0.
     case f0 of
       None \<Rightarrow> kreturn None
     | Some r \<Rightarrow>
         kbind filealloc (\<lambda>f1.
         case f1 of
           None \<Rightarrow> kseq (fileclose r) (kreturn None)
         | Some w \<Rightarrow>
             kbind kalloc (\<lambda>p.
             if p = 0 then kseq (close_opt f0) (kseq (close_opt f1) (kreturn None))
             else
               kseq (kmod (pipe_upd p (\<lambda>x. x\<lparr>readopen := True, writeopen := True, nwrite := 0, nread := 0\<rparr>)))
               (kseq (initlock (PIPE_LOCK p) ''pipe'')
               (kseq (kmod (fupd r (\<lambda>x. x\<lparr>ftype := FD_PIPE, readable := True, writable := False, fpipe := p\<rparr>)))
               (kseq (kmod (fupd w (\<lambda>x. x\<lparr>ftype := FD_PIPE, readable := False, writable := True, fpipe := p\<rparr>)))
               (kreturn (Some (r, w)))))))))"

end
