(* ===== verification/Lifecycle.thy ===== *)
theory Lifecycle
  imports File
begin

text \<open>
  The operations of \<^verbatim>\<open>proc.c\<close> that also use files: the first process, \<open>fork\<close>, \<open>exit\<close> and
  \<open>forkret\<close>.
\<close>

section \<open>Operations\<close>

text \<open>
  \<open>userinit\<close>; \<open>initcode\<close> is the program that the build links into the kernel, and the
  name of the process is the bytes of \<open>''initcode''\<close>.
\<close>

definition bytes :: "string \<Rightarrow> u8 list" where
  "bytes str = map (\<lambda>c. of_nat (of_char c)) str"

definition user_tf :: trapframe where
  "user_tf = zero_tf\<lparr>tf_cs := 0x1B, tf_ds := 0x23, tf_es := 0x23, tf_ss := 0x23,
     tf_eflags := 0x200, tf_esp := 4096, tf_eip := 0\<rparr>"

definition userinit :: "u8 list \<Rightarrow> ('a ftable_scheme, unit) kmon" where
  "userinit initcode = kbind allocproc (\<lambda>p.
     kseq (kmod (\<lambda>s. s\<lparr>initproc := p\<rparr>))
     (kbind setupkvm (\<lambda>pd.
      kderef p (\<lambda>i.
      kseq (kmod (pupd i (\<lambda>x. x\<lparr>pgdir := pd\<rparr>)))
      (if pd = 0 then kpanic ''userinit: out of memory?''
       else
         kseq (inituvm pd initcode)
         (kseq (kmod (pupd i (\<lambda>x. x\<lparr>sz := 4096, tf := user_tf, mask := 0xFFFFFFFF, pending := 0,
            pname := safestrcpy (pname x) (chars (bytes ''initcode'')) 16\<rparr>)))
         (kbind (namei (bytes ''/'')) (\<lambda>d.
          kseq (kmod (pupd i (\<lambda>x. x\<lparr>cwd := d\<rparr>)))
          (kseq (acquire PTABLE_LOCK)
          (kseq (kmod (pupd i (\<lambda>x. x\<lparr>handlers := replicate 32 SIG_DFL\<rparr>)))
          (kseq (kmod (pupd i (\<lambda>x. x\<lparr>pstate := RUNNABLE\<rparr>)))
          (release PTABLE_LOCK))))))))))))"

text \<open>What \<open>fork\<close> copies to the child, apart from memory and files.\<close>

definition fork_copy :: "nat \<Rightarrow> proc \<Rightarrow> proc \<Rightarrow> proc" where
  "fork_copy cur p np = np\<lparr>sz := sz p, parent := Some cur, tf := (tf p)\<lparr>tf_eax := 0\<rparr>\<rparr>"

definition fork_inherit :: "proc \<Rightarrow> proc \<Rightarrow> proc" where
  "fork_inherit p np = np\<lparr>handlers := handlers p, mask := mask p, pending := 0\<rparr>"

definition fork :: "('a ftable_scheme, u32) kmon" where
  "fork = kbind myproc (\<lambda>curproc.
     kbind allocproc (\<lambda>np.
     case np of
       None \<Rightarrow> kreturn (-1)
     | Some n \<Rightarrow> kderef curproc (\<lambda>cur.
         kbind (pget cur id) (\<lambda>p.
         kbind (copyuvm (pgdir p) (sz p)) (\<lambda>pd.
         kseq (kmod (pupd n (\<lambda>x. x\<lparr>pgdir := pd\<rparr>)))
         (if pd = 0 then
            kbind (pget n kstack) (\<lambda>stack.
            kseq (kfree stack)
            (kseq (kmod (pupd n (\<lambda>x. x\<lparr>kstack := 0, pstate := UNUSED\<rparr>)))
            (kreturn (-1))))
          else
            kseq (kmod (pupd n (fork_copy cur p)))
            (kseq (kfor [0..<NOFILE] (\<lambda>fd.
               kbind (pget cur (\<lambda>x. ofile x ! fd)) (\<lambda>f.
               case f of
                 None \<Rightarrow> kreturn ()
               | Some f \<Rightarrow> kbind (filedup f) (\<lambda>g. kmod (pupd n (\<lambda>x. x\<lparr>ofile := (ofile x)[fd := Some g]\<rparr>))))))
            (kbind (pget cur cwd) (\<lambda>d. kderef d (\<lambda>d.
             kbind (idup d) (\<lambda>d.
             kseq (kmod (pupd n (\<lambda>x. x\<lparr>cwd := Some d\<rparr>)))
             (kseq (kmod (\<lambda>s. pupd n (\<lambda>x. x\<lparr>pname := safestrcpy (pname x) (chars (pname (procs s ! cur))) 16\<rparr>) s))
             (kbind (pget n pid) (\<lambda>new.
              kseq (acquire PTABLE_LOCK)
              (kseq (kmod (\<lambda>s. pupd n (fork_inherit (procs s ! cur)) s))
              (kseq (kmod (pupd n (\<lambda>x. x\<lparr>pstate := RUNNABLE\<rparr>)))
              (kseq (release PTABLE_LOCK)
              (kreturn new))))))))))))))))))"

text \<open>\<open>exit\<close> does not return: if the scheduler ever resumes a zombie, it panics.\<close>

definition exit_orphans :: "nat \<Rightarrow> ('a ptable_scheme, unit) kmon" where
  "exit_orphans cur = kfor slots (\<lambda>i.
     kbind (pget i parent) (\<lambda>par.
     kwhen (par = Some cur)
       (kbind (kget initproc) (\<lambda>ini.
        kseq (kmod (pupd i (\<lambda>x. x\<lparr>parent := ini\<rparr>)))
        (kbind (pget i pstate) (\<lambda>st.
         kwhen (st = ZOMBIE) (wakeup1 (map_option ProcChan ini))))))))"

definition exit :: "('a ftable_scheme, unit) kmon" where
  "exit = kbind myproc (\<lambda>curproc.
     kbind (kget initproc) (\<lambda>ini.
     if curproc = ini then kpanic ''init exiting''
     else kderef curproc (\<lambda>cur.
       kseq (kfor [0..<NOFILE] (\<lambda>fd.
          kbind (pget cur (\<lambda>x. ofile x ! fd)) (\<lambda>f.
          case f of
            None \<Rightarrow> kreturn ()
          | Some f \<Rightarrow>
              kseq (fileclose f)
              (kmod (pupd cur (\<lambda>x. x\<lparr>ofile := (ofile x)[fd := None]\<rparr>))))))
       (kseq begin_op
       (kbind (pget cur cwd) (\<lambda>d. kderef d (\<lambda>d.
        kseq (iput d)
        (kseq end_op
        (kseq (kmod (pupd cur (\<lambda>x. x\<lparr>cwd := None\<rparr>)))
        (kseq (acquire PTABLE_LOCK)
        (kbind (pget cur parent) (\<lambda>par.
         kseq (wakeup1 (map_option ProcChan par))
         (kseq (exit_orphans cur)
         (kseq (kmod (pupd cur (\<lambda>x. x\<lparr>pstate := ZOMBIE\<rparr>)))
         (kseq sched
         (kpanic ''zombie exit''))))))))))))))))"

definition forkret :: "('a icache_scheme, unit) kmon" where
  "forkret =
     kseq (release PTABLE_LOCK)
     (kbind (kget forkret_first) (\<lambda>first.
      kwhen first
        (kseq (kmod (\<lambda>s. s\<lparr>forkret_first := False\<rparr>))
        (kseq (iinit ROOTDEV)
        (initlog ROOTDEV)))))"

end
