(* ===== verification/Exec.thy ===== *)
theory Exec
  imports Lifecycle
begin

text \<open>
  Loading a program (\<^verbatim>\<open>elf.h\<close>, \<^verbatim>\<open>exec.c\<close>, and \<open>loaduvm\<close> of \<^verbatim>\<open>vm.c\<close>).
\<close>

section \<open>Program files\<close>

record elfhdr =
  e_magic :: u32
  e_elf :: "u8 list"
  e_type :: u16
  e_machine :: u16
  e_version :: u32
  e_entry :: u32
  e_phoff :: u32
  e_shoff :: u32
  e_flags :: u32
  e_ehsize :: u16
  e_phentsize :: u16
  e_phnum :: u16
  e_shentsize :: u16
  e_shnum :: u16
  e_shstrndx :: u16

definition elfhdr_of :: "u8 list \<Rightarrow> elfhdr" where
  "elfhdr_of d = \<lparr>e_magic = get32 d 0, e_elf = part 4 12 d, e_type = get16 d 16, e_machine = get16 d 18,
     e_version = get32 d 20, e_entry = get32 d 24, e_phoff = get32 d 28, e_shoff = get32 d 32, e_flags = get32 d 36,
     e_ehsize = get16 d 40, e_phentsize = get16 d 42, e_phnum = get16 d 44, e_shentsize = get16 d 46,
     e_shnum = get16 d 48, e_shstrndx = get16 d 50\<rparr>"

record proghdr =
  p_type :: u32
  p_off :: u32
  p_vaddr :: u32
  p_paddr :: u32
  p_filesz :: u32
  p_memsz :: u32
  p_flags :: u32
  p_align :: u32

definition proghdr_of :: "u8 list \<Rightarrow> proghdr" where
  "proghdr_of d = \<lparr>p_type = get32 d 0, p_off = get32 d 4, p_vaddr = get32 d 8, p_paddr = get32 d 12,
     p_filesz = get32 d 16, p_memsz = get32 d 20, p_flags = get32 d 24, p_align = get32 d 28\<rparr>"

abbreviation (input) ELF_MAGIC :: u32 where "ELF_MAGIC \<equiv> 0x464C457F"
abbreviation (input) MAXARG :: nat where "MAXARG \<equiv> 32"

section \<open>Loading\<close>

text \<open>\<open>loaduvm\<close>: a segment of at most \<open>2\<^sup>32\<close> bytes has at most \<open>2\<^sup>20\<close> pages.\<close>

definition loaduvm :: "u32 \<Rightarrow> u32 \<Rightarrow> nat \<Rightarrow> u32 \<Rightarrow> u32 \<Rightarrow> ('a console_scheme, int) kmon" where
  "loaduvm pd addr ip offset nbytes =
     (if addr mod PGSIZE \<noteq> 0 then kpanic ''loaduvm: addr must be page aligned''
      else kiter page_rounds (\<lambda>i.
        if i < nbytes then
          kbind (walkpgdir pd (addr + i) False) (\<lambda>pte.
          if pte = 0 then kpanic ''loaduvm: address should exist''
          else
            kbind (kget (\<lambda>s. PTE_ADDR (load32 (ram s) pte))) (\<lambda>pa.
            (let n = (if nbytes - i < PGSIZE then nbytes - i else PGSIZE) in
             kbind (readi ip (ToAddr (P2V pa)) (offset + i) n) (\<lambda>(r, _).
             if r \<noteq> sint n then kreturn (Inr (-1)) else kreturn (Inl (i + PGSIZE))))))
        else kreturn (Inr 0)) 0)"

text \<open>
  The loop over the program headers: the new size, or \<open>None\<close> where the code goes to \<open>bad\<close>.
\<close>

definition load_segments :: "nat \<Rightarrow> u32 \<Rightarrow> elfhdr \<Rightarrow> ('a console_scheme, u32 option) kmon" where
  "load_segments ip pd elf = kiter (unat (e_phnum elf) + 1) (\<lambda>(i, off, sz).
     if i < unat (e_phnum elf) then
       kbind (readi ip ToKernel off 32) (\<lambda>(r, d).
       if r \<noteq> 32 then kreturn (Inr None)
       else
         (let ph = proghdr_of d in
          if p_type ph \<noteq> 1 then kreturn (Inl (i + 1, off + 32, sz))
          else if p_memsz ph < p_filesz ph then kreturn (Inr None)
          else if p_vaddr ph + p_memsz ph < p_vaddr ph then kreturn (Inr None)
          else
            kbind (allocuvm pd sz (p_vaddr ph + p_memsz ph)) (\<lambda>sz.
            if sz = 0 then kreturn (Inr None)
            else if p_vaddr ph mod PGSIZE \<noteq> 0 then kreturn (Inr None)
            else
              kbind (loaduvm pd (p_vaddr ph) ip (p_off ph) (p_filesz ph)) (\<lambda>r.
              if r < 0 then kreturn (Inr None) else kreturn (Inl (i + 1, off + 32, sz))))))
     else kreturn (Inr (Some sz))) (0, e_phoff elf, 0)"

section \<open>Arguments\<close>

text \<open>The argument strings go onto the stack from the top; \<open>ustack\<close> collects their addresses.\<close>

fun push_args :: "u32 \<Rightarrow> u32 \<Rightarrow> u32 list \<Rightarrow> u8 list list \<Rightarrow> ('a vm_scheme, (u32 \<times> u32 list) option) kmon" where
  "push_args pd sp ustack [] = kreturn (Some (sp, ustack))"
| "push_args pd sp ustack (a # as) =
     (if length ustack \<ge> MAXARG then kreturn None
      else
        (let sp = (sp - of_nat (length a + 1)) AND NOT 3 in
         kbind (copyout pd sp (a @ [0])) (\<lambda>r.
         if r < 0 then kreturn None else push_args pd sp (ustack @ [sp]) as)))"

definition last_elem :: "u8 list \<Rightarrow> u8 list" where
  "last_elem path = rev (takeWhile (\<lambda>c. c \<noteq> SLASH) (rev path))"

definition default_handlers :: "proc \<Rightarrow> proc" where
  "default_handlers p = p\<lparr>handlers := map (\<lambda>h. if h \<noteq> SIG_DFL \<and> h \<noteq> SIG_IGN then SIG_DFL else h) (handlers p)\<rparr>"

definition exec_bad :: "u32 \<Rightarrow> nat option \<Rightarrow> ('a ftable_scheme, int) kmon" where
  "exec_bad pd ip =
     kseq (kwhen (pd \<noteq> 0) (freevm pd))
     (kseq (case ip of None \<Rightarrow> kreturn () | Some i \<Rightarrow> kseq (iunlockput i) end_op)
     (kreturn (-1)))"

text \<open>From \<open>ip = 0\<close> on: the stack, the arguments, and the switch to the new image.\<close>

definition exec_image :: "nat \<Rightarrow> u8 list \<Rightarrow> u8 list list \<Rightarrow> u32 \<Rightarrow> u32 \<Rightarrow> u32 \<Rightarrow> ('a ftable_scheme, int) kmon" where
  "exec_image cur path argv pd loaded entry =
     (let base = PGROUNDUP loaded in
      kbind (allocuvm pd base (base + 2 * PGSIZE)) (\<lambda>top.
      if top = 0 then exec_bad pd None
      else
        kseq (clearpteu pd (top - 2 * PGSIZE))
        (kbind (push_args pd top [] argv) (\<lambda>r.
         case r of
           None \<Rightarrow> exec_bad pd None
         | Some (sp, args) \<Rightarrow>
             (let argc = of_nat (length args);
                  ustack = [0xFFFFFFFF, argc, sp - (argc + 1) * 4] @ args @ [0];
                  sp = sp - (3 + argc + 1) * 4 in
              kbind (copyout pd sp (concat (map bytes_of_word ustack))) (\<lambda>r.
              if r < 0 then exec_bad pd None
              else
                kseq (kmod (pupd cur (\<lambda>p. p\<lparr>pname := safestrcpy (pname p) (chars (last_elem path)) 16\<rparr>)))
                (kbind (pget cur pgdir) (\<lambda>old.
                 kseq (kmod (pupd cur (\<lambda>p. p\<lparr>pgdir := pd, sz := top,
                    tf := (tf p)\<lparr>tf_eip := entry, tf_esp := sp\<rparr>\<rparr>)))
                 (kseq (switchuvm (Some cur))
                 (kseq (freevm old)
                 (kreturn 0)))))))))))"

definition exec :: "u8 list \<Rightarrow> u8 list list \<Rightarrow> ('a ftable_scheme, int) kmon" where
  "exec path argv = kbind myproc (\<lambda>curproc.
     kseq (case curproc of None \<Rightarrow> kreturn () | Some i \<Rightarrow> kmod (pupd i default_handlers))
     (kseq begin_op
     (kbind (namei path) (\<lambda>found.
      case found of
        None \<Rightarrow> kseq end_op (kseq (cprintf ''exec: fail\<newline>'' []) (kreturn (-1)))
      | Some ip \<Rightarrow>
          kseq (ilock (Some ip))
          (kbind (readi ip ToKernel 0 52) (\<lambda>(r, d).
           (let elf = elfhdr_of d in
            if r \<noteq> 52 \<or> e_magic elf \<noteq> ELF_MAGIC then exec_bad 0 (Some ip)
            else
              kbind setupkvm (\<lambda>pd.
              if pd = 0 then exec_bad 0 (Some ip)
              else
                kbind (load_segments ip pd elf) (\<lambda>loaded.
                case loaded of
                  None \<Rightarrow> exec_bad pd (Some ip)
                | Some n \<Rightarrow>
                    kseq (iunlockput ip)
                    (kseq end_op
                    (kderef curproc (\<lambda>cur. exec_image cur path argv pd n (e_entry elf)))))))))))))"

end
