(* ===== verification/Signals.thy ===== *)
theory Signals
  imports Proc Bytes
begin

text \<open>
  Delivery of signals (the second half of \<^verbatim>\<open>trap.c\<close>, \<open>sigret\<close> of \<^verbatim>\<open>proc.c\<close>, and the code at
  \<open>call_sigret_syscall\<close> in \<^verbatim>\<open>trapasm.S\<close>).
\<close>

section \<open>Trap frames in memory\<close>

text \<open>The 76 bytes of \<open>struct trapframe\<close>.\<close>

definition tf_bytes :: "trapframe \<Rightarrow> u8 list" where
  "tf_bytes t =
     bytes_of_word (tf_edi t) @ bytes_of_word (tf_esi t) @ bytes_of_word (tf_ebp t) @ bytes_of_word (tf_oesp t)
   @ bytes_of_word (tf_ebx t) @ bytes_of_word (tf_edx t) @ bytes_of_word (tf_ecx t) @ bytes_of_word (tf_eax t)
   @ bytes_of_half (tf_gs t) @ bytes_of_half (tf_padding1 t) @ bytes_of_half (tf_fs t) @ bytes_of_half (tf_padding2 t)
   @ bytes_of_half (tf_es t) @ bytes_of_half (tf_padding3 t) @ bytes_of_half (tf_ds t) @ bytes_of_half (tf_padding4 t)
   @ bytes_of_word (tf_trapno t) @ bytes_of_word (tf_err t) @ bytes_of_word (tf_eip t)
   @ bytes_of_half (tf_cs t) @ bytes_of_half (tf_padding5 t) @ bytes_of_word (tf_eflags t) @ bytes_of_word (tf_esp t)
   @ bytes_of_half (tf_ss t) @ bytes_of_half (tf_padding6 t)"

definition tf_of_bytes :: "u8 list \<Rightarrow> trapframe" where
  "tf_of_bytes d =
     \<lparr>tf_edi = get32 d 0, tf_esi = get32 d 4, tf_ebp = get32 d 8, tf_oesp = get32 d 12,
      tf_ebx = get32 d 16, tf_edx = get32 d 20, tf_ecx = get32 d 24, tf_eax = get32 d 28,
      tf_gs = get16 d 32, tf_padding1 = get16 d 34, tf_fs = get16 d 36, tf_padding2 = get16 d 38,
      tf_es = get16 d 40, tf_padding3 = get16 d 42, tf_ds = get16 d 44, tf_padding4 = get16 d 46,
      tf_trapno = get32 d 48, tf_err = get32 d 52, tf_eip = get32 d 56,
      tf_cs = get16 d 60, tf_padding5 = get16 d 62, tf_eflags = get32 d 64, tf_esp = get32 d 68,
      tf_ss = get16 d 72, tf_padding6 = get16 d 74\<rparr>"

text \<open>\<open>movl $SYS_sigret, %eax; int $T_SYSCALL\<close>, the code between the two labels.\<close>

definition sigret_code :: "u8 list" where
  "sigret_code = [0xB8, 24, 0, 0, 0, 0xCD, 0x40]"

section \<open>Pending and blocked signals\<close>

definition hasSignal :: "proc \<Rightarrow> nat \<Rightarrow> bool" where
  "hasSignal p signum \<longleftrightarrow> pending p AND push_bit signum 1 > 0"

definition isBlocked :: "nat \<Rightarrow> ('a ptable_scheme, bool) kmon" where
  "isBlocked signum = kbind myproc (\<lambda>cur. case cur of
     Some i \<Rightarrow> kbind (pget i mask) (\<lambda>m. kreturn (\<not> (m AND push_bit signum 1 > 0)))
   | None \<Rightarrow> kreturn True)"

definition cancelSignal :: "nat \<Rightarrow> proc \<Rightarrow> proc" where
  "cancelSignal signum p = (if signum \<le> 31 then p\<lparr>pending := pending p XOR push_bit signum 1\<rparr> else p)"

section \<open>Default handling\<close>

definition handle_SIGSTOP :: "nat \<Rightarrow> ('a ptable_scheme, unit) kmon" where
  "handle_SIGSTOP i = kloop (kbind (pget i id) (\<lambda>p.
     if \<not> hasSignal p SIGCONT \<and> \<not> hasSignal p SIGKILL then kseq yield (kreturn None)
     else kreturn (Some ())))"

definition kill_proc :: "proc \<Rightarrow> proc" where
  "kill_proc p = p\<lparr>killed := True, pstate := (if pstate p = SLEEPING then RUNNABLE else pstate p)\<rparr>"

definition handle_SIGKILL :: "nat \<Rightarrow> ('a ptable_scheme, unit) kmon" where
  "handle_SIGKILL i = kmod (pupd i kill_proc)"

definition cont_proc :: "proc \<Rightarrow> proc" where
  "cont_proc p = cancelSignal SIGCONT (if hasSignal p SIGSTOP then cancelSignal SIGSTOP p else p)"

definition handle_SIGCONT :: "nat \<Rightarrow> ('a ptable_scheme, unit) kmon" where
  "handle_SIGCONT i = kmod (pupd i cont_proc)"

section \<open>Delivery\<close>

text \<open>
  The first \<open>switch\<close> of \<open>check_kernel_sigs\<close>: a signal whose handler is the default, or
  the default of its own kind.
\<close>

definition default_action :: "nat \<Rightarrow> nat \<Rightarrow> ('a ptable_scheme, unit) kmon" where
  "default_action i sig = kbind (pget i (\<lambda>p. handlers p ! sig)) (\<lambda>h.
     if sig = SIGKILL then kwhen (h = SIG_DFL \<or> h = of_nat SIGKILL) (handle_SIGKILL i)
     else if sig = SIGCONT then kwhen (h = SIG_DFL \<or> h = of_nat SIGCONT) (handle_SIGCONT i)
     else if sig = SIGSTOP then kwhen (h = SIG_DFL \<or> h = of_nat SIGSTOP) (handle_SIGSTOP i)
     else kwhen (h = SIG_DFL) (handle_SIGKILL i))"

text \<open>
  Running a handler of the program: the trap frame is saved at \<open>trap_backup\<close>, and the code
  that calls \<open>sigret\<close>, the signal's number and the return address go onto the user's stack.
\<close>

definition push_handler :: "nat \<Rightarrow> nat \<Rightarrow> ('a ptable_scheme, unit) kmon" where
  "push_handler i sig =
     kbind (pget i id) (\<lambda>p.
     kseq (kwrite_bytes (trap_backup p) (tf_bytes (tf p)))
     (let sp = tf_esp (tf p) - of_nat (length sigret_code) in
      kseq (kmod (pupd i (\<lambda>p. p\<lparr>tf := (tf p)\<lparr>tf_esp := sp\<rparr>\<rparr>)))
      (kseq (kwrite_bytes sp sigret_code)
      (kseq (kmod (pupd i (\<lambda>p. p\<lparr>tf := (tf p)\<lparr>tf_esp := sp - 4\<rparr>\<rparr>)))
      (kseq (kwrite32 (sp - 4) (of_nat sig))
      (kseq (kmod (pupd i (\<lambda>p. p\<lparr>tf := (tf p)\<lparr>tf_eip := handlers p ! sig, tf_esp := sp - 8\<rparr>\<rparr>)))
      (kseq (kwrite32 (sp - 8) sp)
      (kmod (pupd i (cancelSignal sig))))))))))"

text \<open>
  The second half of the loop body; \<open>True\<close> when a handler of the program was set up, on
  which \<open>check_kernel_sigs\<close> returns.
\<close>

definition custom_action :: "nat \<Rightarrow> nat \<Rightarrow> ('a ptable_scheme, bool) kmon" where
  "custom_action i sig = kbind (pget i (\<lambda>p. handlers p ! sig)) (\<lambda>h.
     if h = SIG_IGN then kseq (kmod (pupd i (cancelSignal sig))) (kreturn False)
     else if h = SIG_DFL then kreturn False
     else if h = of_nat SIGKILL then kseq (handle_SIGKILL i) (kreturn False)
     else if h = of_nat SIGCONT then kseq (handle_SIGCONT i) (kreturn False)
     else if h = of_nat SIGSTOP then kseq (handle_SIGSTOP i) (kreturn False)
     else kseq (push_handler i sig) (kreturn True))"

definition deliver :: "nat \<Rightarrow> nat \<Rightarrow> ('a ptable_scheme, bool) kmon" where
  "deliver i sig =
     kseq (kmod (pupd i (\<lambda>p. p\<lparr>mask_backup := mask p\<rparr>)))
     (kseq (kmod (pupd i (\<lambda>p. p\<lparr>mask := 0\<rparr>)))
     (kseq (default_action i sig)
     (kbind (custom_action i sig) (\<lambda>done.
      if done then kreturn True
      else kseq (kmod (pupd i (\<lambda>p. p\<lparr>mask := mask_backup p\<rparr>))) (kreturn False)))))"

fun sig_loop :: "nat \<Rightarrow> nat list \<Rightarrow> ('a ptable_scheme, unit) kmon" where
  "sig_loop i [] = kreturn ()"
| "sig_loop i (sig # sigs) =
     kbind (pget i (\<lambda>p. hasSignal p sig)) (\<lambda>has.
     kbind (if has then isBlocked sig else kreturn True) (\<lambda>blocked.
     if blocked then sig_loop i sigs
     else kbind (deliver i sig) (\<lambda>done. if done then kreturn () else sig_loop i sigs)))"

definition signals :: "nat list" where
  "signals = [0..<32]"

definition check_kernel_sigs :: "('a ptable_scheme, unit) kmon" where
  "check_kernel_sigs = kbind myproc (\<lambda>cur. case cur of
     None \<Rightarrow> kreturn ()
   | Some i \<Rightarrow> kbind (pget i id) (\<lambda>p.
       if mask p = 0 \<or> pending p = 0 then kreturn () else sig_loop i signals))"

definition sigret :: "('a ptable_scheme, unit) kmon" where
  "sigret = kbind myproc (\<lambda>cur. case cur of
     None \<Rightarrow> kreturn ()
   | Some i \<Rightarrow>
       kbind (pget i trap_backup) (\<lambda>a.
       kbind (kread_bytes a 76) (\<lambda>d.
       kseq (kmod (pupd i (\<lambda>p. p\<lparr>tf := tf_of_bytes d\<rparr>)))
       (kmod (pupd i (\<lambda>p. p\<lparr>mask := mask_backup p\<rparr>))))))"

section \<open>Saving and restoring the frame\<close>

lemma word_of_bytes_eq:
  "word_of_bytes [ucast w, ucast (drop_bit 8 w), ucast (drop_bit 16 w), ucast (drop_bit 24 w)] = w"
  using word_of_bytes_of_word [of w] by (simp add: bytes_of_word_def)

lemma tf_of_tf_bytes: "tf_of_bytes (tf_bytes t) = t"
  by (simp add: tf_of_bytes_def tf_bytes_def get32_def get16_def bytes_of_half_def bytes_of_word_def
      part_def word_of_bytes_eq half_of_bytes)


section \<open>Delivery without handlers of the program\<close>

lemma has_signal_bit: "hasSignal p k \<longleftrightarrow> bit (pending p) k"
proof -
  have "push_bit k (1 :: u32) = 2 ^ k" by (simp add: push_bit_eq_mult)
  then show ?thesis
    by (simp add: hasSignal_def word_neq_0_conv [symmetric] and_exp_eq_0_iff_not_bit)
qed

lemma isBlocked_run:
  assumes "on_cpu c s" "cproc (cpus s ! c) = Some i"
  shows "isBlocked k e s = Ret (\<not> bit (mask (procs s ! i)) k) e s"
proof -
  have "push_bit k (1 :: u32) = 2 ^ k" by (simp add: push_bit_eq_mult)
  then show ?thesis
    using assms
    by (simp add: isBlocked_def myproc_run [OF assms(1)] word_neq_0_conv [symmetric] and_exp_eq_0_iff_not_bit)
qed

lemma pupd_ctxt [simp]:
  "cpus (pupd i f s) = cpus s" "ncpu (pupd i f s) = ncpu s" "lapic_id (pupd i f s) = lapic_id s"
  "intr_on (pupd i f s) = intr_on s" "locks (pupd i f s) = locks s" "length (procs (pupd i f s)) = length (procs s)"
  "i < length (procs s) \<Longrightarrow> procs (pupd i f s) ! i = f (procs s ! i)"
  by (simp_all add: pupd_def)

lemma pupd_pupd: "i < length (procs s) \<Longrightarrow> pupd i f (pupd i g s) = pupd i (f \<circ> g) s"
  by (simp add: pupd_def)

lemma pupd_same: "f (procs s ! i) = procs s ! i \<Longrightarrow> pupd i f s = s"
  by (simp add: pupd_def)

lemma sig_loop_none:
  assumes "on_cpu c s" "cproc (cpus s ! c) = Some i"
    and "\<And>k. k \<in> set ks \<Longrightarrow> bit (pending (procs s ! i)) k \<Longrightarrow> \<not> bit (mask (procs s ! i)) k"
  shows "sig_loop i ks e s = Ret () e s"
  using assms(3)
  by (induction ks) (simp_all add: has_signal_bit isBlocked_run [OF assms(1,2)] if_run)

text \<open>
  C33. A signal that the mask blocks is not acted on: when no pending signal has its bit in
  the mask, the way out of the kernel changes nothing, whatever the handlers are, and the
  signals stay pending.
\<close>

theorem blocked_signals_wait:
  assumes "on_cpu c s" "cproc (cpus s ! c) = Some i" "pending (procs s ! i) AND mask (procs s ! i) = 0"
  shows "check_kernel_sigs e s = Ret () e s"
proof -
  have "\<not> bit (mask (procs s ! i)) k" if "bit (pending (procs s ! i)) k" for k
    using assms(3) that by (metis bit_0_eq bit_and_iff bot_apply bot_bool_def)
  then show ?thesis
    using assms sig_loop_none [OF assms(1,2), of signals e]
    by (simp add: check_kernel_sigs_def myproc_run if_run)
qed

text \<open>A pending signal that is not blocked.\<close>

definition active :: "proc \<Rightarrow> nat \<Rightarrow> bool" where
  "active p k \<longleftrightarrow> bit (pending p) k \<and> bit (mask p) k"

definition killed_by_signal :: "proc \<Rightarrow> proc" where
  "killed_by_signal p = (kill_proc p)\<lparr>mask_backup := mask p\<rparr>"

lemma killed_by_signal_idem [simp]:
  "killed_by_signal (killed_by_signal p) = killed_by_signal p" "active (killed_by_signal p) = active p"
  "handlers (killed_by_signal p) = handlers p"
  by (simp_all add: killed_by_signal_def kill_proc_def active_def fun_eq_iff)

lemma deliver_kill:
  assumes i: "i < length (procs s)" and k: "k \<noteq> SIGCONT" "k \<noteq> SIGSTOP" and h: "handlers (procs s ! i) ! k = SIG_DFL"
  shows "deliver i k e s = Ret False e (pupd i killed_by_signal s)"
proof -
  define q where "q = (procs s ! i)\<lparr>mask_backup := mask (procs s ! i), mask := 0\<rparr>"
  have q: "pupd i (\<lambda>x. x\<lparr>mask_backup := mask x, mask := 0\<rparr>) s = pupd i (\<lambda>_. q) s" by (simp add: pupd_def q_def)
  have hq: "handlers q ! k = SIG_DFL" "handlers (kill_proc q) ! k = SIG_DFL"
    using h by (simp_all add: q_def kill_proc_def)
  have "deliver i k e s = Ret False e (pupd i (\<lambda>_. (kill_proc q)\<lparr>mask := mask_backup (kill_proc q)\<rparr>) s)"
    using i q hq k
    by (cases "k = SIGKILL")
       (simp_all add: deliver_def default_action_def custom_action_def handle_SIGKILL_def if_run pupd_pupd comp_def)
  moreover have "(kill_proc q)\<lparr>mask := mask_backup (kill_proc q)\<rparr> = killed_by_signal (procs s ! i)"
    by (cases "procs s ! i") (simp add: q_def kill_proc_def killed_by_signal_def)
  ultimately show ?thesis by (simp add: pupd_def)
qed

lemma sig_loop_kill:
  assumes c: "on_cpu c s" "cproc (cpus s ! c) = Some i" "i < length (procs s)"
    and ks: "\<And>k. k \<in> set ks \<Longrightarrow> active (procs s ! i) k \<Longrightarrow> k \<noteq> SIGCONT \<and> k \<noteq> SIGSTOP \<and> handlers (procs s ! i) ! k = SIG_DFL"
  shows "sig_loop i ks e s = Ret () e (if \<exists>k\<in>set ks. active (procs s ! i) k then pupd i killed_by_signal s else s)"
  using assms
proof (induction ks arbitrary: s)
  case (Cons k ks)
  let ?u = "pupd i killed_by_signal s"
  show ?case
  proof (cases "active (procs s ! i) k")
    case True
    have "deliver i k e s = Ret False e ?u"
      by (rule deliver_kill) (use Cons.prems True in auto)
    moreover have "sig_loop i ks e ?u = Ret () e (if \<exists>k\<in>set ks. active (procs ?u ! i) k then pupd i killed_by_signal ?u else ?u)"
      by (rule Cons.IH) (use Cons.prems in auto)
    moreover have "pupd i killed_by_signal ?u = ?u" using Cons.prems(3) by (simp add: pupd_pupd comp_def)
    ultimately show ?thesis
      using True Cons.prems by (simp add: has_signal_bit isBlocked_run [OF Cons.prems(1,2)] if_run active_def)
  next
    case False
    then show ?thesis
      using Cons by (auto simp: has_signal_bit isBlocked_run [OF Cons.prems(1,2)] if_run active_def)
  qed
qed simp


section \<open>Stop and continue\<close>

lemma bit_cancel:
  "bit (pending (cancelSignal k p)) j \<longleftrightarrow> (if j = k \<and> k \<le> 31 then \<not> bit (pending p) j else bit (pending p) j)"
proof -
  have "push_bit k (1 :: u32) = 2 ^ k" by (simp add: push_bit_eq_mult)
  moreover have "\<not> bit (pending p) j" if "31 < j" using bit_imp_le_length that by fastforce
  ultimately show ?thesis
    by (auto simp: cancelSignal_def bit_xor_iff bit_exp_iff)
qed

lemma bit_cont:
  assumes "bit (pending p) SIGCONT"
  shows "bit (pending (cont_proc p)) j \<longleftrightarrow> bit (pending p) j \<and> j \<noteq> SIGSTOP \<and> j \<noteq> SIGCONT"
    and "\<not> bit (pending q) SIGCONT \<Longrightarrow> \<not> bit (pending q) SIGSTOP \<Longrightarrow>
      bit (pending (cont_proc q)) j \<longleftrightarrow> bit (pending q) j \<or> j = SIGCONT"
  using assms by (auto simp: cont_proc_def bit_cancel has_signal_bit)

text \<open>
  C34. \<open>SIGCONT\<close> with its default handler clears itself and a pending \<open>SIGSTOP\<close>, and no other
  signal. With the handler set to \<open>SIGCONT\<close>, which is meant to be the same, the action runs
  twice and the second run sets the bit again: the signal is never cleared.
\<close>

theorem sigcont_clears:
  assumes i: "i < length (procs s)" and p: "bit (pending (procs s ! i)) SIGCONT"
    and h: "handlers (procs s ! i) ! SIGCONT \<in> {SIG_DFL, of_nat SIGCONT}"
  shows "\<exists>p. deliver i SIGCONT e s = Ret False e (pupd i (\<lambda>_. p) s) \<and> mask p = mask (procs s ! i)
    \<and> (\<forall>j. bit (pending p) j \<longleftrightarrow> (if j = SIGCONT then handlers (procs s ! i) ! SIGCONT \<noteq> SIG_DFL
                                else bit (pending (procs s ! i)) j \<and> j \<noteq> SIGSTOP))"
proof -
  define q where "q = (procs s ! i)\<lparr>mask_backup := mask (procs s ! i), mask := 0\<rparr>"
  define r where "r = (if handlers (procs s ! i) ! SIGCONT = SIG_DFL then cont_proc q else cont_proc (cont_proc q))"
  have keep: "mask_backup (cont_proc x) = mask_backup x" "handlers (cont_proc x) = handlers x" for x
    by (simp_all add: cont_proc_def cancelSignal_def)
  have "pupd i (\<lambda>x. x\<lparr>mask_backup := mask x, mask := 0\<rparr>) s = pupd i (\<lambda>_. q) s" by (simp add: pupd_def q_def)
  moreover have "handlers q = handlers (procs s ! i)" by (simp add: q_def)
  ultimately have "deliver i SIGCONT e s = Ret False e (pupd i (\<lambda>_. r\<lparr>mask := mask_backup r\<rparr>) s)"
    using i h keep
    by (cases "handlers (procs s ! i) ! SIGCONT = SIG_DFL")
       (simp_all add: deliver_def default_action_def custom_action_def handle_SIGCONT_def if_run pupd_pupd comp_def r_def)
  moreover have "mask_backup r = mask (procs s ! i)" by (simp add: r_def keep q_def)
  moreover have "bit (pending r) j \<longleftrightarrow> (if j = SIGCONT then handlers (procs s ! i) ! SIGCONT \<noteq> SIG_DFL
      else bit (pending (procs s ! i)) j \<and> j \<noteq> SIGSTOP)" for j
    using p bit_cont [of q] by (auto simp: r_def q_def)
  ultimately show ?thesis by (intro exI [of _ "r\<lparr>mask := mask_backup r\<rparr>"]) simp
qed

text \<open>
  An interference that hands the processor back: whatever the other processes did, processor
  \<open>c\<close> runs process \<open>i\<close> again, with the table's lock held by the scheduler.
\<close>

definition resumes :: "nat \<Rightarrow> nat \<Rightarrow> ('a ptable_scheme \<Rightarrow> 'a ptable_scheme) \<Rightarrow> bool" where
  "resumes c i f \<longleftrightarrow> (\<forall>t. may_sched c i t \<and> i < length (procs t) \<longrightarrow> on_cpu c (f t) \<and> ncli (cpus (f t) ! c) = 1
     \<and> lk_held c (locks (f t) PTABLE_LOCK) \<and> cproc (cpus (f t) ! c) = Some i \<and> i < length (procs (f t)))"

definition in_kernel :: "nat \<Rightarrow> nat \<Rightarrow> 'a ptable_scheme \<Rightarrow> bool" where
  "in_kernel c i s \<longleftrightarrow> on_cpu c s \<and> ncli (cpus s ! c) = 0 \<and> cproc (cpus s ! c) = Some i
     \<and> lk_free (locks s PTABLE_LOCK) \<and> i < length (procs s)"

lemma yield_run:
  assumes s: "in_kernel c i s" and f: "resumes c i f"
  shows "\<exists>t s'. yield (f # fs) s = Ret () fs s' \<and> may_sched c i t \<and> i < length (procs t) \<and> in_kernel c i s' \<and> procs s' = procs (f t)"
proof -
  let ?p = "(procs s)[i := (procs s ! i)\<lparr>pstate := RUNNABLE\<rparr>]"
  define t where "t = s\<lparr>cpus := deeper c (cpus s), intr_on := False,
      locks := (locks s)(PTABLE_LOCK := lk_take c (locks s PTABLE_LOCK)), procs := ?p\<rparr>"
  have c: "on_cpu c s" "ncli (cpus s ! c) = 0" "cproc (cpus s ! c) = Some i" "lk_free (locks s PTABLE_LOCK)"
    "i < length (procs s)" using s by (auto simp: in_kernel_def)
  have t: "may_sched c i t"
    using c ncli_deeper [OF c(1)] by (simp add: may_sched_def t_def cpu_ok_deeper)
  moreover have len: "i < length (procs t)" using c(5) by (simp add: t_def)
  ultimately have u: "on_cpu c (f t)" "ncli (cpus (f t) ! c) = 1" "lk_held c (locks (f t) PTABLE_LOCK)"
    "cproc (cpus (f t) ! c) = Some i" "i < length (procs (f t))" using f by (auto simp: resumes_def)
  have off: "\<not> intr_on (f t)" using nested_off [OF u(1)] u(2) by simp
  have d: "c < length (cpus (f t))" using u(1) cpu_ok_less by blast
  define v where "v = cpu_upd c (\<lambda>x. x\<lparr>intena := intena (cpus t ! c)\<rparr>) (f t)"
  have sch: "sched (f # fs) t = Ret () fs v"
    using sched_run(2) [OF t] mycpu_run [OF u(1) off] by (simp add: v_def)
  have nth: "cpus v ! j = (if j = c then (cpus (f t) ! c)\<lparr>intena := intena (cpus t ! c)\<rparr> else cpus (f t) ! j)" for j
    using d by (simp add: v_def cpu_upd_def nth_list_update)
  have v: "on_cpu c v" "ncli (cpus v ! c) = 1" "lk_held c (locks v PTABLE_LOCK)" "procs v = procs (f t)"
    "cproc (cpus v ! c) = Some i" "c < length (cpus v)"
    using u d nth unfolding cpu_ok_def cpu_if_def by (auto simp: v_def cpu_upd_def find_Some_iff)
  define w where "w = v\<lparr>cpus := shallower c (cpus v), intr_on := cpu_if c (shallower c (cpus v)),
    locks := (locks v)(PTABLE_LOCK := lk_drop (locks v PTABLE_LOCK))\<rparr>"
  have rel: "release PTABLE_LOCK fs v = Ret () fs w"
    unfolding w_def by (rule release_run) (use v in simp_all)
  have "shallower c (cpus v) ! j = (if j = c then (cpus v ! c)\<lparr>ncli := 0\<rparr> else cpus v ! j)" for j
    using v by (simp add: shallower_def nth_list_update)
  then have "in_kernel c i w"
    using v u(5) unfolding in_kernel_def cpu_ok_def by (auto simp: shallower_def find_Some_iff w_def)
  moreover have "yield (f # fs) s = Ret () fs w"
    using c sch rel myproc_run [of c "t\<lparr>procs := procs s\<rparr>"]
    by (simp add: yield_def acquire_run [where c = c] pupd_def t_def cpu_ok_deeper)
  ultimately show ?thesis using t len v(4) by (auto simp: w_def)
qed

text \<open>
  C19. A stopped process goes on when it is told to. While neither \<open>SIGCONT\<close> nor \<open>SIGKILL\<close> is
  pending the process keeps giving up the processor; after any number of turns, once one of
  the two has been sent, the process that gets the processor leaves \<open>handle_SIGSTOP\<close>.
\<close>

theorem stopped_process_continues:
  assumes s: "in_kernel c i s" and fs: "\<forall>f\<in>set fs. resumes c i f" and g: "resumes c i g"
    and sent: "\<And>t. may_sched c i t \<Longrightarrow> i < length (procs t) \<Longrightarrow> hasSignal (procs (g t) ! i) SIGCONT \<or> hasSignal (procs (g t) ! i) SIGKILL"
  shows "\<exists>rest' s'. handle_SIGSTOP i (fs @ g # rest) s = Ret () rest' s'
    \<and> (hasSignal (procs s' ! i) SIGCONT \<or> hasSignal (procs s' ! i) SIGKILL)"
proof -
  let ?body = "kbind (kget (\<lambda>s. id (procs s ! i))) (\<lambda>p.
     if \<not> hasSignal p SIGCONT \<and> \<not> hasSignal p SIGKILL then kseq yield (kreturn None) else kreturn (Some ()))"
  let ?Q = "\<lambda>s. hasSignal (procs s ! i) SIGCONT \<or> hasSignal (procs s ! i) SIGKILL"
  have "\<exists>rest' s'. kloop_n n ?body (fs @ g # rest) s = Ret () rest' s' \<and> ?Q s'"
    if "length (fs @ g # rest) < n" "in_kernel c i s" "\<forall>f\<in>set fs. resumes c i f" for n
    using that
  proof (induction fs arbitrary: s n)
    case Nil
    then obtain m k where n: "n = Suc (Suc k)" by (cases n; cases "n - 1") auto
    obtain t s' where "yield (g # rest) s = Ret () rest s'" "may_sched c i t" "i < length (procs t)" "procs s' = procs (g t)"
      using yield_run [OF Nil.prems(2) g] by blast
    with sent [of t] show ?case by (auto simp: n if_run option_run)
  next
    case (Cons f fs)
    then obtain k where n: "n = Suc k" by (cases n) auto
    show ?case
    proof (cases "?Q s")
      case False
      obtain s' where y: "yield (f # fs @ g # rest) s = Ret () (fs @ g # rest) s'" "in_kernel c i s'"
        using yield_run [of c i s f "fs @ g # rest"] Cons.prems by auto
      with Cons.IH [of k s'] Cons.prems False n show ?thesis by (simp add: if_run option_run)
    qed (auto simp: n if_run option_run)
  qed
  from this [OF lessI s fs] show ?thesis unfolding handle_SIGSTOP_def kloop_def .
qed


section \<open>Instances\<close>

text \<open>Process 0 of the two processes is the given one, and runs on processor 0.\<close>

definition signalled :: "proc \<Rightarrow> ptable" where
  "signalled p = two_procs\<lparr>cpus := [one_cpu\<lparr>cproc := Some 0\<rparr>], procs := (procs two_procs)[0 := p]\<rparr>"

lemma signalled_cpu: "on_cpu 0 (signalled p)"
  by (simp add: signalled_def two_procs_simps cpu_ok_def cpu_if_def)

lemma signalled_facts [simp]:
  "cproc (cpus (signalled p) ! 0) = Some 0" "ncli (cpus (signalled p) ! 0) = 0" "procs (signalled p) ! 0 = p"
  "length (procs (signalled p)) = 64" "lk_free (locks (signalled p) l)"
  by (simp_all add: signalled_def two_procs_slots two_procs_cpu lk_free_def one_cpu_def)

theorem blocked_signals_wait_witness:
  "check_kernel_sigs [] (signalled (unused_proc\<lparr>pending := 0x200, mask := 0xFFFFFDFF\<rparr>))
    = Ret () [] (signalled (unused_proc\<lparr>pending := 0x200, mask := 0xFFFFFDFF\<rparr>))"
  by (rule blocked_signals_wait [where c = 0 and i = 0]) (simp_all add: signalled_cpu)


theorem sigcont_clears_witness:
  "\<exists>p. deliver 0 SIGCONT [] (signalled (unused_proc\<lparr>pending := 0xA0000, mask := 0xFFFFFFFF, handlers := replicate 32 SIG_DFL\<rparr>))
      = Ret False [] (pupd 0 (\<lambda>_. p) (signalled (unused_proc\<lparr>pending := 0xA0000, mask := 0xFFFFFFFF, handlers := replicate 32 SIG_DFL\<rparr>)))
    \<and> \<not> bit (pending p) SIGCONT \<and> \<not> bit (pending p) SIGSTOP"
  using sigcont_clears [of 0 "signalled (unused_proc\<lparr>pending := 0xA0000, mask := 0xFFFFFFFF, handlers := replicate 32 SIG_DFL\<rparr>)" "[]"]
  by auto

definition send_cont :: "ptable \<Rightarrow> ptable" where
  "send_cont = pupd 0 (\<lambda>p. p\<lparr>pending := pending p OR push_bit SIGCONT 1, pstate := RUNNING\<rparr>)"

theorem stopped_process_continues_witness:
  "\<exists>rest s'. handle_SIGSTOP 0 [id, id, send_cont] (signalled (unused_proc\<lparr>pstate := RUNNING\<rparr>)) = Ret () rest s'
    \<and> (hasSignal (procs s' ! 0) SIGCONT \<or> hasSignal (procs s' ! 0) SIGKILL)"
proof -
  have "in_kernel 0 0 (signalled (unused_proc\<lparr>pstate := RUNNING\<rparr>))" by (simp add: in_kernel_def signalled_cpu)
  moreover have "resumes 0 0 (id :: ptable \<Rightarrow> _)" by (auto simp: resumes_def may_sched_def)
  moreover have "resumes 0 0 send_cont" by (auto simp: resumes_def may_sched_def send_cont_def)
  moreover have "hasSignal (procs (send_cont t) ! 0) SIGCONT" if "0 < length (procs t)" for t
    using that by (simp add: has_signal_bit send_cont_def pupd_def bit_or_iff bit_push_bit_iff)
  ultimately show ?thesis
    using stopped_process_continues [of 0 0 "signalled (unused_proc\<lparr>pstate := RUNNING\<rparr>)" "[id, id]" send_cont "[]"]
    by auto
qed

end
