(* ===== verification/Sysproc.thy ===== *)
theory Sysproc
  imports Exec Signals
begin

text \<open>
  Arguments of system calls (the first half of \<^verbatim>\<open>syscall.c\<close>) and the system calls on processes
  (\<^verbatim>\<open>sysproc.c\<close>).
\<close>

section \<open>Arguments\<close>

text \<open>
  \<open>None\<close> is the result -1. A system call runs in a process, so the null pointer of
  \<open>myproc\<close> is a fault.
\<close>

definition with_proc :: "(nat \<Rightarrow> ('a ptable_scheme, 'b) kmon) \<Rightarrow> ('a ptable_scheme, 'b) kmon" where
  "with_proc f = kbind myproc (\<lambda>cur. kderef cur f)"

definition fetchint :: "u32 \<Rightarrow> ('a ptable_scheme, u32 option) kmon" where
  "fetchint addr = with_proc (\<lambda>i. kbind (pget i sz) (\<lambda>size.
     if addr \<ge> size \<or> addr + 4 > size then kreturn None
     else kbind (kread32 addr) (\<lambda>w. kreturn (Some w))))"

text \<open>
  \<open>fetchstr\<close> gives the bytes of the string, which the kernel later reads through the
  pointer; \<open>n\<close> is the distance to the end of the process.
\<close>

fun fetchstr_loop :: "u32 \<Rightarrow> nat \<Rightarrow> u8 list \<Rightarrow> ('a ptable_scheme, u8 list option) kmon" where
  "fetchstr_loop s 0 got = kreturn None"
| "fetchstr_loop s (Suc n) got = kbind (kread8 s) (\<lambda>b.
     if b = 0 then kreturn (Some got) else fetchstr_loop (s + 1) n (got @ [b]))"

definition fetchstr :: "u32 \<Rightarrow> ('a ptable_scheme, u8 list option) kmon" where
  "fetchstr addr = with_proc (\<lambda>i. kbind (pget i sz) (\<lambda>size.
     if addr \<ge> size then kreturn None else fetchstr_loop addr (unat size - unat addr) []))"

definition argint :: "nat \<Rightarrow> ('a ptable_scheme, u32 option) kmon" where
  "argint n = with_proc (\<lambda>i. kbind (pget i (\<lambda>p. tf_esp (tf p))) (\<lambda>esp. fetchint (esp + 4 + 4 * of_nat n)))"

definition argptr :: "nat \<Rightarrow> int \<Rightarrow> ('a ptable_scheme, u32 option) kmon" where
  "argptr n nbytes = with_proc (\<lambda>i. kbind (argint n) (\<lambda>r.
     case r of
       None \<Rightarrow> kreturn None
     | Some a \<Rightarrow> kbind (pget i sz) (\<lambda>top.
         if nbytes < 0 \<or> a \<ge> top \<or> a + of_int nbytes > top then kreturn None
         else kreturn (Some a))))"

definition argstr :: "nat \<Rightarrow> ('a ptable_scheme, u8 list option) kmon" where
  "argstr n = kbind (argint n) (\<lambda>r. case r of None \<Rightarrow> kreturn None | Some a \<Rightarrow> fetchstr a)"

text \<open>\<open>if(argx(...) < 0) return -1;\<close>\<close>

definition need :: "('s, 'x option) kmon \<Rightarrow> ('x \<Rightarrow> ('s, u32) kmon) \<Rightarrow> ('s, u32) kmon" where
  "need m f = kbind m (\<lambda>r. case r of None \<Rightarrow> kreturn (-1) | Some x \<Rightarrow> f x)"

section \<open>System calls\<close>

definition sys_fork :: "('a ftable_scheme, u32) kmon" where
  "sys_fork = fork"

definition sys_exit :: "('a ftable_scheme, u32) kmon" where
  "sys_exit = kseq exit (kreturn 0)"

definition sys_wait :: "('a ptable_scheme, u32) kmon" where
  "sys_wait = wait"

definition sys_kill :: "('a ptable_scheme, u32) kmon" where
  "sys_kill = need (argint 0) (\<lambda>target. need (argint 1) (\<lambda>signum.
     kbind (kill target signum) (\<lambda>r. kreturn (of_int r))))"

definition sys_getpid :: "('a ptable_scheme, u32) kmon" where
  "sys_getpid = with_proc (\<lambda>i. pget i pid)"

definition sys_sbrk :: "('a ptable_scheme, u32) kmon" where
  "sys_sbrk = need (argint 0) (\<lambda>n.
     with_proc (\<lambda>i. kbind (pget i sz) (\<lambda>addr.
     kbind (growproc n) (\<lambda>r. kreturn (if r < 0 then -1 else addr)))))"

text \<open>The comparison with \<open>n\<close> is unsigned.\<close>

definition sys_sleep :: "('a ptable_scheme, u32) kmon" where
  "sys_sleep = need (argint 0) (\<lambda>n.
     kseq (acquire TICKS_LOCK)
     (kbind (kget ticks) (\<lambda>ticks0.
      kloop (kbind (kget ticks) (\<lambda>t.
        if t - ticks0 < n then
          with_proc (\<lambda>i. kbind (pget i id) (\<lambda>p.
          kbind (if \<not> killed p \<and> hasSignal p SIGKILL then isBlocked SIGKILL else kreturn True) (\<lambda>blocked.
          if killed p \<or> hasSignal p SIGKILL \<and> \<not> blocked then
            kseq (release TICKS_LOCK) (kreturn (Some (-1)))
          else kseq (sleep (Some TicksChan) (Some TICKS_LOCK)) (kreturn None))))
        else kseq (release TICKS_LOCK) (kreturn (Some 0)))))))"

definition sys_uptime :: "('a ptable_scheme, u32) kmon" where
  "sys_uptime =
     kseq (acquire TICKS_LOCK)
     (kbind (kget ticks) (\<lambda>xticks.
      kseq (release TICKS_LOCK)
      (kreturn xticks)))"

definition sys_sigprocmask :: "('a ptable_scheme, u32) kmon" where
  "sys_sigprocmask = need (argint 0) sigprocmask"

definition sys_signal :: "('a ptable_scheme, u32) kmon" where
  "sys_signal = need (argint 0) (\<lambda>signum. need (argint 1) (\<lambda>handler. signal signum handler))"

definition sys_sigret :: "('a ptable_scheme, u32) kmon" where
  "sys_sigret = kseq sigret (kreturn 1)"

section \<open>Pointers from the program\<close>

lemma with_proc_run:
  "at_rest c i s \<Longrightarrow> with_proc f e s = f i e s"
  using at_restD(1,3) [of c i s] by (simp add: with_proc_def myproc_run [of c])

lemma argint_run:
  assumes "at_rest c i s" "sz (procs s ! i) \<le> KERNBASE"
    and addr: "addr = tf_esp (tf (procs s ! i)) + 4 + 4 * of_nat n"
    and readable: "unat addr + 4 \<le> unat (sz (procs s ! i)) \<Longrightarrow> kread32 addr e s = Ret w e s"
  shows "argint n e s = Ret (if unat addr + 4 \<le> unat (sz (procs s ! i)) then Some w else None) e s"
proof -
  let ?top = "sz (procs s ! i)"
  have top: "unat ?top \<le> 2147483648" using assms(2) by (simp add: word_le_nat_alt)
  have "addr \<ge> ?top \<or> addr + 4 > ?top \<longleftrightarrow> \<not> unat addr + 4 \<le> unat ?top"
  proof (cases "addr \<ge> ?top")
    case True
    then show ?thesis by (simp add: word_le_nat_alt)
  next
    case False
    then have "unat (addr + 4) = unat addr + 4" using top by (simp add: word_le_nat_alt unat_plus_if')
    then show ?thesis using False by (auto simp: word_less_nat_alt word_le_nat_alt)
  qed
  then show ?thesis
    using readable addr by (simp add: argint_def fetchint_def with_proc_run [OF assms(1)] if_run add.assoc)
qed

text \<open>
  C12. What a system call gets from \<open>argptr\<close> lies in the process. The word at the \<open>n\<close>-th place of
  the user's stack is read only if all four bytes of it are below the size of the process, and
  it is accepted as a pointer exactly when \<open>nbytes\<close> is not negative and all \<open>nbytes\<close> bytes at it are
  below that size, as numbers and not modulo 2 to the 32: the sums in the code do not wrap, because a
  process is not larger than \<open>KERNBASE\<close> and \<open>nbytes\<close> is an \<open>int\<close>.
\<close>

theorem argptr_in_process:
  assumes "at_rest c i s" "sz (procs s ! i) \<le> KERNBASE" "nbytes < 2 ^ 31"
    and "addr = tf_esp (tf (procs s ! i)) + 4 + 4 * of_nat n"
    and "unat addr + 4 \<le> unat (sz (procs s ! i)) \<Longrightarrow> kread32 addr e s = Ret w e s"
  shows "argptr n nbytes e s =
    Ret (if unat addr + 4 \<le> unat (sz (procs s ! i))
           \<and> 0 \<le> nbytes \<and> unat w < unat (sz (procs s ! i)) \<and> unat w + nat nbytes \<le> unat (sz (procs s ! i))
         then Some w else None) e s"
proof -
  let ?top = "sz (procs s ! i)"
  have top: "unat ?top \<le> 2147483648" using assms(2) by (simp add: word_le_nat_alt)
  have bad: "nbytes < 0 \<or> w \<ge> ?top \<or> w + of_int nbytes > ?top
    \<longleftrightarrow> \<not> (0 \<le> nbytes \<and> unat w < unat ?top \<and> unat w + nat nbytes \<le> unat ?top)"
  proof (cases "nbytes < 0 \<or> w \<ge> ?top")
    case True
    then show ?thesis by (auto simp: word_le_nat_alt)
  next
    case False
    then have "unat (word_of_int nbytes :: u32) = nat nbytes"
      using assms(3) by (simp add: unsigned_of_int take_bit_int_eq_self)
    moreover have "unat w + nat nbytes < 4294967296" using False top assms(3) by (auto simp: word_le_nat_alt)
    ultimately have "unat (w + of_int nbytes) = unat w + nat nbytes" by (simp add: unat_plus_if')
    then show ?thesis using False by (auto simp: word_less_nat_alt word_le_nat_alt)
  qed
  show ?thesis
    using argint_run [OF assms(1,2,4,5)]
    by (simp add: argptr_def with_proc_run [OF assms(1)] option_run if_run) (use bad in \<open>auto simp: not_less\<close>)
qed

text \<open>A process whose first page is mapped to the zero page at \<open>0x404000\<close>.\<close>

definition paged :: ptable where
  "paged = (signalled (unused_proc\<lparr>sz := 4096, tf := zero_tf\<lparr>tf_esp := 64\<rparr>\<rparr>))
     \<lparr>ram := store32 (store32 (\<lambda>_. 0) 0x80402000 0x403007) 0x80403000 0x404007\<rparr>"

lemma paged_facts: "at_rest 0 0 paged" "procs paged ! 0 = unused_proc\<lparr>sz := 4096, tf := zero_tf\<lparr>tf_esp := 64\<rparr>\<rparr>"
  using signalled_cpu by (simp_all add: paged_def at_rest_def)

lemma paged_tables:
  "load32 (ram paged) 0x80402000 = 0x403007" "load32 (ram paged) 0x80403000 = 0x404007" "cr3 paged = 0x402000"
  by (simp_all add: paged_def load32_store32 load32_store32_other aligned4_def signalled_def two_procs_simps)

lemma paged_byte: "a \<in> {72, 73, 74, 75} \<Longrightarrow> kread8 a e paged = Ret 0 e paged"
  by (auto simp: kread8_run kxlate_def pte_of_def paged_tables PDX_def PTX_def P2V_def PTE_ADDR_def PTE_FLAGS_def)
     (simp_all add: paged_def store32_def)

lemma paged_word: "kread32 72 e paged = Ret 0 e paged"
  by (simp add: kread32_def eval_nat_numeral paged_byte word_of_bytes_def)

theorem argptr_in_process_witness:
  "argptr 1 4096 [] paged = Ret (Some 0) [] paged \<and> argptr 1 4097 [] paged = Ret None [] paged"
proof -
  have "unat (sz (procs paged ! 0)) = 4096" "sz (procs paged ! 0) \<le> KERNBASE" by (simp_all add: paged_facts)
  moreover have "(72 :: u32) = tf_esp (tf (procs paged ! 0)) + 4 + 4 * of_nat 1" by (simp add: paged_facts)
  ultimately show ?thesis
    using argptr_in_process [OF paged_facts(1), of 4096 72 1 "[]" 0]
      argptr_in_process [OF paged_facts(1), of 4097 72 1 "[]" 0] paged_word by simp
qed

end
