(* ===== verification/Sysfile.thy ===== *)
theory Sysfile
  imports Sysproc
begin

text \<open>
  The system calls on files (\<^verbatim>\<open>sysfile.c\<close>).
\<close>

section \<open>Descriptors\<close>

definition argfd :: "nat \<Rightarrow> ('a ftable_scheme, (nat \<times> nat) option) kmon" where
  "argfd n = kbind (argint n) (\<lambda>r. case r of
     None \<Rightarrow> kreturn None
   | Some fd \<Rightarrow>
       if sint fd < 0 \<or> sint fd \<ge> int NOFILE then kreturn None
       else with_proc (\<lambda>i. kbind (pget i (\<lambda>p. ofile p ! unat fd)) (\<lambda>f.
         kreturn (map_option (\<lambda>f. (unat fd, f)) f))))"

definition fdalloc :: "nat \<Rightarrow> ('a ftable_scheme, nat option) kmon" where
  "fdalloc f = with_proc (\<lambda>i.
     kbind (pget i (\<lambda>p. find (\<lambda>fd. ofile p ! fd = None) [0..<NOFILE])) (\<lambda>r.
     case r of
       None \<Rightarrow> kreturn None
     | Some fd \<Rightarrow>
         kseq (kmod (pupd i (\<lambda>p. p\<lparr>ofile := (ofile p)[fd := Some f]\<rparr>)))
         (kreturn (Some fd))))"

definition clear_fd :: "nat \<Rightarrow> ('a ptable_scheme, unit) kmon" where
  "clear_fd fd = with_proc (\<lambda>i. kmod (pupd i (\<lambda>p. p\<lparr>ofile := (ofile p)[fd := None]\<rparr>)))"

definition sys_dup :: "('a ftable_scheme, u32) kmon" where
  "sys_dup = need (argfd 0) (\<lambda>(_, f).
     need (fdalloc f) (\<lambda>fd.
     kseq (filedup f)
     (kreturn (of_nat fd))))"

definition sys_read :: "('a ftable_scheme, u32) kmon" where
  "sys_read = need (argfd 0) (\<lambda>(_, f). need (argint 2) (\<lambda>n. need (argptr 1 (sint n)) (\<lambda>p.
     kbind (fileread f p (sint n)) (\<lambda>r. kreturn (of_int r)))))"

definition sys_write :: "('a ftable_scheme, u32) kmon" where
  "sys_write = need (argfd 0) (\<lambda>(_, f). need (argint 2) (\<lambda>n. need (argptr 1 (sint n)) (\<lambda>p.
     kbind (filewrite f p (sint n)) (\<lambda>r. kreturn (of_int r)))))"

definition sys_close :: "('a ftable_scheme, u32) kmon" where
  "sys_close = need (argfd 0) (\<lambda>(fd, f).
     kseq (clear_fd fd)
     (kseq (fileclose f)
     (kreturn 0)))"

definition sys_fstat :: "('a ftable_scheme, u32) kmon" where
  "sys_fstat = need (argfd 0) (\<lambda>(_, f). need (argptr 1 20) (\<lambda>st.
     kbind (filestat f st) (\<lambda>r. kreturn (of_int r))))"

section \<open>Links\<close>

definition set_nlink :: "nat \<Rightarrow> (u16 \<Rightarrow> u16) \<Rightarrow> ('a icache_scheme, unit) kmon" where
  "set_nlink ip f = kseq (kmod (iupd ip (\<lambda>x. x\<lparr>nlink := f (nlink x)\<rparr>))) (iupdate ip)"

definition link_bad :: "nat \<Rightarrow> ('a ftable_scheme, u32) kmon" where
  "link_bad ip =
     kseq (ilock (Some ip))
     (kseq (set_nlink ip (\<lambda>k. k - 1))
     (kseq (iunlockput ip)
     (kseq end_op
     (kreturn (-1)))))"

definition sys_link :: "('a ftable_scheme, u32) kmon" where
  "sys_link = need (argstr 0) (\<lambda>old. need (argstr 1) (\<lambda>new.
     kseq begin_op
     (kbind (namei old) (\<lambda>found.
      case found of
        None \<Rightarrow> kseq end_op (kreturn (-1))
      | Some ip \<Rightarrow>
          kseq (ilock (Some ip))
          (kbind (ifield ip itype) (\<lambda>t.
           if t = T_DIR then kseq (iunlockput ip) (kseq end_op (kreturn (-1)))
           else
             kseq (set_nlink ip (\<lambda>k. k + 1))
             (kseq (iunlock (Some ip))
             (kbind (nameiparent new) (\<lambda>found.
              case found of
                None \<Rightarrow> link_bad ip
              | Some (dp, name) \<Rightarrow>
                  kseq (ilock (Some dp))
                  (kbind (kget (\<lambda>s. idev (inodes s ! dp) = idev (inodes s ! ip))) (\<lambda>same.
                   kbind (ifield ip inum) (\<lambda>n.
                   kbind (if same then dirlink dp name n else kreturn (-1)) (\<lambda>r.
                   if r < 0 then kseq (iunlockput dp) (link_bad ip)
                   else
                     kseq (iunlockput dp)
                     (kseq (iput ip)
                     (kseq end_op
                     (kreturn 0))))))))))))))))"

text \<open>The entries after \<open>.\<close> and \<open>..\<close>, of which a directory has at most \<open>2\<^sup>28\<close>.\<close>

definition isdirempty :: "nat \<Rightarrow> ('a console_scheme, bool) kmon" where
  "isdirempty dp = kiter 268435457 (\<lambda>off.
     kbind (ifield dp isize) (\<lambda>size.
     if off < size then
       kbind (read_dirent ''isdirempty: readi'' dp off) (\<lambda>de.
       if de_inum de \<noteq> 0 then kreturn (Inr False) else kreturn (Inl (off + 16)))
     else kreturn (Inr True))) 32"

definition unlink_bad :: "nat \<Rightarrow> ('a ftable_scheme, u32) kmon" where
  "unlink_bad dp = kseq (iunlockput dp) (kseq end_op (kreturn (-1)))"

definition sys_unlink :: "('a ftable_scheme, u32) kmon" where
  "sys_unlink = need (argstr 0) (\<lambda>path.
     kseq begin_op
     (kbind (nameiparent path) (\<lambda>found.
      case found of
        None \<Rightarrow> kseq end_op (kreturn (-1))
      | Some (dp, name) \<Rightarrow>
          kseq (ilock (Some dp))
          (if namecmp name (bytes ''.'') = 0 \<or> namecmp name (bytes ''..'') = 0 then unlink_bad dp
           else
             kbind (dirlookup dp name) (\<lambda>found.
             case found of
               None \<Rightarrow> unlink_bad dp
             | Some (ip, off) \<Rightarrow>
                 kseq (ilock (Some ip))
                 (kbind (ifield ip id) (\<lambda>x.
                  if sint (nlink x) < 1 then kpanic ''unlink: nlink < 1''
                  else
                    kbind (if itype x = T_DIR then isdirempty ip else kreturn True) (\<lambda>empty.
                    if \<not> empty then kseq (iunlockput ip) (unlink_bad dp)
                    else
                      kbind (writei dp (FromKernel (replicate 16 0)) off 16) (\<lambda>r.
                      if r \<noteq> 16 then kpanic ''unlink: writei''
                      else
                        kseq (kwhen (itype x = T_DIR) (set_nlink dp (\<lambda>k. k - 1)))
                        (kseq (iunlockput dp)
                        (kseq (set_nlink ip (\<lambda>k. k - 1))
                        (kseq (iunlockput ip)
                        (kseq end_op
                        (kreturn 0))))))))))))))"

section \<open>Creating and opening\<close>

definition create :: "u8 list \<Rightarrow> u16 \<Rightarrow> u16 \<Rightarrow> u16 \<Rightarrow> ('a console_scheme, nat option) kmon" where
  "create path ty maj mnr = kbind (nameiparent path) (\<lambda>found.
     case found of
       None \<Rightarrow> kreturn None
     | Some (dp, name) \<Rightarrow>
         kseq (ilock (Some dp))
         (kbind (dirlookup dp name) (\<lambda>found.
          case found of
            Some (ip, _) \<Rightarrow>
              kseq (iunlockput dp)
              (kseq (ilock (Some ip))
              (kbind (ifield ip itype) (\<lambda>t.
               if ty = T_FILE \<and> t = T_FILE then kreturn (Some ip)
               else kseq (iunlockput ip) (kreturn None))))
          | None \<Rightarrow>
              kbind (ifield dp idev) (\<lambda>dev.
              kbind (ialloc dev ty) (\<lambda>ip.
              kseq (ilock (Some ip))
              (kseq (kmod (iupd ip (\<lambda>x. x\<lparr>major := maj, minor := mnr, nlink := 1\<rparr>)))
              (kseq (iupdate ip)
              (kbind (ifield ip inum) (\<lambda>n.
               kbind (ifield dp inum) (\<lambda>pn.
               kseq (kwhen (ty = T_DIR)
                 (kseq (set_nlink dp (\<lambda>k. k + 1))
                 (kbind (dirlink ip (bytes ''.'') n) (\<lambda>r.
                  if r < 0 then kpanic ''create dots''
                  else kbind (dirlink ip (bytes ''..'') pn) (\<lambda>r.
                    kwhen (r < 0) (kpanic ''create dots''))))))
               (kbind (dirlink dp name n) (\<lambda>r.
                if r < 0 then kpanic ''create: dirlink''
                else
                  kseq (iunlockput dp)
                  (kreturn (Some ip))))))))))))))"

abbreviation (input) O_WRONLY :: u32 where "O_WRONLY \<equiv> 1"
abbreviation (input) O_RDWR :: u32 where "O_RDWR \<equiv> 2"
abbreviation (input) O_CREATE :: u32 where "O_CREATE \<equiv> 0x200"

text \<open>The inode to open, locked.\<close>

definition open_inode :: "u8 list \<Rightarrow> u32 \<Rightarrow> ('a console_scheme, nat option) kmon" where
  "open_inode path omode =
     (if omode AND O_CREATE \<noteq> 0 then create path T_FILE 0 0
      else kbind (namei path) (\<lambda>found.
        case found of
          None \<Rightarrow> kreturn None
        | Some ip \<Rightarrow>
            kseq (ilock (Some ip))
            (kbind (ifield ip itype) (\<lambda>t.
             if t = T_DIR \<and> omode \<noteq> 0 then kseq (iunlockput ip) (kreturn None)
             else kreturn (Some ip)))))"

definition sys_open :: "('a ftable_scheme, u32) kmon" where
  "sys_open = need (argstr 0) (\<lambda>path. need (argint 1) (\<lambda>omode.
     kseq begin_op
     (kbind (open_inode path omode) (\<lambda>found.
      case found of
        None \<Rightarrow> kseq end_op (kreturn (-1))
      | Some ip \<Rightarrow>
          kbind filealloc (\<lambda>fo.
          kbind (case fo of None \<Rightarrow> kreturn None | Some f \<Rightarrow> fdalloc f) (\<lambda>fdo.
          case fdo of
            None \<Rightarrow>
              kseq (close_opt fo)
              (kseq (iunlockput ip)
              (kseq end_op
              (kreturn (-1))))
          | Some fd \<Rightarrow>
              kseq (iunlock (Some ip))
              (kseq end_op
              (kderef fo (\<lambda>f.
               kseq (kmod (fupd f (\<lambda>x. x\<lparr>ftype := FD_INODE, fip := ip, foff := 0,
                  readable := (omode AND O_WRONLY = 0),
                  writable := (omode AND O_WRONLY \<noteq> 0 \<or> omode AND O_RDWR \<noteq> 0)\<rparr>)))
               (kreturn (of_nat fd)))))))))))"

text \<open>The tail that \<open>sys_mkdir\<close> and \<open>sys_mknod\<close> share.\<close>

definition finish_create :: "nat option \<Rightarrow> ('a ftable_scheme, u32) kmon" where
  "finish_create r = (case r of
     None \<Rightarrow> kseq end_op (kreturn (-1))
   | Some ip \<Rightarrow> kseq (iunlockput ip) (kseq end_op (kreturn 0)))"

definition sys_mkdir :: "('a ftable_scheme, u32) kmon" where
  "sys_mkdir =
     kseq begin_op
     (kbind (argstr 0) (\<lambda>path.
      kbind (case path of None \<Rightarrow> kreturn None | Some path \<Rightarrow> create path T_DIR 0 0) finish_create))"

definition sys_mknod :: "('a ftable_scheme, u32) kmon" where
  "sys_mknod =
     kseq begin_op
     (kbind (argstr 0) (\<lambda>path.
      kbind (case path of None \<Rightarrow> kreturn None | Some path \<Rightarrow>
        kbind (argint 1) (\<lambda>maj. case maj of None \<Rightarrow> kreturn None | Some maj \<Rightarrow>
        kbind (argint 2) (\<lambda>mnr. case mnr of None \<Rightarrow> kreturn None | Some mnr \<Rightarrow>
        create path T_DEV (ucast maj) (ucast mnr)))) finish_create))"

definition sys_chdir :: "('a ftable_scheme, u32) kmon" where
  "sys_chdir = with_proc (\<lambda>cur.
     kseq begin_op
     (kbind (argstr 0) (\<lambda>path.
      kbind (case path of None \<Rightarrow> kreturn None | Some path \<Rightarrow> namei path) (\<lambda>found.
      case found of
        None \<Rightarrow> kseq end_op (kreturn (-1))
      | Some ip \<Rightarrow>
          kseq (ilock (Some ip))
          (kbind (ifield ip itype) (\<lambda>t.
           if t \<noteq> T_DIR then kseq (iunlockput ip) (kseq end_op (kreturn (-1)))
           else
             kseq (iunlock (Some ip))
             (kbind (pget cur cwd) (\<lambda>d. kderef d (\<lambda>d.
              kseq (iput d)
              (kseq end_op
              (kseq (kmod (pupd cur (\<lambda>p. p\<lparr>cwd := Some ip\<rparr>)))
              (kreturn 0))))))))))))"

section \<open>Programs and pipes\<close>

text \<open>The loop over the argument pointers; \<open>argv\<close> has 32 entries.\<close>

fun fetch_argv :: "u32 \<Rightarrow> nat \<Rightarrow> u8 list list \<Rightarrow> ('a ptable_scheme, u8 list list option) kmon" where
  "fetch_argv a 0 got = kreturn None"
| "fetch_argv a (Suc n) got = kbind (fetchint a) (\<lambda>r. case r of
     None \<Rightarrow> kreturn None
   | Some uarg \<Rightarrow>
       if uarg = 0 then kreturn (Some got)
       else kbind (fetchstr uarg) (\<lambda>r. case r of
         None \<Rightarrow> kreturn None
       | Some str \<Rightarrow> fetch_argv (a + 4) n (got @ [str])))"

definition sys_exec :: "('a ftable_scheme, u32) kmon" where
  "sys_exec = need (argstr 0) (\<lambda>path. need (argint 1) (\<lambda>uargv.
     need (fetch_argv uargv MAXARG []) (\<lambda>argv.
     kbind (exec path argv) (\<lambda>r. kreturn (of_int r)))))"

definition sys_pipe :: "('a ftable_scheme, u32) kmon" where
  "sys_pipe = need (argptr 0 8) (\<lambda>fd. need pipealloc (\<lambda>(rf, wf).
     kbind (fdalloc rf) (\<lambda>fd0.
     kbind (case fd0 of None \<Rightarrow> kreturn None | Some _ \<Rightarrow> fdalloc wf) (\<lambda>fd1.
     case (fd0, fd1) of
       (Some r, Some w) \<Rightarrow>
         kseq (kwrite32 fd (of_nat r))
         (kseq (kwrite32 (fd + 4) (of_nat w))
         (kreturn 0))
     | _ \<Rightarrow>
         kseq (case fd0 of None \<Rightarrow> kreturn () | Some r \<Rightarrow> clear_fd r)
         (kseq (fileclose rf)
         (kseq (fileclose wf)
         (kreturn (-1))))))))"

end
