(* ===== verification/Kbd.thy ===== *)
theory Kbd
  imports Prelude
begin

text \<open>
  The keyboard (\<^verbatim>\<open>kbd.h\<close>, \<^verbatim>\<open>kbd.c\<close>): from the scan codes of the controller to characters, with the
  state of the shift, control and lock keys.
\<close>

section \<open>Tables\<close>

abbreviation (input) SHIFT :: u32 where "SHIFT \<equiv> 1"
abbreviation (input) CTL :: u32 where "CTL \<equiv> 2"
abbreviation (input) ALT :: u32 where "ALT \<equiv> 4"
abbreviation (input) CAPSLOCK :: u32 where "CAPSLOCK \<equiv> 8"
abbreviation (input) NUMLOCK :: u32 where "NUMLOCK \<equiv> 16"
abbreviation (input) SCROLLLOCK :: u32 where "SCROLLLOCK \<equiv> 32"
abbreviation (input) E0ESC :: u32 where "E0ESC \<equiv> 64"

text \<open>Entries that the source does not list are 0.\<close>

definition shiftcode :: "u8 \<Rightarrow> u32" where
  "shiftcode d = (if d = 0x1D then CTL else if d = 0x2A then SHIFT else if d = 0x36 then SHIFT
     else if d = 0x38 then ALT else if d = 0x9D then CTL else if d = 0xB8 then ALT else 0)"

definition togglecode :: "u8 \<Rightarrow> u32" where
  "togglecode d = (if d = 0x3A then CAPSLOCK else if d = 0x45 then NUMLOCK else if d = 0x46 then SCROLLLOCK else 0)"

text \<open>
  The keys after an escape code have the same special characters in all maps, but for
  \<open>enter\<close> and \<open>/\<close> of the number pad.
\<close>

definition special :: "u8 \<Rightarrow> u8 \<Rightarrow> u8 \<Rightarrow> u8" where
  "special enter slash d =
     (if d = 0x9C then enter else if d = 0xB5 then slash
      else if d = 0xC8 then 0xE2 else if d = 0xD0 then 0xE3
      else if d = 0xC9 then 0xE6 else if d = 0xD1 then 0xE7
      else if d = 0xCB then 0xE4 else if d = 0xCD then 0xE5
      else if d = 0x97 then 0xE0 else if d = 0xCF then 0xE1
      else if d = 0xD2 then 0xE8 else if d = 0xD3 then 0xE9 else 0)"

definition key :: "u8 list \<Rightarrow> u8 \<Rightarrow> u8 \<Rightarrow> u8 \<Rightarrow> u8" where
  "key codes enter slash d = (if unat d < length codes then codes ! unat d else special enter slash d)"

definition normalmap :: "u8 \<Rightarrow> u8" where
  "normalmap = key
    [0, 27, 49, 50, 51, 52, 53, 54, 55, 56, 57, 48, 45, 61, 8, 9,
     113, 119, 101, 114, 116, 121, 117, 105, 111, 112, 91, 93, 10, 0, 97, 115,
     100, 102, 103, 104, 106, 107, 108, 59, 39, 96, 0, 92, 122, 120, 99, 118,
     98, 110, 109, 44, 46, 47, 0, 42, 0, 32, 0, 0, 0, 0, 0, 0,
     0, 0, 0, 0, 0, 0, 0, 55, 56, 57, 45, 52, 53, 54, 43, 49,
     50, 51, 48, 46, 0, 0, 0, 0]
    10 47"

definition shiftmap :: "u8 \<Rightarrow> u8" where
  "shiftmap = key
    [0, 27, 33, 64, 35, 36, 37, 94, 38, 42, 40, 41, 95, 43, 8, 9,
     81, 87, 69, 82, 84, 89, 85, 73, 79, 80, 123, 125, 10, 0, 65, 83,
     68, 70, 71, 72, 74, 75, 76, 58, 34, 126, 0, 124, 90, 88, 67, 86,
     66, 78, 77, 60, 62, 63, 0, 42, 0, 32, 0, 0, 0, 0, 0, 0,
     0, 0, 0, 0, 0, 0, 0, 55, 56, 57, 45, 52, 53, 54, 43, 49,
     50, 51, 48, 46, 0, 0, 0, 0]
    10 47"

definition ctlmap :: "u8 \<Rightarrow> u8" where
  "ctlmap = key
    [0, 0, 0, 0, 0, 0, 0, 0, 0, 0, 0, 0, 0, 0, 0, 0,
     17, 23, 5, 18, 20, 25, 21, 9, 15, 16, 0, 0, 13, 0, 1, 19,
     4, 6, 7, 8, 10, 11, 12, 0, 0, 0, 0, 28, 26, 24, 3, 22,
     2, 14, 13, 0, 0, 239, 0, 0]
    13 239"

section \<open>Decoding\<close>

text \<open>
  \<open>kbdgetc\<close> with a byte in the controller's buffer: the new \<open>shift\<close> and the character.
  \<open>charcode[shift & (CTL | SHIFT)]\<close> has the entries \<open>normalmap, shiftmap, ctlmap, ctlmap\<close>.
\<close>

definition charcode :: "u32 \<Rightarrow> u8 \<Rightarrow> u8" where
  "charcode k = (if k = 0 then normalmap else if k = 1 then shiftmap else ctlmap)"

definition capslock :: "u8 \<Rightarrow> u8" where
  "capslock c = (if 97 \<le> c \<and> c \<le> 122 then c - 32 else if 65 \<le> c \<and> c \<le> 90 then c + 32 else c)"

definition kbd_press :: "u32 \<Rightarrow> u8 \<Rightarrow> u32 \<times> u8" where
  "kbd_press shift data =
     (let shift = (shift OR shiftcode data) XOR togglecode data;
          c = charcode (shift AND (CTL OR SHIFT)) data in
      (shift, if shift AND CAPSLOCK \<noteq> 0 then capslock c else c))"

definition kbd_byte :: "u32 \<Rightarrow> u8 \<Rightarrow> u32 \<times> u8" where
  "kbd_byte shift data =
     (if data = 0xE0 then (shift OR E0ESC, 0)
      else if data AND 0x80 \<noteq> 0 then
        (let data = (if shift AND E0ESC \<noteq> 0 then data else data AND 0x7F) in
         (shift AND NOT (shiftcode data OR E0ESC), 0))
      else if shift AND E0ESC \<noteq> 0 then kbd_press (shift AND NOT E0ESC) (data OR 0x80)
      else kbd_press shift data)"

text \<open>
  What the calls of \<open>kbdgetc\<close> return for the bytes in the controller's buffer, before one
  finds the buffer empty and returns -1.
\<close>

fun kbd_chars :: "u32 \<Rightarrow> u8 list \<Rightarrow> u32 \<times> int list" where
  "kbd_chars shift [] = (shift, [])"
| "kbd_chars shift (d # ds) =
     (let (shift', c) = kbd_byte shift d; (shift'', cs) = kbd_chars shift' ds in (shift'', uint c # cs))"

end
