(* ===== verification/Trap.thy ===== *)
theory Trap
  imports Sysfile Kbd
begin

text \<open>
  Traps: the system call table (\<^verbatim>\<open>syscall.c\<close>), the trap handler (the first half of \<^verbatim>\<open>trap.c\<close>), and the
  way in and out of the kernel (\<^verbatim>\<open>trapasm.S\<close>).
\<close>

section \<open>State\<close>

text \<open>
  The interrupt descriptors, the fault address register, the number of interrupts
  acknowledged at the local APIC, and what waits in the keyboard controller and in the
  serial port.
\<close>

record kernel = ftable +
  idt :: "gatedesc list"
  cr2 :: u32
  eois :: nat
  kbd_in :: "u8 list"
  kbd_shift :: u32
  uart_in :: "u8 list"

abbreviation (input) T_SYSCALL :: u32 where "T_SYSCALL \<equiv> 64"
abbreviation (input) T_IRQ0 :: u32 where "T_IRQ0 \<equiv> 32"
abbreviation (input) IRQ_TIMER :: u32 where "IRQ_TIMER \<equiv> 0"
abbreviation (input) IRQ_KBD :: u32 where "IRQ_KBD \<equiv> 1"
abbreviation (input) IRQ_COM1 :: u32 where "IRQ_COM1 \<equiv> 4"
abbreviation (input) IRQ_IDE :: u32 where "IRQ_IDE \<equiv> 14"
abbreviation (input) IRQ_SPURIOUS :: u32 where "IRQ_SPURIOUS \<equiv> 31"

text \<open>\<open>vectors\<close> are the entry points of \<^verbatim>\<open>vectors.S\<close>, which a script generates.\<close>

definition tvinit :: "(nat \<Rightarrow> u32) \<Rightarrow> ('a kernel_scheme, unit) kmon" where
  "tvinit vectors =
     kseq (kmod (\<lambda>s. s\<lparr>idt := map (\<lambda>i. SETGATE False (of_nat (SEG_KCODE * 8)) (vectors i) 0) [0..<256]\<rparr>))
     (kseq (kmod (\<lambda>s. s\<lparr>idt := (idt s)[unat T_SYSCALL := SETGATE True (of_nat (SEG_KCODE * 8)) (vectors (unat T_SYSCALL)) DPL_USER]\<rparr>))
     (initlock TICKS_LOCK ''time''))"

section \<open>System calls\<close>

definition syscalls :: "u32 \<Rightarrow> ('a ftable_scheme, u32) kmon option" where
  "syscalls num =
     (if num = 1 then Some sys_fork
      else if num = 2 then Some sys_exit
      else if num = 3 then Some sys_wait
      else if num = 4 then Some sys_pipe
      else if num = 5 then Some sys_read
      else if num = 6 then Some sys_kill
      else if num = 7 then Some sys_exec
      else if num = 8 then Some sys_fstat
      else if num = 9 then Some sys_chdir
      else if num = 10 then Some sys_dup
      else if num = 11 then Some sys_getpid
      else if num = 12 then Some sys_sbrk
      else if num = 13 then Some sys_sleep
      else if num = 14 then Some sys_uptime
      else if num = 15 then Some sys_open
      else if num = 16 then Some sys_write
      else if num = 17 then Some sys_mknod
      else if num = 18 then Some sys_unlink
      else if num = 19 then Some sys_link
      else if num = 20 then Some sys_mkdir
      else if num = 21 then Some sys_close
      else if num = 22 then Some sys_sigprocmask
      else if num = 23 then Some sys_signal
      else if num = 24 then Some sys_sigret
      else None)"

definition set_eax :: "nat \<Rightarrow> u32 \<Rightarrow> ('a ptable_scheme, unit) kmon" where
  "set_eax i r = kmod (pupd i (\<lambda>p. p\<lparr>tf := (tf p)\<lparr>tf_eax := r\<rparr>\<rparr>))"

definition syscall :: "('a ftable_scheme, unit) kmon" where
  "syscall = with_proc (\<lambda>i.
     kbind (pget i (\<lambda>p. tf_eax (tf p))) (\<lambda>num.
     case syscalls num of
       Some call \<Rightarrow> kbind call (set_eax i)
     | None \<Rightarrow>
         kbind (pget i id) (\<lambda>p.
         kseq (cprintf ''%d %s: unknown sys call %d\<newline>'' [Word (pid p), Str (Some (cstring (pname p))), Word num])
         (set_eax i (-1)))))"

section \<open>Interrupts\<close>

definition lapiceoi :: "('a kernel_scheme, unit) kmon" where
  "lapiceoi = kmod (\<lambda>s. s\<lparr>eois := eois s + 1\<rparr>)"

definition kbdintr :: "('a kernel_scheme, unit) kmon" where
  "kbdintr = kbind (kget (\<lambda>s. kbd_chars (kbd_shift s) (kbd_in s))) (\<lambda>(shift, cs).
     kseq (kmod (\<lambda>s. s\<lparr>kbd_in := [], kbd_shift := shift\<rparr>))
     (consoleintr cs))"

definition uartintr :: "('a kernel_scheme, unit) kmon" where
  "uartintr = kbind (kget uart_in) (\<lambda>cs.
     kseq (kmod (\<lambda>s. s\<lparr>uart_in := []\<rparr>))
     (consoleintr (map uint cs)))"

definition timer_tick :: "('a kernel_scheme, unit) kmon" where
  "timer_tick = kbind cpuid (\<lambda>c.
     kwhen (c = 0)
       (kseq (acquire TICKS_LOCK)
       (kseq (kmod (\<lambda>s. s\<lparr>ticks := ticks s + 1\<rparr>))
       (kseq (wakeup (Some TicksChan))
       (release TICKS_LOCK)))))"

text \<open>
  The \<open>default\<close> case: a fault in the kernel is a bug of the kernel, one in a program kills it.
\<close>

definition bad_trap :: "trapframe \<Rightarrow> ('a kernel_scheme, unit) kmon" where
  "bad_trap t = kbind myproc (\<lambda>cur.
     if cur = None \<or> tf_cs t AND 3 = 0 then
       kbind cpuid (\<lambda>c. kbind (kget cr2) (\<lambda>addr.
       kseq (cprintf ''unexpected trap %d from cpu %d eip %x (cr2=0x%x)\<newline>''
               [Word (tf_trapno t), Word (of_nat c), Word (tf_eip t), Word addr])
       (kpanic ''trap'')))
     else kderef cur (\<lambda>i.
       kbind (pget i id) (\<lambda>p.
       kseq (cprintf ''NOW EIP IS: %d\<newline>'' [Word (tf_eip (tf p))])
       (kbind cpuid (\<lambda>c. kbind (kget cr2) (\<lambda>addr.
        kseq (cprintf ''pid %d %s: trap %d err %d on cpu %d eip 0x%x addr 0x%x--kill proc\<newline>''
               [Word (pid p), Str (Some (cstring (pname p))), Word (tf_trapno t), Word (tf_err t), Word (of_nat c),
                Word (tf_eip t), Word addr])
        (kmod (pupd i (\<lambda>p. p\<lparr>killed := True\<rparr>)))))))))"

text \<open>\<open>if(myproc() && myproc()->killed && ...) exit();\<close>\<close>

definition exit_if_killed :: "bool \<Rightarrow> ('a ftable_scheme, unit) kmon" where
  "exit_if_killed user = kbind myproc (\<lambda>cur. case cur of
     None \<Rightarrow> kreturn ()
   | Some i \<Rightarrow> kbind (pget i killed) (\<lambda>dead. kwhen (dead \<and> user) exit))"

definition trap_syscall :: "trapframe \<Rightarrow> ('a kernel_scheme, unit) kmon" where
  "trap_syscall t =
     kseq (with_proc (\<lambda>i. kbind (pget i killed) (\<lambda>dead. kwhen dead exit)))
     (kseq (with_proc (\<lambda>i. kmod (pupd i (\<lambda>p. p\<lparr>tf := t\<rparr>))))
     (kseq syscall
     (with_proc (\<lambda>i. kbind (pget i killed) (\<lambda>dead. kwhen dead exit)))))"

definition trap :: "trapframe \<Rightarrow> ('a kernel_scheme, unit) kmon" where
  "trap t =
     (if tf_trapno t = T_SYSCALL then trap_syscall t
      else
        kseq
          (if tf_trapno t = T_IRQ0 + IRQ_TIMER then kseq timer_tick lapiceoi
           else if tf_trapno t = T_IRQ0 + IRQ_IDE then lapiceoi
           else if tf_trapno t = T_IRQ0 + IRQ_IDE + 1 then kreturn ()
           else if tf_trapno t = T_IRQ0 + IRQ_KBD then kseq kbdintr lapiceoi
           else if tf_trapno t = T_IRQ0 + IRQ_COM1 then kseq uartintr lapiceoi
           else if tf_trapno t = T_IRQ0 + 7 \<or> tf_trapno t = T_IRQ0 + IRQ_SPURIOUS then
             kbind cpuid (\<lambda>c.
             kseq (cprintf ''cpu%d: spurious interrupt at %x:%x\<newline>'' [Word (of_nat c), Word (ucast (tf_cs t)), Word (tf_eip t)])
             lapiceoi)
           else bad_trap t)
        (kseq (exit_if_killed (tf_cs t AND 3 = 3))
        (kseq (kbind myproc (\<lambda>cur. case cur of
           None \<Rightarrow> kreturn ()
         | Some i \<Rightarrow> kbind (pget i pstate) (\<lambda>st.
             kwhen (st = RUNNING \<and> tf_trapno t = T_IRQ0 + IRQ_TIMER) yield)))
        (exit_if_killed (tf_cs t AND 3 = 3)))))"

text \<open>
  \<open>alltraps\<close> and \<open>trapret\<close>: the registers of a process that traps from user mode are saved at
  the top of its kernel stack, which is where \<open>tf\<close> points; on the way out the pending
  signals are delivered.
\<close>

definition alltraps :: "trapframe \<Rightarrow> ('a kernel_scheme, unit) kmon" where
  "alltraps t =
     kseq (kwhen (tf_cs t AND 3 = 3)
       (kbind myproc (\<lambda>cur. kderef cur (\<lambda>i. kmod (pupd i (\<lambda>p. p\<lparr>tf := t\<rparr>))))))
     (kseq (trap t)
     check_kernel_sigs)"

section \<open>Starting a processor\<close>

text \<open>\<open>mpmain\<close> of \<^verbatim>\<open>main.c\<close>; loading the descriptor table register changes nothing that is modelled.\<close>

definition mpmain :: "('a kernel_scheme, unit) kmon" where
  "mpmain = kbind cpuid (\<lambda>c.
     kseq (cprintf ''cpu%d: starting %d\<newline>'' [Word (of_nat c), Word (of_nat c)])
     (kbind mycpu (\<lambda>c.
      kseq (kmod (cpu_upd c (\<lambda>x. x\<lparr>started := True\<rparr>)))
      scheduler)))"

section \<open>Returning from a handler\<close>

text \<open>
  C21. The system call \<open>sigret\<close>, which a handler of the program returns into, restores the
  trap frame that was saved when the handler was started, and the signal mask, except for one
  register: \<open>syscall\<close> stores the result of \<open>sys_sigret\<close>, which is 1, over the restored \<open>eax\<close>. A program
  that was interrupted by a handled signal goes on with 1 in \<open>eax\<close>.
\<close>

theorem sigret_restores_all_but_eax:
  assumes rest: "at_rest c i s" and i: "i < length (procs s)"
    and num: "tf_eax (tf (procs s ! i)) = 24"
    and saved: "kread_bytes (trap_backup (procs s ! i)) 76 e s = Ret (tf_bytes t) e s"
  shows "syscall e s = Ret () e (pupd i (\<lambda>p. p\<lparr>mask := mask_backup p, tf := t\<lparr>tf_eax := 1\<rparr>\<rparr>) s)"
proof -
  have me: "myproc e s = Ret (Some i) e s" using at_restD(1,3) [OF rest] by (simp add: myproc_run)
  have "sigret e s = Ret () e (pupd i (\<lambda>p. p\<lparr>tf := t, mask := mask_backup p\<rparr>) s)"
    using saved i by (simp add: sigret_def me pupd_def tf_of_tf_bytes)
  then show ?thesis
    using i by (simp add: syscall_def with_proc_run [OF rest] num option_run syscalls_def sys_sigret_def set_eax_def pupd_def)
qed

text \<open>A kernel with one running process, in slot 0.\<close>

definition small_kernel :: kernel where
  "small_kernel = ftable.extend (pipes.extend (boot_pipe (half_pipe 0 0))
       \<lparr>files = replicate 100 \<lparr>ftype = FD_NONE, fref = 0, readable = False, writable = False, fpipe = 0, fip = 0, foff = 0\<rparr>\<rparr>)
     \<lparr>idt = [], cr2 = 0, eois = 0, kbd_in = [], kbd_shift = 0, uart_in = []\<rparr>
     \<lparr>cpus := replicate 8 one_cpu, input_buf := replicate 128 0, devsw := replicate 10 None,
      inodes := replicate 50 \<lparr>idev = 0, inum = 0, iref = 0, ivalid = False, itype = 0, major = 0, minor = 0,
        nlink = 0, isize = 0, addrs = replicate 13 0\<rparr>\<rparr>"

lemma small_kernel_at_rest: "at_rest 0 0 (small_kernel\<lparr>procs := ps, ram := m\<rparr>)"
  by (simp add: at_rest_def small_kernel_def pipes.defs ftable.defs boot_pipe_def console.defs icache.defs log.defs
      boot_log_def bcache.defs boot_def ptable.defs sltable.defs two_procs_simps cpu_ok_def cpu_if_def lk_free_def)

lemma kread_zeros:
  assumes "\<And>k. k < n \<Longrightarrow> KERNBASE \<le> va + of_nat k" "ram s = (\<lambda>_. 0)"
  shows "kread_bytes va n e s = Ret (replicate n 0) e s"
  using assms(1)
proof (induction n arbitrary: va)
  case (Suc n)
  have "KERNBASE \<le> va" using Suc.prems [of 0] by simp
  moreover have "KERNBASE \<le> va + 1 + of_nat k" if "k < n" for k using Suc.prems [of "Suc k"] that by (simp add: add.assoc)
  ultimately show ?case using Suc.IH [of "va + 1"] assms(2) by (simp add: kread8_run kxlate_def)
qed simp

theorem sigret_restores_all_but_eax_witness:
  "\<exists>t. syscall [] (small_kernel\<lparr>procs := [unused_proc\<lparr>trap_backup := 0x80200000, mask_backup := 7,
          tf := zero_tf\<lparr>tf_eax := 24\<rparr>\<rparr>], ram := (\<lambda>_. 0)\<rparr>) = Ret () [] t
    \<and> tf (procs t ! 0) = zero_tf\<lparr>tf_eax := 1\<rparr> \<and> mask (procs t ! 0) = 7"
proof -
  let ?p = "unused_proc\<lparr>trap_backup := 0x80200000, mask_backup := 7, tf := zero_tf\<lparr>tf_eax := 24\<rparr>\<rparr>"
  let ?s = "small_kernel\<lparr>procs := [?p], ram := (\<lambda>_. 0)\<rparr>"
  have "kread_bytes 0x80200000 76 [] ?s = Ret (replicate 76 0) [] ?s"
  proof (rule kread_zeros)
    fix k :: nat assume "k < 76"
    then show "KERNBASE \<le> 0x80200000 + (of_nat k :: u32)" by (simp add: word_le_nat_alt unat_plus_if' unat_of_nat)
  qed simp
  moreover have "tf_bytes zero_tf = replicate 76 0" by code_simp
  ultimately show ?thesis
    using sigret_restores_all_but_eax [OF small_kernel_at_rest [where ps = "[?p]" and m = "\<lambda>_. 0"], of "[]" zero_tf] by (simp add: pupd_def)
qed

end
