(* ===== verification/Types.thy ===== *)
theory Types
  imports Trap
begin

text \<open>
  The process table and the processors are well formed, and every operation of the kernel, from
  the spin locks to the trap handler, keeps them so: arrays have the length the source declares,
  and the pointers from processors, processes and \<open>initproc\<close> into the process table stay inside
  it.
\<close>

section \<open>What is kept\<close>

text \<open>
  \<open>keeps I m Q\<close>: started where \<open>I\<close> holds, and with other processes that keep \<open>I\<close>, \<open>m\<close> ends where
  \<open>I\<close> holds, in whichever way it ends, and a value that it returns satisfies \<open>Q\<close>.
\<close>

definition env_keeps :: "('s \<Rightarrow> bool) \<Rightarrow> 's schedule \<Rightarrow> bool" where
  "env_keeps I e \<longleftrightarrow> (\<forall>f\<in>set e. \<forall>s. I s \<longrightarrow> I (f s))"

fun ends_in :: "('s \<Rightarrow> bool) \<Rightarrow> ('a \<Rightarrow> bool) \<Rightarrow> ('a, 's) outcome \<Rightarrow> bool" where
  "ends_in I Q (Ret a e s) \<longleftrightarrow> I s \<and> env_keeps I e \<and> Q a"
| "ends_in I Q (Panic msg s) \<longleftrightarrow> I s"
| "ends_in I Q (Asleep s) \<longleftrightarrow> I s"
| "ends_in I Q (Spin s) \<longleftrightarrow> I s"

definition keeps :: "('s \<Rightarrow> bool) \<Rightarrow> ('s, 'a) kmon \<Rightarrow> ('a \<Rightarrow> bool) \<Rightarrow> bool" where
  "keeps I m Q \<longleftrightarrow> (\<forall>e s. I s \<longrightarrow> env_keeps I e \<longrightarrow> ends_in I Q (m e s))"

lemma keepsD: "keeps I m Q \<Longrightarrow> I s \<Longrightarrow> env_keeps I e \<Longrightarrow> ends_in I Q (m e s)"
  by (simp add: keeps_def)

lemma keepsI: "(\<And>e s. I s \<Longrightarrow> env_keeps I e \<Longrightarrow> ends_in I Q (m e s)) \<Longrightarrow> keeps I m Q"
  by (simp add: keeps_def)

text \<open>
  The type invariant: the arrays of \<^verbatim>\<open>proc.c\<close>, \<^verbatim>\<open>bio.c\<close>, \<^verbatim>\<open>fs.c\<close>, \<^verbatim>\<open>file.c\<close>, \<^verbatim>\<open>console.c\<close> and
  \<^verbatim>\<open>pipe.c\<close> have their declared lengths (the buffers are one more, for the list head),
  and the pointers into the process table are inside it.
\<close>

abbreviation (input) NCPU :: nat where "NCPU \<equiv> 8"

abbreviation (input) in_table :: "nat option \<Rightarrow> bool" where
  "in_table p \<equiv> pred_option (\<lambda>i. i < NPROC) p"

definition proc_ok :: "proc \<Rightarrow> bool" where
  "proc_ok p \<longleftrightarrow> length (ofile p) = NOFILE \<and> length (handlers p) = 32 \<and> length (pname p) = 16 \<and> in_table (parent p)"

definition kernel_ok :: "'a kernel_scheme \<Rightarrow> bool" where
  "kernel_ok s \<longleftrightarrow>
     length (procs s) = NPROC \<and> list_all proc_ok (procs s)
   \<and> ncpu s \<le> NCPU \<and> length (cpus s) = NCPU \<and> list_all (\<lambda>x. in_table (cproc x)) (cpus s) \<and> in_table (initproc s)
   \<and> length (bufs s) = NBUF + 1 \<and> length (inodes s) = NINODE \<and> length (files s) = NFILE
   \<and> length (input_buf s) = INPUT_BUF \<and> length (devsw s) = nat NDEV \<and> (\<forall>p. length (pipe_data (pipes s p)) = PIPESIZE)"

abbreviation (input) kept :: "('a kernel_scheme, 'b) kmon \<Rightarrow> bool" where
  "kept m \<equiv> keeps kernel_ok m (\<lambda>_. True)"

subsection \<open>Rules\<close>

lemma keeps_return: "Q a \<Longrightarrow> keeps I (kreturn a) Q"
  by (simp add: keeps_def)

lemma keeps_bind:
  assumes "keeps I m P" "\<And>a. P a \<Longrightarrow> keeps I (f a) Q"
  shows "keeps I (kbind m f) Q"
proof (rule keepsI)
  fix e s assume "I s" "env_keeps I e"
  then have m: "ends_in I P (m e s)" using assms(1) by (simp add: keeps_def)
  then show "ends_in I Q (kbind m f e s)" using assms(2) by (cases "m e s") (auto simp: keeps_def)
qed

lemma keeps_get_bind: "(\<And>s. I s \<Longrightarrow> keeps I (f (g s)) Q) \<Longrightarrow> keeps I (kbind (kget g) f) Q"
  by (simp add: keeps_def)

lemma keeps_weaken: "keeps I m P \<Longrightarrow> (\<And>a. P a \<Longrightarrow> Q a) \<Longrightarrow> keeps I m Q"
proof (rule keepsI)
  fix e s assume "keeps I m P" "\<And>a. P a \<Longrightarrow> Q a" "I s" "env_keeps I e"
  then show "ends_in I Q (m e s)" using keepsD [of I m P s e] by (cases "m e s") auto
qed

lemma kept_return [intro!]: "keeps I (kreturn a) (\<lambda>_. True)"
  by (simp add: keeps_return)

lemma kept_panic [intro!]: "keeps I (kpanic msg) Q"
  by (simp add: keeps_def)

lemma kept_spin [intro!]: "keeps I kspin Q"
  by (simp add: keeps_def)

lemma kept_get [intro!]: "keeps I (kget f) (\<lambda>_. True)"
  by (simp add: keeps_def)

lemma kept_mod [intro!]: "(\<And>s. I s \<Longrightarrow> I (f s)) \<Longrightarrow> keeps I (kmod f) (\<lambda>_. True)"
  by (simp add: keeps_def)

lemma kept_switch [intro!]: "keeps I kswitch (\<lambda>_. True)"
  by (auto simp: keeps_def kswitch_def env_keeps_def split: list.splits)

lemma kept_bind [intro!]:
  "keeps I m (\<lambda>_. True) \<Longrightarrow> (\<And>a. keeps I (f a) Q) \<Longrightarrow> keeps I (kbind m f) Q"
  by (rule keeps_bind)

lemma kept_seq [intro!]: "keeps I m (\<lambda>_. True) \<Longrightarrow> keeps I n Q \<Longrightarrow> keeps I (kseq m n) Q"
  unfolding kseq_def by (rule keeps_bind)

lemma kept_when [intro!]: "keeps I m (\<lambda>_. True) \<Longrightarrow> keeps I (kwhen b m) (\<lambda>_. True)"
  by (simp add: kwhen_def keeps_return)

lemma kept_deref [intro!]: "(\<And>x. p = Some x \<Longrightarrow> keeps I (f x) Q) \<Longrightarrow> keeps I (kderef p f) Q"
  by (cases p) (simp_all add: kderef_def kept_panic)

lemma kept_for_in: "(\<And>x. x \<in> set xs \<Longrightarrow> keeps I (f x) (\<lambda>_. True)) \<Longrightarrow> keeps I (kfor xs f) (\<lambda>_. True)"
  by (induction xs) (auto intro: kept_return kept_seq)

lemma kept_for [intro!]: "(\<And>x. keeps I (f x) (\<lambda>_. True)) \<Longrightarrow> keeps I (kfor xs f) (\<lambda>_. True)"
  by (rule kept_for_in)

lemma kept_loop_n: "keeps I m (\<lambda>_. True) \<Longrightarrow> keeps I (kloop_n n m) (\<lambda>_. True)"
proof (induction n)
  case (Suc n)
  then show ?case by (auto simp del: kbind_run intro!: kept_bind kept_return split: option.splits)
qed (simp add: kept_spin)

lemma kept_loop [intro!]: "keeps I m (\<lambda>_. True) \<Longrightarrow> keeps I (kloop m) (\<lambda>_. True)"
  using kept_loop_n [of I m] unfolding kloop_def keeps_def by blast

lemma kept_iter [intro!]: "(\<And>x. keeps I (f x) (\<lambda>_. True)) \<Longrightarrow> keeps I (kiter n f x) (\<lambda>_. True)"
proof (induction n arbitrary: x)
  case (Suc n)
  then show ?case by (auto simp del: kbind_run intro!: kept_bind kept_return split: sum.splits)
qed (simp add: kept_spin)

text \<open>From here on functions are not run but taken apart.\<close>

declare kbind_run [simp del] kseq_run [simp del] kreturn_run [simp del] kpanic_run [simp del] kget_run [simp del]
  kmod_run [simp del] kspin_run [simp del] kswitch_run [simp del] kwhen_run [simp del] kderef_run [simp del]

declare option.splits [split] prod.splits [split] sum.splits [split] list.splits [split] device.splits [split] file_type.splits [split] Let_def [simp]

text \<open>State changes.\<close>

lemma proc_ok_frame [simp]:
  "proc_ok (p\<lparr>sz := x_sz\<rparr>) = proc_ok p"
  "proc_ok (p\<lparr>pgdir := x_pgdir\<rparr>) = proc_ok p"
  "proc_ok (p\<lparr>kstack := x_kstack\<rparr>) = proc_ok p"
  "proc_ok (p\<lparr>pstate := x_pstate\<rparr>) = proc_ok p"
  "proc_ok (p\<lparr>pid := x_pid\<rparr>) = proc_ok p"
  "proc_ok (p\<lparr>tf := x_tf\<rparr>) = proc_ok p"
  "proc_ok (p\<lparr>kcontext := x_kcontext\<rparr>) = proc_ok p"
  "proc_ok (p\<lparr>chan := x_chan\<rparr>) = proc_ok p"
  "proc_ok (p\<lparr>killed := x_killed\<rparr>) = proc_ok p"
  "proc_ok (p\<lparr>cwd := x_cwd\<rparr>) = proc_ok p"
  "proc_ok (p\<lparr>pending := x_pending\<rparr>) = proc_ok p"
  "proc_ok (p\<lparr>mask := x_mask\<rparr>) = proc_ok p"
  "proc_ok (p\<lparr>mask_backup := x_mask_backup\<rparr>) = proc_ok p"
  "proc_ok (p\<lparr>trap_backup := x_trap_backup\<rparr>) = proc_ok p"
  by (simp_all add: proc_ok_def)

lemma ok_pupd [simp]: "kernel_ok s \<Longrightarrow> (\<And>p. proc_ok p \<Longrightarrow> proc_ok (f p)) \<Longrightarrow> kernel_ok (pupd i f s)"
  by (cases "i < length (procs s)") (auto simp: kernel_ok_def pupd_def list_all_length nth_list_update)

lemma ok_cpu_upd [simp]:
  "kernel_ok s \<Longrightarrow> (\<And>x. in_table (cproc x) \<Longrightarrow> in_table (cproc (f x))) \<Longrightarrow> kernel_ok (cpu_upd c f s)"
  by (cases "c < length (cpus s)") (auto simp: kernel_ok_def cpu_upd_def list_all_length nth_list_update)

lemma ok_tables [simp]:
  "kernel_ok (bupd i g s) = kernel_ok s"
  "kernel_ok (iupd i h s) = kernel_ok s"
  "kernel_ok (fupd i k s) = kernel_ok s"
  "kernel_ok (sl_upd l q s) = kernel_ok s"
  by (simp_all add: kernel_ok_def bupd_def iupd_def fupd_def sl_upd_def)

lemma ok_pipe_upd [simp]:
  "kernel_ok s \<Longrightarrow> (\<And>x. length (pipe_data x) = PIPESIZE \<Longrightarrow> length (pipe_data (f x)) = PIPESIZE) \<Longrightarrow> kernel_ok (pipe_upd p f s)"
  by (simp add: kernel_ok_def pipe_upd_def)

lemma ok_frame [simp]:
  "kernel_ok (s\<lparr>lapic_id := x_lapic_id\<rparr>) = kernel_ok s"
  "kernel_ok (s\<lparr>intr_on := x_intr_on\<rparr>) = kernel_ok s"
  "kernel_ok (s\<lparr>uart_out := x_uart_out\<rparr>) = kernel_ok s"
  "kernel_ok (s\<lparr>cga_pos := x_cga_pos\<rparr>) = kernel_ok s"
  "kernel_ok (s\<lparr>crt := x_crt\<rparr>) = kernel_ok s"
  "kernel_ok (s\<lparr>cons_locking := x_cons_locking\<rparr>) = kernel_ok s"
  "kernel_ok (s\<lparr>panicked := x_panicked\<rparr>) = kernel_ok s"
  "kernel_ok (s\<lparr>locks := x_locks\<rparr>) = kernel_ok s"
  "kernel_ok (s\<lparr>ram := x_ram\<rparr>) = kernel_ok s"
  "kernel_ok (s\<lparr>kernel_end := x_kernel_end\<rparr>) = kernel_ok s"
  "kernel_ok (s\<lparr>use_lock := x_use_lock\<rparr>) = kernel_ok s"
  "kernel_ok (s\<lparr>freelist := x_freelist\<rparr>) = kernel_ok s"
  "kernel_ok (s\<lparr>cr3 := x_cr3\<rparr>) = kernel_ok s"
  "kernel_ok (s\<lparr>task_reg := x_task_reg\<rparr>) = kernel_ok s"
  "kernel_ok (s\<lparr>kpgdir := x_kpgdir\<rparr>) = kernel_ok s"
  "kernel_ok (s\<lparr>kernel_data := x_kernel_data\<rparr>) = kernel_ok s"
  "kernel_ok (s\<lparr>ts_addr := x_ts_addr\<rparr>) = kernel_ok s"
  "kernel_ok (s\<lparr>nextpid := x_nextpid\<rparr>) = kernel_ok s"
  "kernel_ok (s\<lparr>trapret_addr := x_trapret_addr\<rparr>) = kernel_ok s"
  "kernel_ok (s\<lparr>forkret_addr := x_forkret_addr\<rparr>) = kernel_ok s"
  "kernel_ok (s\<lparr>forkret_first := x_forkret_first\<rparr>) = kernel_ok s"
  "kernel_ok (s\<lparr>ticks := x_ticks\<rparr>) = kernel_ok s"
  "kernel_ok (s\<lparr>slocks := x_slocks\<rparr>) = kernel_ok s"
  "kernel_ok (s\<lparr>memdisk := x_memdisk\<rparr>) = kernel_ok s"
  "kernel_ok (s\<lparr>disksize := x_disksize\<rparr>) = kernel_ok s"
  "kernel_ok (s\<lparr>disk_writes := x_disk_writes\<rparr>) = kernel_ok s"
  "kernel_ok (s\<lparr>log_start := x_log_start\<rparr>) = kernel_ok s"
  "kernel_ok (s\<lparr>log_size := x_log_size\<rparr>) = kernel_ok s"
  "kernel_ok (s\<lparr>outstanding := x_outstanding\<rparr>) = kernel_ok s"
  "kernel_ok (s\<lparr>committing := x_committing\<rparr>) = kernel_ok s"
  "kernel_ok (s\<lparr>log_dev := x_log_dev\<rparr>) = kernel_ok s"
  "kernel_ok (s\<lparr>lh_n := x_lh_n\<rparr>) = kernel_ok s"
  "kernel_ok (s\<lparr>lh_block := x_lh_block\<rparr>) = kernel_ok s"
  "kernel_ok (s\<lparr>sb := x_sb\<rparr>) = kernel_ok s"
  "kernel_ok (s\<lparr>input_r := x_input_r\<rparr>) = kernel_ok s"
  "kernel_ok (s\<lparr>input_w := x_input_w\<rparr>) = kernel_ok s"
  "kernel_ok (s\<lparr>input_e := x_input_e\<rparr>) = kernel_ok s"
  "kernel_ok (s\<lparr>idt := x_idt\<rparr>) = kernel_ok s"
  "kernel_ok (s\<lparr>cr2 := x_cr2\<rparr>) = kernel_ok s"
  "kernel_ok (s\<lparr>eois := x_eois\<rparr>) = kernel_ok s"
  "kernel_ok (s\<lparr>kbd_in := x_kbd_in\<rparr>) = kernel_ok s"
  "kernel_ok (s\<lparr>kbd_shift := x_kbd_shift\<rparr>) = kernel_ok s"
  "kernel_ok (s\<lparr>uart_in := x_uart_in\<rparr>) = kernel_ok s"
  by (simp_all add: kernel_ok_def)

lemma proc_ok_upd [simp]:
  "proc_ok p \<Longrightarrow> length fs = 16 \<Longrightarrow> proc_ok (p\<lparr>ofile := fs\<rparr>)"
  "proc_ok p \<Longrightarrow> length hs = 32 \<Longrightarrow> proc_ok (p\<lparr>handlers := hs\<rparr>)"
  "proc_ok p \<Longrightarrow> length cs = 16 \<Longrightarrow> proc_ok (p\<lparr>pname := cs\<rparr>)"
  "proc_ok p \<Longrightarrow> in_table j \<Longrightarrow> proc_ok (p\<lparr>parent := j\<rparr>)"
  "proc_ok (wake ch p) = proc_ok p"
  by (simp_all add: proc_ok_def wake_def)

lemma proc_ok_lengths [simp]:
  "proc_ok p \<Longrightarrow> length (ofile p) = 16" "proc_ok p \<Longrightarrow> length (handlers p) = 32" "proc_ok p \<Longrightarrow> length (pname p) = 16"
  by (simp_all add: proc_ok_def)

lemma proc_ok_signals [simp]:
  "proc_ok (cancelSignal k p) = proc_ok p" "proc_ok (cont_proc p) = proc_ok p" "proc_ok (kill_proc p) = proc_ok p"
  "proc_ok p \<Longrightarrow> proc_ok (default_handlers p)"
  by (simp_all add: cancelSignal_def cont_proc_def kill_proc_def default_handlers_def)

lemma proc_ok_name [simp]: "proc_ok p \<Longrightarrow> length (safestrcpy (pname p) t 16) = 16"
  using safestrcpy_string(2) [of 16 "pname p" t] by simp

lemma proc_ok_fork [simp]:
  "proc_ok np \<Longrightarrow> i < NPROC \<Longrightarrow> proc_ok (fork_copy i p np)" "proc_ok np \<Longrightarrow> proc_ok p \<Longrightarrow> proc_ok (fork_inherit p np)"
  by (simp_all add: fork_copy_def fork_inherit_def)

lemma ok_nth: "kernel_ok s \<Longrightarrow> i < NPROC \<Longrightarrow> proc_ok (procs s ! i)"
  by (simp add: kernel_ok_def list_all_length)

lemma ok_initproc: "kernel_ok s \<Longrightarrow> in_table (initproc s)"
  by (simp add: kernel_ok_def)

lemma ok_cproc: "kernel_ok s \<Longrightarrow> c < NCPU \<Longrightarrow> in_table (cproc (cpus s ! c))"
  by (simp add: kernel_ok_def list_all_length)

lemma ok_set [simp]:
  "kernel_ok s \<Longrightarrow> in_table p \<Longrightarrow> kernel_ok (s\<lparr>initproc := p\<rparr>)"
  "kernel_ok s \<Longrightarrow> kernel_ok (s\<lparr>devsw := (devsw s)[i := d]\<rparr>)"
  by (simp_all add: kernel_ok_def)

lemma pipe_lengths [simp]:
  "length (pipe_data (pipe_put b x)) = length (pipe_data x)" "length (pipe_data (pipe_get x)) = length (pipe_data x)"
  by (simp_all add: pipe_put_def pipe_get_def)

lemma ok_procs [simp]: "kernel_ok s \<Longrightarrow> (\<And>p. proc_ok p \<Longrightarrow> proc_ok (f p)) \<Longrightarrow> kernel_ok (s\<lparr>procs := map f (procs s)\<rparr>)"
  by (auto simp: kernel_ok_def list_all_iff)

lemma ok_input [simp]: "kernel_ok s \<Longrightarrow> kernel_ok (s\<lparr>input_buf := put_input i c (input_buf s)\<rparr>)"
  by (simp add: kernel_ok_def put_input_def)

section \<open>Spin locks\<close>

lemma initlock_keeps [intro!]: "kept (initlock x1 x2)"
  by (auto simp: initlock_def)

lemma mycpu_keeps [intro!]: "kept mycpu"
  by (auto simp: mycpu_def)

lemma mycpu_in: "keeps kernel_ok mycpu (\<lambda>c. c < NCPU)"
  unfolding mycpu_def
  by (rule kept_bind, blast) (auto dest!: find_in intro!: keeps_get_bind keeps_return simp: kernel_ok_def)

lemma cpuid_keeps [intro!]: "kept cpuid"
  by (auto simp: cpuid_def)

lemma pushcli_keeps [intro!]: "kept pushcli"
  by (auto simp: pushcli_def)

lemma popcli_keeps [intro!]: "kept popcli"
  by (auto simp: popcli_def)

lemma holding_keeps [intro!]: "kept (holding x1)"
  by (auto simp: holding_def)

lemma xchg_locked_keeps [intro!]: "kept (xchg_locked x1)"
  by (auto simp: xchg_locked_def)

lemma acquire_keeps [intro!]: "kept (acquire x1)"
  by (auto simp: acquire_def)

lemma release_keeps [intro!]: "kept (release x1)"
  by (auto simp: release_def)

section \<open>Console output\<close>

lemma uartputc_keeps [intro!]: "kept (uartputc x1)"
  by (auto simp: uartputc_def)

lemma cga_move_keeps [intro!]: "kept (cga_move x1)"
  by (auto simp: cga_move_def)

lemma cgaputc_keeps [intro!]: "kept (cgaputc x1)"
  by (auto simp: cgaputc_def)

lemma consputc_keeps [intro!]: "kept (consputc x1)"
  by (auto simp: consputc_def)

lemma cputs_keeps [intro!]: "kept (cputs x1)"
  by (auto simp: cputs_def)

lemma cprintf_keeps [intro!]: "kept (cprintf x1 x2)"
  by (auto simp: cprintf_def)

section \<open>Page allocator\<close>

lemma kfree_keeps [intro!]: "kept (kfree x1)"
  by (auto simp: kfree_def)

lemma kalloc_keeps [intro!]: "kept kalloc"
  by (auto simp: kalloc_def)

lemma freerange_from_ends:
  "kernel_ok s \<Longrightarrow> env_keeps kernel_ok e \<Longrightarrow> ends_in kernel_ok (\<lambda>_. True) (freerange_from p vend e s)"
proof (induction p vend e s rule: freerange_from.induct)
  case (1 p vend e s)
  have k: "ends_in kernel_ok (\<lambda>_. True) (kfree p e s)" by (rule keepsD [OF kfree_keeps 1(2,3)])
  show ?case
  proof (cases "p + PGSIZE \<le> vend")
    case True
    then show ?thesis using k 1(1) [OF True] by (cases "kfree p e s") (simp_all add: freerange_from.simps [of p])
  next
    case False
    then show ?thesis using 1(2,3) by (simp add: freerange_from.simps [of p])
  qed
qed

lemma freerange_keeps [intro!]: "kept (freerange x1 x2)"
  unfolding freerange_def by (rule keepsI) (rule freerange_from_ends)

lemma kinit1_keeps [intro!]: "kept (kinit1 x1 x2)"
  by (auto simp: kinit1_def)

lemma kinit2_keeps [intro!]: "kept (kinit2 x1 x2)"
  by (auto simp: kinit2_def)

section \<open>Virtual memory\<close>

lemma seginit_keeps [intro!]: "kept seginit"
  by (auto simp: seginit_def)

lemma walkpgdir_keeps [intro!]: "kept (walkpgdir x1 x2 x3)"
  by (auto simp: walkpgdir_def)

lemma mappages_round_keeps [intro!]: "kept (mappages_round x1 x2 x3 x4)"
  by (auto simp: mappages_round_def)

lemma mappages_keeps [intro!]: "kept (mappages x1 x2 x3 x4 x5)"
  by (auto simp: mappages_def)

lemma deallocuvm_keeps [intro!]: "kept (deallocuvm x1 x2 x3)"
  by (auto simp: deallocuvm_def)

lemma allocuvm_keeps [intro!]: "kept (allocuvm x1 x2 x3)"
  by (auto simp: allocuvm_def)

lemma freevm_keeps [intro!]: "kept (freevm x1)"
  by (auto simp: freevm_def)

lemma map_kernel_keeps [intro!]: "kept (map_kernel x1 x2)"
  by (induction x1 x2 rule: map_kernel.induct) auto

lemma setupkvm_keeps [intro!]: "kept setupkvm"
  by (auto simp: setupkvm_def)

lemma switchkvm_keeps [intro!]: "kept switchkvm"
  by (auto simp: switchkvm_def)

lemma kvmalloc_keeps [intro!]: "kept kvmalloc"
  by (auto simp: kvmalloc_def)

lemma kread8_keeps [intro!]: "kept (kread8 x1)"
  by (auto simp: kread8_def)

lemma kread_bytes_keeps [intro!]: "kept (kread_bytes x1 x2)"
  by (induction x1 x2 rule: kread_bytes.induct) auto

lemma kwrite_bytes_keeps [intro!]: "kept (kwrite_bytes x1 x2)"
  by (induction x1 x2 rule: kwrite_bytes.induct) auto

lemma kread32_keeps [intro!]: "kept (kread32 x1)"
  by (auto simp: kread32_def)

lemma kwrite32_keeps [intro!]: "kept (kwrite32 x1 x2)"
  by (auto simp: kwrite32_def)

lemma inituvm_keeps [intro!]: "kept (inituvm x1 x2)"
  by (auto simp: inituvm_def)

lemma clearpteu_keeps [intro!]: "kept (clearpteu x1 x2)"
  by (auto simp: clearpteu_def)

lemma copyuvm_keeps [intro!]: "kept (copyuvm x1 x2)"
  by (auto simp: copyuvm_def)

lemma uva2ka_keeps [intro!]: "kept (uva2ka x1 x2)"
  by (auto simp: uva2ka_def)

lemma copyout_keeps [intro!]: "kept (copyout x1 x2 x3)"
  by (auto simp: copyout_def)

section \<open>Processes\<close>

lemma pinit_keeps [intro!]: "kept pinit"
  by (auto simp: pinit_def)

lemma myproc_keeps [intro!]: "kept myproc"
  by (auto simp: myproc_def)

lemma myproc_in: "keeps kernel_ok myproc in_table"
proof -
  have "keeps kernel_ok (kbind (kget (\<lambda>s. cproc (cpus s ! c))) (\<lambda>p. kseq popcli (kreturn p))) in_table" if "c < NCPU" for c
    by (rule keeps_get_bind) (use that in \<open>auto intro!: kept_seq keeps_return dest: ok_cproc\<close>)
  then show ?thesis unfolding myproc_def by (rule kept_seq [OF pushcli_keeps keeps_bind [OF mycpu_in]])
qed

lemma switchuvm_keeps [intro!]: "kept (switchuvm x1)"
  by (auto simp: switchuvm_def)

lemma growproc_keeps [intro!]: "kept (growproc x1)"
  by (auto simp: growproc_def)

lemma allocpid_keeps [intro!]: "kept allocpid"
  by (auto simp: allocpid_def)

lemma allocproc_keeps [intro!]: "kept allocproc"
  by (auto simp: allocproc_def)

lemma allocproc_in: "keeps kernel_ok allocproc in_table"
  unfolding allocproc_def by (rule keeps_get_bind) (auto dest!: find_in simp: slots_def intro!: keeps_return)

lemma sched_keeps [intro!]: "kept sched"
  by (auto simp: sched_def)

lemma yield_keeps [intro!]: "kept yield"
  by (auto simp: yield_def)

lemma sleep_keeps [intro!]: "kept (sleep x1 x2)"
  by (auto simp: sleep_def)

lemma wakeup1_keeps [intro!]: "kept (wakeup1 x1)"
  by (auto simp: wakeup1_def)

lemma wakeup_keeps [intro!]: "kept (wakeup x1)"
  by (auto simp: wakeup_def)

lemma run_slot_keeps [intro!]: "x2 < NPROC \<Longrightarrow> kept (run_slot x1 x2)"
  by (auto simp: run_slot_def)

lemma scheduler_round_keeps [intro!]: "kept (scheduler_round x1)"
  unfolding scheduler_round_def by (intro kept_seq kept_for_in) (auto simp: slots_def)

lemma scheduler_keeps [intro!]: "kept scheduler"
  by (auto simp: scheduler_def)

lemma reap_keeps [intro!]: "kept (reap x1)"
  by (auto simp: reap_def)

lemma wait_keeps [intro!]: "kept wait"
  by (auto simp: wait_def)

lemma kill_keeps [intro!]: "kept (kill x1 x2)"
  by (auto simp: kill_def)

lemma sigprocmask_keeps [intro!]: "kept (sigprocmask x1)"
  by (auto simp: sigprocmask_def)

lemma signal_keeps [intro!]: "kept (signal x1 x2)"
  by (auto simp: signal_def)

section \<open>Sleep locks\<close>

lemma initsleeplock_keeps [intro!]: "kept (initsleeplock x1 x2)"
  by (auto simp: initsleeplock_def)

lemma acquiresleep_keeps [intro!]: "kept (acquiresleep x1)"
  by (auto simp: acquiresleep_def)

lemma releasesleep_keeps [intro!]: "kept (releasesleep x1)"
  by (auto simp: releasesleep_def)

lemma holdingsleep_keeps [intro!]: "kept (holdingsleep x1)"
  by (auto simp: holdingsleep_def)

section \<open>Buffer cache\<close>

lemma ideinit_keeps [intro!]: "kept (ideinit x1)"
  by (auto simp: ideinit_def)

lemma iderw_keeps [intro!]: "kept (iderw x1)"
  by (auto simp: iderw_def)

lemma link_first_keeps [intro!]: "kept (link_first x1)"
  by (auto simp: link_first_def)

lemma binit_keeps [intro!]: "kept binit"
  by (auto simp: binit_def)

lemma walk_keeps [intro!]: "kept (walk x1 x2 x3)"
  by (auto simp: walk_def)

lemma bget_keeps [intro!]: "kept (bget x1 x2)"
  by (auto simp: bget_def)

lemma bread_keeps [intro!]: "kept (bread x1 x2)"
  by (auto simp: bread_def)

lemma bwrite_keeps [intro!]: "kept (bwrite x1)"
  by (auto simp: bwrite_def)

lemma unlink_buf_keeps [intro!]: "kept (unlink_buf x1)"
  by (auto simp: unlink_buf_def)

lemma brelse_keeps [intro!]: "kept (brelse x1)"
  by (auto simp: brelse_def)

section \<open>Log\<close>

lemma readsb_keeps [intro!]: "kept (readsb x1)"
  by (auto simp: readsb_def)

lemma kundefined_keeps [intro!]: "kept kundefined"
  by (auto simp: kundefined_def)

lemma read_head_keeps [intro!]: "kept read_head"
  by (auto simp: read_head_def)

lemma write_head_keeps [intro!]: "kept write_head"
  by (auto simp: write_head_def)

lemma install_trans_keeps [intro!]: "kept install_trans"
  by (auto simp: install_trans_def)

lemma write_log_keeps [intro!]: "kept write_log"
  by (auto simp: write_log_def)

lemma recover_from_log_keeps [intro!]: "kept recover_from_log"
  by (auto simp: recover_from_log_def)

lemma initlog_keeps [intro!]: "kept (initlog x1)"
  by (auto simp: initlog_def)

lemma begin_op_keeps [intro!]: "kept begin_op"
  by (auto simp: begin_op_def)

lemma commit_keeps [intro!]: "kept commit"
  by (auto simp: commit_def)

lemma end_op_keeps [intro!]: "kept end_op"
  by (auto simp: end_op_def)

lemma log_write_keeps [intro!]: "kept (log_write x1)"
  by (auto simp: log_write_def)

section \<open>Inodes\<close>

lemma bzero_keeps [intro!]: "kept (bzero x1 x2)"
  by (auto simp: bzero_def)

lemma balloc_keeps [intro!]: "kept (balloc x1)"
  by (auto simp: balloc_def)

lemma bfree_keeps [intro!]: "kept (bfree x1 x2)"
  by (auto simp: bfree_def)

lemma iinit_keeps [intro!]: "kept (iinit x1)"
  by (auto simp: iinit_def)

lemma iget_keeps [intro!]: "kept (iget x1 x2)"
  by (auto simp: iget_def)

lemma ialloc_keeps [intro!]: "kept (ialloc x1 x2)"
  by (auto simp: ialloc_def)

lemma iupdate_keeps [intro!]: "kept (iupdate x1)"
  by (auto simp: iupdate_def)

lemma idup_keeps [intro!]: "kept (idup x1)"
  by (auto simp: idup_def)

lemma ilock_keeps [intro!]: "kept (ilock x1)"
  by (auto simp: ilock_def)

lemma iunlock_keeps [intro!]: "kept (iunlock x1)"
  by (auto simp: iunlock_def)

lemma bmap_keeps [intro!]: "kept (bmap x1 x2)"
  by (auto simp: bmap_def)

lemma itrunc_keeps [intro!]: "kept (itrunc x1)"
  by (auto simp: itrunc_def)

lemma iput_keeps [intro!]: "kept (iput x1)"
  by (auto simp: iput_def)

lemma iunlockput_keeps [intro!]: "kept (iunlockput x1)"
  by (auto simp: iunlockput_def)

lemma stati_keeps [intro!]: "kept (stati x1)"
  by (auto simp: stati_def)

section \<open>Console\<close>

lemma procdump_keeps [intro!]: "kept procdump"
  by (auto simp: procdump_def)

lemma kill_line_keeps [intro!]: "kept kill_line"
  by (auto simp: kill_line_def)

lemma console_char_keeps [intro!]: "kept (console_char x1)"
  by (auto simp: console_char_def)

lemma console_chars_keeps [intro!]: "kept (console_chars x1 x2)"
  by (induction x1 x2 rule: console_chars.induct) auto

lemma consoleintr_keeps [intro!]: "kept (consoleintr x1)"
  by (auto simp: consoleintr_def)

lemma dest_put_keeps [intro!]: "kept (dest_put x1 x2 x3)"
  by (induction x1 x2 x3 rule: dest_put.induct) auto

lemma source_get_keeps [intro!]: "kept (source_get x1 x2 x3)"
  by (induction x1 x2 x3 rule: source_get.induct) auto

lemma await_input_keeps [intro!]: "kept await_input"
  by (auto simp: await_input_def)

lemma consoleread_loop_keeps [intro!]: "kept (consoleread_loop x1 x2 x3 x4)"
  by (induction x1 x2 x3 x4 rule: consoleread_loop.induct) auto

lemma consoleread_keeps [intro!]: "kept (consoleread x1 x2 x3)"
  by (auto simp: consoleread_def)

lemma consolewrite_keeps [intro!]: "kept (consolewrite x1 x2 x3)"
  by (auto simp: consolewrite_def)

lemma consoleinit_keeps [intro!]: "kept consoleinit"
  by (auto simp: consoleinit_def kernel_ok_def)

section \<open>Files and directories\<close>

lemma readi_loop_keeps [intro!]: "kept (readi_loop x1 x2 x3 x4)"
  by (auto simp: readi_loop_def)

lemma readi_keeps [intro!]: "kept (readi x1 x2 x3 x4)"
  by (auto simp: readi_def)

lemma writei_loop_keeps [intro!]: "kept (writei_loop x1 x2 x3 x4)"
  by (auto simp: writei_loop_def)

lemma writei_keeps [intro!]: "kept (writei x1 x2 x3 x4)"
  by (auto simp: writei_def)

lemma read_dirent_keeps [intro!]: "kept (read_dirent x1 x2 x3)"
  by (auto simp: read_dirent_def)

lemma dirlookup_keeps [intro!]: "kept (dirlookup x1 x2)"
  by (auto simp: dirlookup_def)

lemma dirlink_keeps [intro!]: "kept (dirlink x1 x2 x3)"
  by (auto simp: dirlink_def)

lemma namex_keeps [intro!]: "kept (namex x1 x2)"
  by (auto simp: namex_def)

lemma namei_keeps [intro!]: "kept (namei x1)"
  by (auto simp: namei_def)

lemma nameiparent_keeps [intro!]: "kept (nameiparent x1)"
  by (auto simp: nameiparent_def)

section \<open>Pipes\<close>

lemma pipeclose_keeps [intro!]: "kept (pipeclose x1 x2)"
  by (auto simp: pipeclose_def)

lemma await_room_keeps [intro!]: "kept (await_room x1)"
  by (auto simp: await_room_def)

lemma pipewrite_loop_keeps [intro!]: "kept (pipewrite_loop x1 x2 x3)"
  by (induction x1 x2 x3 rule: pipewrite_loop.induct) auto

lemma pipewrite_keeps [intro!]: "kept (pipewrite x1 x2 x3)"
  by (auto simp: pipewrite_def)

lemma await_data_keeps [intro!]: "kept (await_data x1)"
  by (auto simp: await_data_def)

lemma piperead_loop_keeps [intro!]: "kept (piperead_loop x1 x2 x3 x4)"
  by (induction x1 x2 x3 x4 rule: piperead_loop.induct) auto

lemma piperead_keeps [intro!]: "kept (piperead x1 x2 x3)"
  by (auto simp: piperead_def)

section \<open>Open files\<close>

lemma fileinit_keeps [intro!]: "kept fileinit"
  by (auto simp: fileinit_def)

lemma filealloc_keeps [intro!]: "kept filealloc"
  by (auto simp: filealloc_def)

lemma filedup_keeps [intro!]: "kept (filedup x1)"
  by (auto simp: filedup_def)

lemma fileclose_keeps [intro!]: "kept (fileclose x1)"
  by (auto simp: fileclose_def)

lemma store_stat_keeps [intro!]: "kept (store_stat x1 x2)"
  by (auto simp: store_stat_def)

lemma filestat_keeps [intro!]: "kept (filestat x1 x2)"
  by (auto simp: filestat_def)

lemma fileread_keeps [intro!]: "kept (fileread x1 x2 x3)"
  by (auto simp: fileread_def)

lemma filewrite_keeps [intro!]: "kept (filewrite x1 x2 x3)"
  by (auto simp: filewrite_def)

lemma close_opt_keeps [intro!]: "kept (close_opt x1)"
  by (auto simp: close_opt_def)

lemma pipealloc_keeps [intro!]: "kept pipealloc"
  by (auto simp: pipealloc_def)

section \<open>Fork and exit\<close>

lemma userinit_keeps [intro!]: "kept (userinit x1)"
  unfolding userinit_def by (rule keeps_bind [OF allocproc_in]) auto

lemma fork_keeps [intro!]: "kept fork"
  unfolding fork_def by (rule keeps_bind [OF myproc_in]) (auto simp: ok_nth)

lemma exit_orphans_keeps [intro!]: "kept (exit_orphans x1)"
proof -
  have "kept (kbind (kget initproc) (\<lambda>ini.
        kseq (kmod (pupd i (\<lambda>x. x\<lparr>parent := ini\<rparr>)))
        (kbind (pget i pstate) (\<lambda>st.
         kwhen (st = ZOMBIE) (wakeup1 (map_option ProcChan ini))))))" for i
    by (rule keeps_get_bind) (auto dest: ok_initproc)
  from kept_when [OF this] show ?thesis unfolding exit_orphans_def by (rule kept_for [OF kept_bind [OF kept_get]])
qed

lemma exit_keeps [intro!]: "kept exit"
  by (auto simp: exit_def)

lemma forkret_keeps [intro!]: "kept forkret"
  by (auto simp: forkret_def)

section \<open>Program loading\<close>

lemma loaduvm_keeps [intro!]: "kept (loaduvm x1 x2 x3 x4 x5)"
  by (auto simp: loaduvm_def)

lemma load_segments_keeps [intro!]: "kept (load_segments x1 x2 x3)"
  by (auto simp: load_segments_def)

lemma push_args_keeps [intro!]: "kept (push_args x1 x2 x3 x4)"
  by (induction x1 x2 x3 x4 rule: push_args.induct) auto

lemma exec_bad_keeps [intro!]: "kept (exec_bad x1 x2)"
  by (auto simp: exec_bad_def)

lemma exec_image_keeps [intro!]: "kept (exec_image x1 x2 x3 x4 x5 x6)"
  by (auto simp: exec_image_def)

lemma exec_keeps [intro!]: "kept (exec x1 x2)"
  by (auto simp: exec_def)

section \<open>Signals\<close>

lemma isBlocked_keeps [intro!]: "kept (isBlocked x1)"
  by (auto simp: isBlocked_def)

lemma handle_SIGSTOP_keeps [intro!]: "kept (handle_SIGSTOP x1)"
  by (auto simp: handle_SIGSTOP_def)

lemma handle_SIGKILL_keeps [intro!]: "kept (handle_SIGKILL x1)"
  by (auto simp: handle_SIGKILL_def)

lemma handle_SIGCONT_keeps [intro!]: "kept (handle_SIGCONT x1)"
  by (auto simp: handle_SIGCONT_def)

lemma default_action_keeps [intro!]: "kept (default_action x1 x2)"
  by (auto simp: default_action_def)

lemma push_handler_keeps [intro!]: "kept (push_handler x1 x2)"
  by (auto simp: push_handler_def)

lemma custom_action_keeps [intro!]: "kept (custom_action x1 x2)"
  by (auto simp: custom_action_def)

lemma deliver_keeps [intro!]: "kept (deliver x1 x2)"
  by (auto simp: deliver_def)

lemma sig_loop_keeps [intro!]: "kept (sig_loop x1 x2)"
  by (induction x1 x2 rule: sig_loop.induct) auto

lemma check_kernel_sigs_keeps [intro!]: "kept check_kernel_sigs"
  by (auto simp: check_kernel_sigs_def)

lemma sigret_keeps [intro!]: "kept sigret"
  by (auto simp: sigret_def)

section \<open>System calls on processes\<close>

lemma with_proc_keeps [intro!]: "(\<And>i. kept (f i)) \<Longrightarrow> kept (with_proc f)"
  by (auto simp: with_proc_def)

lemma fetchint_keeps [intro!]: "kept (fetchint x1)"
  by (auto simp: fetchint_def)

lemma fetchstr_loop_keeps [intro!]: "kept (fetchstr_loop x1 x2 x3)"
  by (induction x1 x2 x3 rule: fetchstr_loop.induct) auto

lemma fetchstr_keeps [intro!]: "kept (fetchstr x1)"
  by (auto simp: fetchstr_def)

lemma argint_keeps [intro!]: "kept (argint x1)"
  by (auto simp: argint_def)

lemma argptr_keeps [intro!]: "kept (argptr x1 x2)"
  by (auto simp: argptr_def)

lemma argstr_keeps [intro!]: "kept (argstr x1)"
  by (auto simp: argstr_def)

lemma need_keeps [intro!]: "kept m \<Longrightarrow> (\<And>x. kept (f x)) \<Longrightarrow> kept (need m f)"
  by (auto simp: need_def)

lemma sys_fork_keeps [intro!]: "kept sys_fork"
  by (auto simp: sys_fork_def)

lemma sys_exit_keeps [intro!]: "kept sys_exit"
  by (auto simp: sys_exit_def)

lemma sys_wait_keeps [intro!]: "kept sys_wait"
  by (auto simp: sys_wait_def)

lemma sys_kill_keeps [intro!]: "kept sys_kill"
  by (auto simp: sys_kill_def)

lemma sys_getpid_keeps [intro!]: "kept sys_getpid"
  by (auto simp: sys_getpid_def)

lemma sys_sbrk_keeps [intro!]: "kept sys_sbrk"
  by (auto simp: sys_sbrk_def)

lemma sys_sleep_keeps [intro!]: "kept sys_sleep"
  by (auto simp: sys_sleep_def)

lemma sys_uptime_keeps [intro!]: "kept sys_uptime"
  by (auto simp: sys_uptime_def)

lemma sys_sigprocmask_keeps [intro!]: "kept sys_sigprocmask"
  by (auto simp: sys_sigprocmask_def)

lemma sys_signal_keeps [intro!]: "kept sys_signal"
  by (auto simp: sys_signal_def)

lemma sys_sigret_keeps [intro!]: "kept sys_sigret"
  by (auto simp: sys_sigret_def)

section \<open>System calls on files\<close>

lemma argfd_keeps [intro!]: "kept (argfd x1)"
  by (auto simp: argfd_def)

lemma fdalloc_keeps [intro!]: "kept (fdalloc x1)"
  by (auto simp: fdalloc_def)

lemma clear_fd_keeps [intro!]: "kept (clear_fd x1)"
  by (auto simp: clear_fd_def)

lemma sys_dup_keeps [intro!]: "kept sys_dup"
  by (auto simp: sys_dup_def)

lemma sys_read_keeps [intro!]: "kept sys_read"
  by (auto simp: sys_read_def)

lemma sys_write_keeps [intro!]: "kept sys_write"
  by (auto simp: sys_write_def)

lemma sys_close_keeps [intro!]: "kept sys_close"
  by (auto simp: sys_close_def)

lemma sys_fstat_keeps [intro!]: "kept sys_fstat"
  by (auto simp: sys_fstat_def)

lemma set_nlink_keeps [intro!]: "kept (set_nlink x1 x2)"
  by (auto simp: set_nlink_def)

lemma link_bad_keeps [intro!]: "kept (link_bad x1)"
  by (auto simp: link_bad_def)

lemma sys_link_keeps [intro!]: "kept sys_link"
  by (auto simp: sys_link_def)

lemma isdirempty_keeps [intro!]: "kept (isdirempty x1)"
  by (auto simp: isdirempty_def)

lemma unlink_bad_keeps [intro!]: "kept (unlink_bad x1)"
  by (auto simp: unlink_bad_def)

lemma sys_unlink_keeps [intro!]: "kept sys_unlink"
  by (auto simp: sys_unlink_def)

lemma create_keeps [intro!]: "kept (create x1 x2 x3 x4)"
  by (auto simp: create_def)

lemma open_inode_keeps [intro!]: "kept (open_inode x1 x2)"
  by (auto simp: open_inode_def)

lemma sys_open_keeps [intro!]: "kept sys_open"
  by (auto simp: sys_open_def)

lemma finish_create_keeps [intro!]: "kept (finish_create x1)"
  by (auto simp: finish_create_def)

lemma sys_mkdir_keeps [intro!]: "kept sys_mkdir"
  by (auto simp: sys_mkdir_def)

lemma sys_mknod_keeps [intro!]: "kept sys_mknod"
  by (auto simp: sys_mknod_def)

lemma sys_chdir_keeps [intro!]: "kept sys_chdir"
  by (auto simp: sys_chdir_def)

lemma fetch_argv_keeps [intro!]: "kept (fetch_argv x1 x2 x3)"
  by (induction x1 x2 x3 rule: fetch_argv.induct) auto

lemma sys_exec_keeps [intro!]: "kept sys_exec"
  by (auto simp: sys_exec_def)

lemma sys_pipe_keeps [intro!]: "kept sys_pipe"
  by (auto simp: sys_pipe_def)

section \<open>Traps\<close>

lemma tvinit_keeps [intro!]: "kept (tvinit x1)"
  by (auto simp: tvinit_def)

lemma set_eax_keeps [intro!]: "kept (set_eax x1 x2)"
  by (auto simp: set_eax_def)

lemma syscalls_keeps: "syscalls n = Some call \<Longrightarrow> kept call"
  by (auto simp: syscalls_def split: if_splits)

lemma syscall_keeps [intro!]: "kept syscall"
  by (auto simp: syscall_def dest: syscalls_keeps)

lemma lapiceoi_keeps [intro!]: "kept lapiceoi"
  by (auto simp: lapiceoi_def)

lemma kbdintr_keeps [intro!]: "kept kbdintr"
  by (auto simp: kbdintr_def)

lemma uartintr_keeps [intro!]: "kept uartintr"
  by (auto simp: uartintr_def)

lemma timer_tick_keeps [intro!]: "kept timer_tick"
  by (auto simp: timer_tick_def)

lemma bad_trap_keeps [intro!]: "kept (bad_trap x1)"
  by (auto simp: bad_trap_def)

lemma exit_if_killed_keeps [intro!]: "kept (exit_if_killed x1)"
  by (auto simp: exit_if_killed_def)

lemma trap_syscall_keeps [intro!]: "kept (trap_syscall x1)"
  by (auto simp: trap_syscall_def)

lemma trap_keeps [intro!]: "kept (trap x1)"
  by (auto simp: trap_def)

lemma alltraps_keeps [intro!]: "kept (alltraps x1)"
  by (auto simp: alltraps_def)

lemma mpmain_keeps [intro!]: "kept mpmain"
  by (auto simp: mpmain_def)
section \<open>Properties\<close>


lemma unused_proc_ok: "proc_ok unused_proc"
  by (simp add: proc_ok_def unused_proc_def del: proc_ok_lengths)

lemma small_kernel_ok: "kernel_ok small_kernel"
  by (simp add: kernel_ok_def small_kernel_def pipes.defs ftable.defs boot_pipe_def console.defs icache.defs log.defs
      boot_log_def bcache.defs boot_def ptable.defs sltable.defs two_procs_simps half_pipe_def linked_def
      list_all_iff unused_proc_ok)


end
