(* ===== verification/Ide.thy ===== *)
theory Ide
  imports Bio
begin

text \<open>
  The driver of the IDE disk (\<^verbatim>\<open>ide.c\<close>), which a kernel with a real disk uses in place of \<^verbatim>\<open>memide.c\<close>:
  the queue of requests, the commands written to the controller, and the interrupt handler.
\<close>

section \<open>State\<close>

text \<open>
  What is written to ports: single bytes, and the words of a block to the data port.
\<close>

datatype io = OutB u16 u8 | OutSL "u8 list"

text \<open>
  \<open>idequeue\<close> and the field \<open>qnext\<close> of the buffers, as indices; \<open>havedisk1\<close>. The controller is
  the environment of the driver: \<open>ide_status\<close> are the values that the next reads of the status port
  \<open>0x1f7\<close> give, \<open>ide_data\<close> the blocks that the next reads of the data port give, and \<open>ide_ports\<close> is
  what was written to the ports, in order.
\<close>

record ide = bcache +
  idequeue :: "nat option"
  qnext :: "nat \<Rightarrow> nat option"
  havedisk1 :: bool
  ide_status :: "u8 list"
  ide_data :: "u8 list list"
  ide_ports :: "io list"

abbreviation (input) FSSIZE :: u32 where "FSSIZE \<equiv> 1000"
abbreviation (input) IDE_CMD_READ :: u8 where "IDE_CMD_READ \<equiv> 0x20"
abbreviation (input) IDE_CMD_WRITE :: u8 where "IDE_CMD_WRITE \<equiv> 0x30"

definition outb :: "u16 \<Rightarrow> u8 \<Rightarrow> ('a ide_scheme, unit) kmon" where
  "outb p v = kmod (\<lambda>s. s\<lparr>ide_ports := ide_ports s @ [OutB p v]\<rparr>)"

definition outsl :: "u8 list \<Rightarrow> ('a ide_scheme, unit) kmon" where
  "outsl d = kmod (\<lambda>s. s\<lparr>ide_ports := ide_ports s @ [OutSL d]\<rparr>)"

definition inb_status :: "('a ide_scheme, u8) kmon" where
  "inb_status = kbind (kget ide_status) (\<lambda>st. case st of
     [] \<Rightarrow> kspin
   | r # rs \<Rightarrow> kseq (kmod (\<lambda>s. s\<lparr>ide_status := rs\<rparr>)) (kreturn r))"

definition insl :: "('a ide_scheme, u8 list) kmon" where
  "insl = kbind (kget ide_data) (\<lambda>ds. case ds of
     [] \<Rightarrow> kspin
   | d # ds \<Rightarrow> kseq (kmod (\<lambda>s. s\<lparr>ide_data := ds\<rparr>)) (kreturn d))"

section \<open>The driver\<close>

text \<open>
  \<open>idewait\<close> reads the status until the disk is ready; a disk that never gets ready keeps the
  processor in the loop.
\<close>

definition ready :: "u8 \<Rightarrow> bool" where
  "ready r \<longleftrightarrow> r AND 0xC0 = 0x40"

fun wait_ready :: "u8 list \<Rightarrow> (u8 \<times> u8 list) option" where
  "wait_ready [] = None"
| "wait_ready (r # rs) = (if ready r then Some (r, rs) else wait_ready rs)"

definition idewait :: "bool \<Rightarrow> ('a ide_scheme, int) kmon" where
  "idewait checkerr = kbind (kget (\<lambda>s. wait_ready (ide_status s))) (\<lambda>x. case x of
     None \<Rightarrow> kspin
   | Some (r, rs) \<Rightarrow>
       kseq (kmod (\<lambda>s. s\<lparr>ide_status := rs\<rparr>))
       (kreturn (if checkerr \<and> r AND 0x21 \<noteq> 0 then -1 else 0)))"

text \<open>\<open>ideinit\<close> after \<open>ioapicenable\<close>; at most 1000 reads of the status look for disk 1.\<close>

definition ideinit_pio :: "('a ide_scheme, unit) kmon" where
  "ideinit_pio =
     kseq (initlock IDE_LOCK ''ide'')
     (kseq (idewait False)
     (kseq (outb 0x1f6 (0xe0 OR push_bit 4 1))
     (kseq (kiter 1001 (\<lambda>i :: nat.
        if i < 1000 then
          kbind inb_status (\<lambda>r.
          if r \<noteq> 0 then kseq (kmod (\<lambda>s. s\<lparr>havedisk1 := True\<rparr>)) (kreturn (Inr ()))
          else kreturn (Inl (i + 1)))
        else kreturn (Inr ())) 0)
     (outb 0x1f6 0xe0))))"

text \<open>
  \<open>idestart\<close>. A block is one sector, so the commands for several sectors are not used; the
  shifts of the sector number are those of an \<open>int\<close> below 1000.
\<close>

definition idestart :: "nat option \<Rightarrow> ('a ide_scheme, unit) kmon" where
  "idestart p = (case p of
     None \<Rightarrow> kpanic ''idestart''
   | Some b \<Rightarrow> kbind (bfield b id) (\<lambda>x.
       if bblockno x \<ge> FSSIZE then kpanic ''incorrect blockno''
       else
         (let sector = bblockno x in
          kseq (idewait False)
          (kseq (outb 0x3f6 0)
          (kseq (outb 0x1f2 1)
          (kseq (outb 0x1f3 (ucast (sector AND 0xff)))
          (kseq (outb 0x1f4 (ucast (drop_bit 8 sector AND 0xff)))
          (kseq (outb 0x1f5 (ucast (drop_bit 16 sector AND 0xff)))
          (kseq (outb 0x1f6 (ucast (0xe0 OR push_bit 4 (bdev x AND 1) OR (drop_bit 24 sector AND 0x0f))))
          (if bflags x AND B_DIRTY \<noteq> 0 then
             kseq (outb 0x1f7 IDE_CMD_WRITE) (outsl (bdata x))
           else outb 0x1f7 IDE_CMD_READ))))))))))"

text \<open>The read of the block in \<open>ideintr\<close>, for a buffer with the flags \<open>fl\<close>.\<close>

definition idefetch :: "nat \<Rightarrow> u32 \<Rightarrow> ('a ide_scheme, unit) kmon" where
  "idefetch b fl =
     kwhen (fl AND B_DIRTY = 0)
       (kbind (idewait True) (\<lambda>r.
        kwhen (r \<ge> 0) (kbind insl (\<lambda>d. kmod (bupd b (\<lambda>x. x\<lparr>bdata := d\<rparr>))))))"

definition ideintr :: "('a ide_scheme, unit) kmon" where
  "ideintr =
     kseq (acquire IDE_LOCK)
     (kbind (kget idequeue) (\<lambda>q. case q of
        None \<Rightarrow> release IDE_LOCK
      | Some b \<Rightarrow>
          kseq (kmod (\<lambda>s. s\<lparr>idequeue := qnext s b\<rparr>))
          (kbind (bfield b bflags) (\<lambda>fl.
           kseq (idefetch b fl)
           (kseq (kmod (bupd b (\<lambda>x. x\<lparr>bflags := bflags x OR B_VALID\<rparr>)))
           (kseq (kmod (bupd b (\<lambda>x. x\<lparr>bflags := bflags x AND NOT B_DIRTY\<rparr>)))
           (kseq (wakeup (Some (BufChan b)))
           (kbind (kget idequeue) (\<lambda>q.
            kseq (kwhen (q \<noteq> None) (idestart q))
            (release IDE_LOCK))))))))))"

text \<open>The variable \<open>pp\<close> of \<open>iderw\<close> points to \<open>idequeue\<close> or to the field \<open>qnext\<close> of a buffer.\<close>

datatype slot = QHead | QNext nat

fun load_slot :: "slot \<Rightarrow> 'a ide_scheme \<Rightarrow> nat option" where
  "load_slot QHead s = idequeue s"
| "load_slot (QNext a) s = qnext s a"

fun store_slot :: "slot \<Rightarrow> nat \<Rightarrow> 'a ide_scheme \<Rightarrow> 'a ide_scheme" where
  "store_slot QHead b s = s\<lparr>idequeue := Some b\<rparr>"
| "store_slot (QNext a) b s = s\<lparr>qnext := (qnext s)(a := Some b)\<rparr>"

text \<open>The walk to the end of the queue: there are 30 buffers, so it takes at most 31 rounds.\<close>

definition queue_end :: "('a ide_scheme, slot) kmon" where
  "queue_end = kiter (NBUF + 2) (\<lambda>pp. kbind (kget (load_slot pp)) (\<lambda>p. case p of
     None \<Rightarrow> kreturn (Inr pp)
   | Some a \<Rightarrow> kreturn (Inl (QNext a)))) QHead"

definition finished :: "buf \<Rightarrow> bool" where
  "finished x \<longleftrightarrow> bflags x AND (B_VALID OR B_DIRTY) = B_VALID"

text \<open>The loop at the end of \<open>iderw\<close>.\<close>

definition await_disk :: "nat \<Rightarrow> ('a ide_scheme, unit) kmon" where
  "await_disk b = kloop (kbind (bfield b id) (\<lambda>x.
     if finished x then kreturn (Some ())
     else kseq (sleep (Some (BufChan b)) (Some IDE_LOCK)) (kreturn None)))"

definition iderw_pio :: "nat \<Rightarrow> ('a ide_scheme, unit) kmon" where
  "iderw_pio b = kbind (holdingsleep (BufSleep b)) (\<lambda>h.
     if \<not> h then kpanic ''iderw: buf not locked''
     else kbind (bfield b id) (\<lambda>x.
       if finished x then kpanic ''iderw: nothing to do''
       else kbind (kget havedisk1) (\<lambda>d1.
         if bdev x \<noteq> 0 \<and> \<not> d1 then kpanic ''iderw: ide disk 1 not present''
         else
           kseq (acquire IDE_LOCK)
           (kseq (kmod (\<lambda>s. s\<lparr>qnext := (qnext s)(b := None)\<rparr>))
           (kbind queue_end (\<lambda>pp.
            kseq (kmod (store_slot pp b))
            (kbind (kget idequeue) (\<lambda>q.
             kseq (kwhen (q = Some b) (idestart (Some b)))
             (kseq (await_disk b)
             (release IDE_LOCK))))))))))"

section \<open>The queue\<close>

text \<open>The list of the buffers from \<open>p\<close> along \<open>qnext\<close>, and the queue of the driver.\<close>

fun qchain :: "(nat \<Rightarrow> nat option) \<Rightarrow> nat option \<Rightarrow> nat list \<Rightarrow> bool" where
  "qchain f p [] \<longleftrightarrow> p = None"
| "qchain f p (b # bs) \<longleftrightarrow> p = Some b \<and> qchain f (f b) bs"

definition ide_queue :: "'a ide_scheme \<Rightarrow> nat list \<Rightarrow> bool" where
  "ide_queue s bs \<longleftrightarrow> qchain (qnext s) (idequeue s) bs \<and> distinct bs \<and> set bs \<subseteq> {..<NBUF}"

lemma qchain_other: "b \<notin> set bs \<Longrightarrow> qchain (f(b := q)) p bs = qchain f p bs"
  by (induction bs arbitrary: p) auto

lemma qchain_snoc:
  "qchain f p (bs @ [a]) \<Longrightarrow> distinct (bs @ [a]) \<Longrightarrow> b \<notin> set (bs @ [a]) \<Longrightarrow> f b = None \<Longrightarrow>
    qchain (f(a := Some b)) p (bs @ [a, b])"
  by (induction bs arbitrary: p) (auto simp: qchain_other)

lemma queue_end_walk:
  "qchain (qnext s) (load_slot pp s) bs \<Longrightarrow> length bs < n \<Longrightarrow>
    kiter n (\<lambda>pp. kbind (kget (load_slot pp)) (\<lambda>p. case p of
       None \<Rightarrow> kreturn (Inr pp) | Some a \<Rightarrow> kreturn (Inl (QNext a)))) pp e s
    = Ret (if bs = [] then pp else QNext (last bs)) e s"
proof (induction bs arbitrary: pp n)
  case Nil
  then show ?case by (cases n) (simp_all add: option_run)
next
  case (Cons b bs)
  obtain m where m: "n = Suc m" "length bs < m" using Cons.prems(2) by (cases n) auto
  have "qchain (qnext s) (load_slot (QNext b) s) bs" using Cons.prems(1) by simp
  from Cons.IH [OF this m(2)] show ?case using Cons.prems(1) by (auto simp: m(1) option_run)
qed

lemma queue_end_run:
  assumes "ide_queue s bs"
  shows "queue_end e s = Ret (if bs = [] then QHead else QNext (last bs)) e s"
proof -
  have "length bs \<le> 30" using assms distinct_card [of bs] card_mono [of "{..<30}" "set bs"] by (simp add: ide_queue_def)
  then show ?thesis
    unfolding queue_end_def using assms by (intro queue_end_walk) (simp_all add: ide_queue_def)
qed

lemma ide_queue_append:
  assumes q: "ide_queue s bs" and b: "b \<notin> set bs" "b < NBUF" "qnext s b = None"
  shows "ide_queue (store_slot (if bs = [] then QHead else QNext (last bs)) b s) (bs @ [b])"
proof (cases bs rule: rev_cases)
  case Nil
  then show ?thesis using b by (simp add: ide_queue_def)
next
  case (snoc as a)
  then show ?thesis using q b qchain_snoc [of "qnext s" "idequeue s" as a b] by (auto simp: ide_queue_def)
qed

section \<open>Requests\<close>

text \<open>What a request writes to the controller: sector number, device, command, and the data of a write.\<close>

definition request :: "buf \<Rightarrow> io list" where
  "request x = [OutB 0x3f6 0, OutB 0x1f2 1, OutB 0x1f3 (ucast (bblockno x AND 0xff)),
     OutB 0x1f4 (ucast (drop_bit 8 (bblockno x) AND 0xff)), OutB 0x1f5 (ucast (drop_bit 16 (bblockno x) AND 0xff)),
     OutB 0x1f6 (ucast (0xe0 OR push_bit 4 (bdev x AND 1) OR (drop_bit 24 (bblockno x) AND 0x0f)))]
   @ (if bflags x AND B_DIRTY \<noteq> 0 then [OutB 0x1f7 IDE_CMD_WRITE, OutSL (bdata x)] else [OutB 0x1f7 IDE_CMD_READ])"

lemma idestart_run:
  assumes "bblockno (bufs s ! b) < FSSIZE" "wait_ready (ide_status s) = Some (r, rs)"
  shows "idestart (Some b) e s = Ret () e (s\<lparr>ide_status := rs, ide_ports := ide_ports s @ request (bufs s ! b)\<rparr>)"
  using assms
  by (simp add: idestart_def idewait_def outb_def outsl_def request_def option_run if_run Let_def not_le)

lemma flags_finished: "finished (x\<lparr>bflags := (bflags x OR B_VALID) AND NOT B_DIRTY\<rparr>)"
proof -
  let ?w = "bflags x"
  have "((?w OR 2) AND NOT 4) AND 6 = (?w OR 2) AND (NOT 4 AND 6)" by (simp only: and.assoc)
  also have "NOT 4 AND 6 = (2 :: u32)" by simp
  also have "(?w OR 2) AND 2 = 2" by (simp add: word_ao_absorbs)
  finally show ?thesis by (simp add: finished_def)
qed

section \<open>Service in order\<close>

text \<open>What the interrupt finds for the first request: for a read, the status and the block of the controller.\<close>

definition delivered :: "u8 list \<Rightarrow> u8 list list \<Rightarrow> buf \<Rightarrow> (u8 list \<times> u8 list \<times> u8 list list) option" where
  "delivered st ds x =
     (if bflags x AND B_DIRTY \<noteq> 0 then Some (bdata x, st, ds)
      else case wait_ready st of
        None \<Rightarrow> None
      | Some (r, rs) \<Rightarrow>
          if r AND 0x21 \<noteq> 0 then Some (bdata x, rs, ds)
          else (case ds of [] \<Rightarrow> None | d # ds \<Rightarrow> Some (d, rs, ds)))"

lemma idefetch_run:
  assumes "delivered (ide_status s) (ide_data s) (bufs s ! b) = Some (dat, st, ds)"
  shows "idefetch b (bflags (bufs s ! b)) e s = Ret () e (bupd b (\<lambda>x. x\<lparr>bdata := dat\<rparr>) (s\<lparr>ide_status := st, ide_data := ds\<rparr>))"
proof -
  have same: "bupd b (\<lambda>x. x\<lparr>bdata := bdata (bufs s ! b)\<rparr>) u = u" if "bufs u = bufs s" for u :: "'a ide_scheme"
    using that by (simp add: bupd_def)
  show ?thesis
  proof (cases "bflags (bufs s ! b) AND B_DIRTY = 0")
    case False
    then have "dat = bdata (bufs s ! b)" "st = ide_status s" "ds = ide_data s" using assms by (simp_all add: delivered_def)
    then show ?thesis using False by (simp add: idefetch_def same)
  next
    case True
    then obtain r rs where w: "wait_ready (ide_status s) = Some (r, rs)"
      using assms by (auto simp: delivered_def split: option.splits)
    show ?thesis
    proof (cases "r AND 0x21 = 0")
      case False
      then have "dat = bdata (bufs s ! b)" "st = rs" "ds = ide_data s" using assms True w by (simp_all add: delivered_def)
      then show ?thesis using True False w by (simp add: idefetch_def idewait_def option_run same)
    next
      case ok: True
      then obtain d where "ide_data s = d # ds" "dat = d" "st = rs"
        using assms True w by (auto simp: delivered_def split: list.splits)
      then show ?thesis using True ok w by (simp add: idefetch_def idewait_def insl_def option_run)
    qed
  qed
qed

text \<open>
  C13. The interrupt handler serves the requests in the order of the queue. It takes the first
  buffer off the queue, fills it with the block that the controller has for a read, marks it valid and
  clean, wakes exactly the processes that wait for it, and starts the request of the buffer that is
  now first, if there is one, by writing its sector and command to the controller. Where the
  controller reports an error for a read, the buffer keeps its old data and is marked valid all the same.
\<close>

theorem ideintr_serves_first:
  assumes a: "at_rest c i s" and q: "ide_queue s (b # bs)" and b: "length (bufs s) = NBUF + 1"
    and d: "delivered (ide_status s) (ide_data s) (bufs s ! b) = Some (dat, st, ds)"
    and nxt: "bs \<noteq> [] \<Longrightarrow> bblockno (bufs s ! hd bs) < FSSIZE \<and> wait_ready st = Some (r', rs)"
  shows "\<exists>t. ideintr e s = Ret () e t \<and> ide_queue t bs \<and> at_rest c i t
    \<and> bdata (bufs t ! b) = dat \<and> finished (bufs t ! b) \<and> (\<forall>b'. b' \<noteq> b \<longrightarrow> bufs t ! b' = bufs s ! b')
    \<and> procs t = map (wake (Some (BufChan b))) (procs s)
    \<and> ide_ports t = ide_ports s @ (if bs = [] then [] else request (bufs s ! hd bs))"
proof -
  let ?u = "s\<lparr>cpus := deeper c (cpus s), intr_on := False, locks := (locks s)(IDE_LOCK := lk_take c (locks s IDE_LOCK))\<rparr>"
  let ?X = "(bufs s ! b)\<lparr>bdata := dat, bflags := (bflags (bufs s ! b) OR B_VALID) AND NOT B_DIRTY\<rparr>"
  let ?more = "if bs = [] then [] else request (bufs s ! hd bs)"
  let ?t = "s\<lparr>procs := map (wake (Some (BufChan b))) (procs s), bufs := (bufs s)[b := ?X], idequeue := qnext s b,
    ide_status := if bs = [] then st else rs, ide_data := ds, ide_ports := ide_ports s @ ?more\<rparr>"
  note r = at_restD [OF a]
  have b30: "b < length (bufs s)" "idequeue s = Some b" "b \<notin> set bs" "qchain (qnext s) (qnext s b) bs"
    using q b by (auto simp: ide_queue_def)
  have hd: "qnext s b = (if bs = [] then None else Some (hd bs))" using b30(4) by (cases bs) auto
  have other: "bs \<noteq> [] \<Longrightarrow> hd bs \<noteq> b" using b30(3) by (cases bs) auto
  have f: "idefetch b (bflags (bufs s ! b)) e (?u\<lparr>idequeue := qnext s b\<rparr>)
    = Ret () e (bupd b (\<lambda>x. x\<lparr>bdata := dat\<rparr>) (?u\<lparr>idequeue := qnext s b, ide_status := st, ide_data := ds\<rparr>))"
    using idefetch_run [of "?u\<lparr>idequeue := qnext s b\<rparr>" b dat st ds e] d by simp
  have "ideintr e s = Ret () e ?t"
  proof (cases "bs = []")
    case True
    then show ?thesis
      using r b30 hd f
      by (simp add: ideintr_def acquire_run [where c = c] option_run bupd_def wakeup_run [where c = c] cpu_ok_deeper
          release_section [where c = c and s = s])
  next
    case False
    then have n: "bblockno (bufs s ! hd bs) < FSSIZE" "wait_ready st = Some (r', rs)" "hd bs \<noteq> b" using nxt other by auto
    then show ?thesis
      using r b30 hd f False
      by (simp add: ideintr_def acquire_run [where c = c] option_run bupd_def wakeup_run [where c = c] cpu_ok_deeper
          idestart_run [where r = r' and rs = rs] release_section [where c = c and s = s])
  qed
  moreover have "ide_queue ?t bs" using q by (simp add: ide_queue_def)
  moreover have "at_rest c i ?t" using a by (simp add: at_rest_def)
  moreover have "finished ?X" using flags_finished [of "(bufs s ! b)\<lparr>bdata := dat\<rparr>"] by (simp add: finished_def)
  ultimately show ?thesis using b30(1) by (intro exI [of _ ?t]) simp
qed
lemma wait_asleep:
  assumes a: "at_rest c i w" and i: "ncli (cpus w ! c) = 0" "i < length (procs w)" and b: "\<not> finished (bufs w ! b)"
  shows "await_disk b []
      (w\<lparr>cpus := deeper c (cpus w), intr_on := False, locks := (locks w)(IDE_LOCK := lk_take c (locks w IDE_LOCK))\<rparr>)
    = Asleep (asleep_state c i (BufChan b) IDE_LOCK
        (w\<lparr>cpus := deeper c (cpus w), intr_on := False, locks := (locks w)(IDE_LOCK := lk_take c (locks w IDE_LOCK))\<rparr>))"
  using sleep_in_section [OF a i, of IDE_LOCK "BufChan b"] b by (simp add: await_disk_def kloop_def)


section \<open>Instances\<close>

text \<open>Buffer 3 is to be read from block 10, buffer 7 to be written to block 11.\<close>

definition two_requests :: "nat \<Rightarrow> buf" where
  "two_requests b = (if b = 3 then blank\<lparr>bblockno := 10, refcnt := 1\<rparr>
     else if b = 7 then blank\<lparr>bblockno := 11, refcnt := 1, bflags := 4\<rparr> else blank)"

definition boot_ide :: "nat option \<Rightarrow> (nat \<Rightarrow> nat option) \<Rightarrow> ide" where
  "boot_ide q nx = bcache.extend (boot two_requests {3, 7})
     \<lparr>idequeue = q, qnext = nx, havedisk1 = False, ide_status = [0x80, 0x40, 0x40], ide_data = [replicate 512 5], ide_ports = []\<rparr>"

lemma boot_ide_facts [simp]:
  "at_rest 0 0 (boot_ide q nx)" "length (bufs (boot_ide q nx)) = 31"
  "bufs (boot_ide q nx) ! 3 = blank\<lparr>bblockno := 10, refcnt := 1, prev := 4, next_buf := 2\<rparr>"
  "bufs (boot_ide q nx) ! 7 = blank\<lparr>bblockno := 11, refcnt := 1, bflags := 4, prev := 8, next_buf := 6\<rparr>"
  "idequeue (boot_ide q nx) = q" "qnext (boot_ide q nx) = nx" "ide_status (boot_ide q nx) = [0x80, 0x40, 0x40]"
  "ide_data (boot_ide q nx) = [replicate 512 5]" "ide_ports (boot_ide q nx) = []"
  "ncli (cpus (boot_ide q nx) ! 0) = 0" "length (procs (boot_ide q nx)) = 64"
  "sl_locked (slocks (boot_ide q nx) (BufSleep 7))"
  using boot_at_rest [of two_requests "{3, 7}"]
  by (simp_all add: at_rest_def boot_ide_def bcache.defs linked_def two_requests_def one_cpu_def two_procs_slots boot_def ptable.defs
      sltable.defs)

theorem ideintr_serves_first_witness:
  "\<exists>t. ideintr [] (boot_ide (Some 3) [3 \<mapsto> 7]) = Ret () [] t \<and> ide_queue t [7]
    \<and> bdata (bufs t ! 3) = replicate 512 5 \<and> finished (bufs t ! 3) \<and> last (ide_ports t) = OutSL zeros"
proof -
  let ?s = "boot_ide (Some 3) [3 \<mapsto> 7]"
  have q: "ide_queue ?s (3 # [7])" by (simp add: ide_queue_def)
  have d: "delivered (ide_status ?s) (ide_data ?s) (bufs ?s ! 3) = Some (replicate 512 5, [0x40], [])"
    by (simp add: delivered_def ready_def blank_def)
  have w: "wait_ready [0x40] = Some (0x40, [])" by (simp add: ready_def)
  show ?thesis
    using ideintr_serves_first [OF boot_ide_facts(1) q _ d, of "0x40" "[]" "[]"] w
    by (auto simp: request_def blank_def)
qed


end
