(* ===== verification/Grep.thy ===== *)
theory Grep
  imports Main
begin

text \<open>
  The user program \<open>grep\<close> (\<^verbatim>\<open>grep.c\<close>): its pattern matcher, and the loop that reads a file
  through a buffer and prints the lines that match. A C string is the list of its characters
  without the final zero, so the end of the list is the zero that the code tests for.
\<close>

section \<open>Matching\<close>

text \<open>
  The head of \<open>re\<close> is \<open>re[0]\<close>, and the head of its tail \<open>re[1]\<close>. The loop of \<open>matchstar\<close>
  tests the rest of the pattern, then goes on over a character that the starred one accepts.
\<close>

function matchhere :: "string \<Rightarrow> string \<Rightarrow> bool" and matchstar :: "char \<Rightarrow> string \<Rightarrow> string \<Rightarrow> bool" where
  "matchhere re s =
     (case re of
        [] \<Rightarrow> True
      | c # re1 \<Rightarrow>
          if re1 \<noteq> [] \<and> hd re1 = CHR ''*'' then matchstar c (tl re1) s
          else if c = CHR ''$'' \<and> re1 = [] then s = []
          else (case s of [] \<Rightarrow> False | t # ts \<Rightarrow> (c = CHR ''.'' \<or> c = t) \<and> matchhere re1 ts))"
| "matchstar c re s =
     (matchhere re s \<or> (case s of [] \<Rightarrow> False | t # ts \<Rightarrow> (t = c \<or> c = CHR ''.'') \<and> matchstar c re ts))"
  by pat_completeness auto
termination
  by (relation "measure (\<lambda>x. case x of Inl (re, s) \<Rightarrow> length re + length s
        | Inr (c, re, s) \<Rightarrow> Suc (length re + length s))") (auto simp: neq_Nil_conv)

declare matchhere.simps [simp del] matchstar.simps [simp del]

text \<open>The \<open>do\<close> loop of \<open>match\<close> looks at every suffix of the s, the empty one included.\<close>

fun match_from :: "string \<Rightarrow> string \<Rightarrow> bool" where
  "match_from re [] = matchhere re []"
| "match_from re (t # s) = (matchhere re (t # s) \<or> match_from re s)"

definition match :: "string \<Rightarrow> string \<Rightarrow> bool" where
  "match re s = (if re \<noteq> [] \<and> hd re = CHR ''^'' then matchhere (tl re) s else match_from re s)"

section \<open>Lines\<close>

text \<open>
  The inner loop of \<open>grep\<close>: \<open>p\<close> is the rest of the buffer. It yields what is written, and
  the rest after the last newline.
\<close>

function print_lines :: "string \<Rightarrow> string \<Rightarrow> string \<times> string" where
  "print_lines pattern p =
     (case dropWhile (\<lambda>c. c \<noteq> CHR 0x0A) p of
        [] \<Rightarrow> ([], p)
      | q # rest \<Rightarrow>
          (let line = takeWhile (\<lambda>c. c \<noteq> CHR 0x0A) p; (out, left) = print_lines pattern rest in
           ((if match pattern line then line @ [CHR 0x0A] else []) @ out, left)))"
  by pat_completeness auto
termination
proof (relation "measure (length \<circ> snd)", goal_cases)
  case (2 pattern p q rest)
  then have "length (dropWhile (\<lambda>c. c \<noteq> CHR 0x0A) p) = Suc (length rest)" by simp
  then show ?case using length_dropWhile_le [of "\<lambda>c. c \<noteq> CHR 0x0A" p] by simp
qed simp

text \<open>
  What the system call \<open>read\<close> gives to a program: \<open>k\<close> bytes were asked for, and the input
  arrives in the pieces \<open>cs\<close>. A read returns at most one piece, and nothing at the end.
\<close>

fun read_some :: "nat \<Rightarrow> string list \<Rightarrow> string \<times> string list" where
  "read_some k [] = ([], [])"
| "read_some k (c # cs) = (take k c, if length c \<le> k then cs else drop k c # cs)"

text \<open>
  The outer loop, with the \<open>m\<close> bytes \<open>kept\<close> in the buffer of 1024. When the buffer has no
  newline (\<open>p == buf\<close>) all of it is dropped.
\<close>

abbreviation (input) BUFSIZE :: nat where "BUFSIZE \<equiv> 1024"

definition keep :: "string \<Rightarrow> string \<Rightarrow> string" where
  "keep buf left = (if length left = length buf then [] else left)"

lemma read_some_less:
  assumes "(got, cs') = read_some k cs" "got \<noteq> []"
  shows "length (concat cs') < length (concat cs)"
  using assms by (cases cs) (auto split: if_splits)

function grep_loop :: "string \<Rightarrow> string \<Rightarrow> string list \<Rightarrow> string" where
  "grep_loop pattern kept cs =
     (let (got, cs') = read_some (BUFSIZE - length kept - 1) cs in
      if got = [] then []
      else
        (let (out, left) = print_lines pattern (kept @ got) in
         out @ grep_loop pattern (keep (kept @ got) left) cs'))"
  by pat_completeness auto

termination
proof (relation "measure (\<lambda>(pattern, kept, cs). length (concat cs))", goal_cases)
  case (2 pattern kept cs x got cs')
  then show ?case using read_some_less [of got cs' "BUFSIZE - length kept - 1" cs] by simp
qed simp

definition grep :: "string \<Rightarrow> string list \<Rightarrow> string" where
  "grep pattern cs = grep_loop pattern [] cs"

text \<open>
  The program: \<open>args\<close> are \<open>argv[1]\<close> and so on, \<open>files\<close> says what \<open>open\<close> finds under a name, and
  the result is what is written to each descriptor.
\<close>

fun grep_files :: "string \<Rightarrow> (string \<Rightarrow> string list option) \<Rightarrow> string list \<Rightarrow> (nat \<times> string) list" where
  "grep_files pattern files [] = []"
| "grep_files pattern files (f # fs) =
     (case files f of
        None \<Rightarrow> [(1, ''grep: cannot open '' @ f @ [CHR 0x0A])]
      | Some cs \<Rightarrow> (1, grep pattern cs) # grep_files pattern files fs)"

fun grep_main :: "string list \<Rightarrow> (string \<Rightarrow> string list option) \<Rightarrow> string list \<Rightarrow> (nat \<times> string) list" where
  "grep_main [] files stdin = [(2, ''usage: grep pattern [file ...]'' @ [CHR 0x0A])]"
| "grep_main [pattern] files stdin = [(1, grep pattern stdin)]"
| "grep_main (pattern # fs) files stdin = grep_files pattern files fs"

declare print_lines.simps [simp del] grep_loop.simps [simp del]

section \<open>Regular expressions\<close>

text \<open>The reference: regular expressions over sets of characters, and their languages.\<close>

datatype rexp = Eps | Sym "char \<Rightarrow> bool" | Conc rexp rexp | Star rexp

fun lang :: "rexp \<Rightarrow> string set" where
  "lang Eps = {[]}"
| "lang (Sym p) = {[c] | c. p c}"
| "lang (Conc r s) = {u @ v | u v. u \<in> lang r \<and> v \<in> lang s}"
| "lang (Star r) = {concat us | us. set us \<subseteq> lang r}"

definition accepts :: "char \<Rightarrow> char \<Rightarrow> bool" where
  "accepts c t \<longleftrightarrow> c = CHR ''.'' \<or> c = t"

text \<open>
  The regular expression of a pattern without its anchors: a character or \<open>.\<close> stands for
  itself or for any character, and a star after it for repetition.
\<close>

function regex :: "string \<Rightarrow> rexp" where
  "regex re =
     (case re of
        [] \<Rightarrow> Eps
      | c # re1 \<Rightarrow>
          if re1 \<noteq> [] \<and> hd re1 = CHR ''*'' then Conc (Star (Sym (accepts c))) (regex (tl re1))
          else if c = CHR ''$'' \<and> re1 = [] then Eps
          else Conc (Sym (accepts c)) (regex re1))"
  by pat_completeness auto
termination
  by (relation "measure length") (auto simp: neq_Nil_conv)

function at_end :: "string \<Rightarrow> bool" where
  "at_end re =
     (case re of
        [] \<Rightarrow> False
      | c # re1 \<Rightarrow>
          if re1 \<noteq> [] \<and> hd re1 = CHR ''*'' then at_end (tl re1)
          else if c = CHR ''$'' \<and> re1 = [] then True
          else at_end re1)"
  by pat_completeness auto
termination
  by (relation "measure length") (auto simp: neq_Nil_conv)

declare regex.simps [simp del] at_end.simps [simp del]

lemma lang_star_sym: "lang (Star (Sym p)) = {w. list_all p w}"
proof -
  have "list_all p (concat us)" if "set us \<subseteq> lang (Sym p)" for us
    using that by (induction us) auto
  moreover have "\<exists>us. w = concat us \<and> set us \<subseteq> lang (Sym p)" if "list_all p w" for w
    using that by (intro exI [of _ "map (\<lambda>c. [c]) w"]) (auto simp: list_all_iff)
  ultimately show ?thesis by auto
qed

text \<open>A pattern matches at the beginning of a text.\<close>

definition matches_prefix :: "string \<Rightarrow> string \<Rightarrow> bool" where
  "matches_prefix re s \<longleftrightarrow> (\<exists>v w. s = v @ w \<and> v \<in> lang (regex re) \<and> (at_end re \<longrightarrow> w = []))"

definition star_prefix :: "char \<Rightarrow> string \<Rightarrow> string \<Rightarrow> bool" where
  "star_prefix c re s \<longleftrightarrow> (\<exists>u v. s = u @ v \<and> list_all (accepts c) u \<and> matches_prefix re v)"

lemma star_prefix_Nil: "star_prefix c re [] \<longleftrightarrow> matches_prefix re []"
  by (simp add: star_prefix_def)

lemma matches_prefix_Nil: "matches_prefix [] s"
  by (simp add: matches_prefix_def regex.simps [of "[]"] at_end.simps [of "[]"])

lemma matches_prefix_end: "matches_prefix [CHR ''$''] s \<longleftrightarrow> s = []"
  by (simp add: matches_prefix_def regex.simps [of "[CHR ''$'']"] at_end.simps [of "[CHR ''$'']"])

lemma matches_prefix_star:
  assumes "re1 \<noteq> []" "hd re1 = CHR ''*''"
  shows "matches_prefix (c # re1) s \<longleftrightarrow> star_prefix c (tl re1) s"
proof -
  have eq: "regex (c # re1) = Conc (Star (Sym (accepts c))) (regex (tl re1))" "at_end (c # re1) = at_end (tl re1)"
    using assms by (simp_all add: regex.simps [of "c # re1"] at_end.simps [of "c # re1"])
  show ?thesis
  proof
    assume "matches_prefix (c # re1) s"
    then obtain x y w where "s = (x @ y) @ w" "list_all (accepts c) x" "y \<in> lang (regex (tl re1))" "at_end (tl re1) \<longrightarrow> w = []"
      unfolding matches_prefix_def eq lang.simps(3) lang_star_sym by blast
    then show "star_prefix c (tl re1) s" by (auto simp: star_prefix_def matches_prefix_def)
  next
    assume "star_prefix c (tl re1) s"
    then obtain x y w where "s = x @ y @ w" "list_all (accepts c) x" "y \<in> lang (regex (tl re1))" "at_end (tl re1) \<longrightarrow> w = []"
      unfolding star_prefix_def matches_prefix_def by blast
    then show "matches_prefix (c # re1) s"
      unfolding matches_prefix_def eq lang.simps(3) lang_star_sym
      by (intro exI [of _ "x @ y"] exI [of _ w]) auto
  qed
qed

lemma matches_prefix_plain:
  assumes "\<not> (re1 \<noteq> [] \<and> hd re1 = CHR ''*'')" "\<not> (c = CHR ''$'' \<and> re1 = [])"
  shows "matches_prefix (c # re1) s \<longleftrightarrow> (case s of [] \<Rightarrow> False | t # ts \<Rightarrow> accepts c t \<and> matches_prefix re1 ts)"
proof -
  have eq: "regex (c # re1) = Conc (Sym (accepts c)) (regex re1)" "at_end (c # re1) = at_end re1"
    using assms by (auto simp: regex.simps [of "c # re1"] at_end.simps [of "c # re1"])
  have l: "x \<in> lang (Conc (Sym (accepts c)) r) \<longleftrightarrow> (\<exists>t y. x = t # y \<and> accepts c t \<and> y \<in> lang r)" for x r
    by auto (metis append_Cons append_Nil)
  show ?thesis
  proof (cases s)
    case (Cons a b)
    have "matches_prefix (c # re1) (a # b) \<longleftrightarrow>
        (\<exists>y w. b = y @ w \<and> accepts c a \<and> y \<in> lang (regex re1) \<and> (at_end re1 \<longrightarrow> w = []))"
      (is "?L = ?R")
    proof
      assume ?L
      then obtain v w t y where "a # b = v @ w" "v = t # y" "accepts c t" "y \<in> lang (regex re1)" "at_end re1 \<longrightarrow> w = []"
        unfolding matches_prefix_def eq l by blast
      then show ?R by (intro exI [of _ y] exI [of _ w]) simp
    next
      assume ?R
      then obtain y w where "b = y @ w" "accepts c a" "y \<in> lang (regex re1)" "at_end re1 \<longrightarrow> w = []" by blast
      then show ?L unfolding matches_prefix_def eq l by (intro exI [of _ "a # y"] exI [of _ w]) simp
    qed
    then show ?thesis using Cons by (auto simp: matches_prefix_def)
  qed (simp add: matches_prefix_def eq)
qed

lemma star_prefix_Cons:
  "star_prefix c re (t # s) \<longleftrightarrow> matches_prefix re (t # s) \<or> accepts c t \<and> star_prefix c re s"
proof
  assume "star_prefix c re (t # s)"
  then obtain u v where "t # s = u @ v" "list_all (accepts c) u" "matches_prefix re v" by (auto simp: star_prefix_def)
  then show "matches_prefix re (t # s) \<or> accepts c t \<and> star_prefix c re s"
    by (cases u) (auto simp: star_prefix_def)
next
  assume "matches_prefix re (t # s) \<or> accepts c t \<and> star_prefix c re s"
  then show "star_prefix c re (t # s)"
  proof
    assume "matches_prefix re (t # s)"
    then show ?thesis unfolding star_prefix_def by (intro exI [of _ "[]"] exI [of _ "t # s"]) simp
  next
    assume "accepts c t \<and> star_prefix c re s"
    then obtain u v where "s = u @ v" "list_all (accepts c) u" "matches_prefix re v" "accepts c t"
      by (auto simp: star_prefix_def)
    then show ?thesis unfolding star_prefix_def by (intro exI [of _ "t # u"] exI [of _ v]) simp
  qed
qed

lemma matchhere_prefix:
  "matchhere re s \<longleftrightarrow> matches_prefix re s"
  "matchstar c re s \<longleftrightarrow> star_prefix c re s"
proof (induction re s and c re s rule: matchhere_matchstar.induct)
  case (1 re s)
  show ?case
  proof (cases re)
    case (Cons c re1)
    consider "re1 \<noteq> []" "hd re1 = CHR ''*''" | "c = CHR ''$''" "re1 = []"
      | "\<not> (re1 \<noteq> [] \<and> hd re1 = CHR ''*'')" "\<not> (c = CHR ''$'' \<and> re1 = [])" by blast
    then show ?thesis
    proof cases
      case 3
      then have "matchhere (c # re1) s = (case s of [] \<Rightarrow> False | t # ts \<Rightarrow> accepts c t \<and> matchhere re1 ts)"
        by (auto simp: matchhere.simps [of "c # re1"] accepts_def split: list.split)
      also have "\<dots> = matches_prefix (c # re1) s"
        using 1(2) [OF Cons 3] matches_prefix_plain [OF 3] by (auto simp: accepts_def split: list.split)
      finally show ?thesis using Cons by simp
    qed (use 1(1) Cons in \<open>simp_all add: matchhere.simps [of "c # re1"] matchhere.simps [of "[CHR ''$'']"]
        matches_prefix_star matches_prefix_end\<close>)
  qed (simp add: matchhere.simps [of "[]"] matches_prefix_Nil)
next
  case (2 c re s)
  then show ?case
    by (subst matchstar.simps; cases s) (auto simp: star_prefix_Cons star_prefix_Nil accepts_def)
qed

lemma split_Cons: "(\<exists>u v. t # s = u @ v \<and> P v) \<longleftrightarrow> P (t # s) \<or> (\<exists>u v. s = u @ v \<and> P v)"
  by (auto simp: Cons_eq_append_conv)

lemma match_from_iff: "match_from re s \<longleftrightarrow> (\<exists>u v. s = u @ v \<and> matches_prefix re v)"
  by (induction s) (simp_all only: match_from.simps split_Cons matchhere_prefix, simp)

section \<open>Properties\<close>

text \<open>The anchor in front, and the pattern without it.\<close>

definition at_begin :: "string \<Rightarrow> bool" where
  "at_begin re \<longleftrightarrow> re \<noteq> [] \<and> hd re = CHR ''^''"

definition body :: "string \<Rightarrow> string" where
  "body re = (if at_begin re then tl re else re)"

text \<open>
  C10. The recursive matcher of \<open>grep\<close> decides regular expressions: \<open>match\<close> accepts a s
  exactly if some part of it is in the language of the pattern's regular expression, a part
  at the beginning if the pattern starts with a caret, and a part at the end if it ends with
  a dollar sign.
\<close>

theorem match_regular:
  "match re s \<longleftrightarrow> (\<exists>u v w. s = u @ v @ w \<and> v \<in> lang (regex (body re))
     \<and> (if at_begin re then u = [] else True) \<and> (if at_end (body re) then w = [] else True))"
  by (cases "at_begin re")
     (auto simp: match_def matchhere_prefix match_from_iff matches_prefix_def body_def simp flip: at_begin_def)

text \<open>The lines of a text that ends with a newline.\<close>

fun lines :: "string \<Rightarrow> string \<Rightarrow> string list" where
  "lines cur [] = []"
| "lines cur (c # cs) = (if c = CHR 0x0A then cur # lines [] cs else lines (cur @ [c]) cs)"

definition matching :: "string \<Rightarrow> string list \<Rightarrow> string" where
  "matching pattern ls = concat (map (\<lambda>l. l @ [CHR 0x0A]) (filter (match pattern) ls))"

lemma lines_append_line: "CHR 0x0A \<notin> set l \<Longrightarrow> lines cur (l @ CHR 0x0A # rest) = (cur @ l) # lines [] rest"
  by (induction l arbitrary: cur) auto

lemma lines_append: "lines cur (xs @ CHR 0x0A # ys) = lines cur (xs @ [CHR 0x0A]) @ lines [] ys"
  by (induction xs arbitrary: cur) auto

lemma print_lines_all:
  assumes "p = [] \<or> last p = CHR 0x0A"
  shows "print_lines pattern p = (matching pattern (lines [] p), [])"
  using assms
proof (induction pattern p rule: print_lines.induct)
  case (1 pattern p)
  show ?case
  proof (cases "dropWhile (\<lambda>c. c \<noteq> CHR 0x0A) p")
    case Nil
    then have "p = []" using 1(2) last_in_set by (auto simp: dropWhile_eq_Nil_conv)
    then show ?thesis by (simp add: print_lines.simps [of pattern] matching_def)
  next
    case (Cons q rest)
    let ?l = "takeWhile (\<lambda>c. c \<noteq> CHR 0x0A) p"
    have q: "q = CHR 0x0A" using hd_dropWhile [of "\<lambda>c. c \<noteq> CHR 0x0A" p] Cons by simp
    have p: "p = ?l @ CHR 0x0A # rest" using takeWhile_dropWhile_id [of "\<lambda>c. c \<noteq> CHR 0x0A" p] Cons q by simp
    have "CHR 0x0A \<notin> set ?l" by (auto dest: set_takeWhileD)
    then have l: "lines [] p = ?l # lines [] rest" using lines_append_line [of ?l "[]" rest] p by simp
    have "rest = [] \<or> last rest = CHR 0x0A" using 1(2) p by (metis append_is_Nil_conv last_appendR last.simps list.distinct(1))
    then have "print_lines pattern rest = (matching pattern (lines [] rest), [])" using 1(1) [OF Cons] by simp
    then show ?thesis by (simp add: print_lines.simps [of pattern p] Cons l matching_def)
  qed
qed



end
