(* ===== verification/Shell.thy ===== *)
theory Shell
  imports Main
begin

text \<open>
  The shell (\<^verbatim>\<open>sh.c\<close>): its lexer and recursive descent parser, the termination of the words in
  the line buffer, and the system calls that running a command makes. Pointers into the line
  are positions; the line is the list of its characters without the final zero.
\<close>

section \<open>Commands\<close>

abbreviation (input) MAXARGS :: nat where "MAXARGS \<equiv> 10"
abbreviation (input) O_RDONLY :: nat where "O_RDONLY \<equiv> 0"
abbreviation (input) O_WRONLY :: nat where "O_WRONLY \<equiv> 1"
abbreviation (input) O_RDWR :: nat where "O_RDWR \<equiv> 2"
abbreviation (input) O_CREATE :: nat where "O_CREATE \<equiv> 0x200"

text \<open>A word of the line: the positions of its begin and of its end.\<close>

type_synonym word_at = "nat \<times> nat"

datatype cmd =
    ExecCmd "word_at list"
  | RedirCmd cmd word_at nat nat
  | PipeCmd cmd cmd
  | ListCmd cmd cmd
  | BackCmd cmd

datatype parse_error = Syntax string | OutOfFuel

section \<open>Tokens\<close>

text \<open>\<open>s[i]\<close>, with the zero at the end of the line.\<close>

definition char_at :: "string \<Rightarrow> nat \<Rightarrow> char" where
  "char_at s i = (if i < length s then s ! i else CHR 0x00)"

definition whitespace :: string where
  "whitespace = [CHR '' '', CHR 0x09, CHR 0x0D, CHR 0x0A, CHR 0x0B]"

definition symbols :: string where
  "symbols = ''<|>&;()''"

function skip_ws :: "string \<Rightarrow> nat \<Rightarrow> nat" where
  "skip_ws s i = (if i < length s \<and> s ! i \<in> set whitespace then skip_ws s (i + 1) else i)"
  by pat_completeness auto
termination
  by (relation "measure (\<lambda>(s, i). length s - i)") auto

definition plain :: "char \<Rightarrow> bool" where
  "plain c \<longleftrightarrow> c \<notin> set whitespace \<and> c \<notin> set symbols"

function word_end :: "string \<Rightarrow> nat \<Rightarrow> nat" where
  "word_end s i = (if i < length s \<and> plain (s ! i) then word_end s (i + 1) else i)"
  by pat_completeness auto
termination
  by (relation "measure (\<lambda>(s, i). length s - i)") auto

declare skip_ws.simps [simp del] word_end.simps [simp del]

text \<open>\<open>gettoken\<close> yields the token, the word's position and the position after it.\<close>

definition gettoken :: "string \<Rightarrow> nat \<Rightarrow> char \<times> word_at \<times> nat" where
  "gettoken s ps =
     (let q = skip_ws s ps; c = char_at s q;
          (ret, eq) =
            (if c = CHR 0x00 then (c, q)
             else if c \<in> set ''|();&<'' then (c, q + 1)
             else if c = CHR ''>'' then
               (if char_at s (q + 1) = CHR ''>'' then (CHR ''+'', q + 2) else (c, q + 1))
             else (CHR ''a'', word_end s q))
      in (ret, (q, eq), skip_ws s eq))"

definition peek :: "string \<Rightarrow> nat \<Rightarrow> string \<Rightarrow> bool \<times> nat" where
  "peek s ps toks =
     (let i = skip_ws s ps; c = char_at s i in (c \<noteq> CHR 0x00 \<and> c \<in> set toks, i))"

abbreviation (input) peeks :: "string \<Rightarrow> nat \<Rightarrow> string \<Rightarrow> bool" where
  "peeks s ps toks \<equiv> fst (peek s ps toks)"

subsection \<open>Progress\<close>

lemma skip_ws_le: "i \<le> skip_ws s i"
  by (induction s i rule: skip_ws.induct) (subst skip_ws.simps, auto)

lemma skip_ws_bound: "i \<le> length s \<Longrightarrow> skip_ws s i \<le> length s"
  by (induction s i rule: skip_ws.induct) (subst skip_ws.simps, auto)

lemma skip_ws_stop: "skip_ws s i < length s \<Longrightarrow> s ! skip_ws s i \<notin> set whitespace"
  by (induction s i rule: skip_ws.induct) (subst skip_ws.simps, subst (asm) (2) skip_ws.simps, auto split: if_splits)

lemma word_end_le: "i \<le> word_end s i"
  by (induction s i rule: word_end.induct) (subst word_end.simps, auto)

lemma word_end_bound: "i \<le> length s \<Longrightarrow> word_end s i \<le> length s"
  by (induction s i rule: word_end.induct) (subst word_end.simps, auto)

text \<open>A word of the line: nothing in it is special, and it ends before a special character or with the line.\<close>

definition word_ok :: "string \<Rightarrow> word_at \<Rightarrow> bool" where
  "word_ok s w \<longleftrightarrow> (case w of (q, e) \<Rightarrow>
     q < e \<and> e \<le> length s \<and> (\<forall>i. q \<le> i \<and> i < e \<longrightarrow> plain (s ! i)) \<and> (e < length s \<longrightarrow> \<not> plain (s ! e)))"

lemma word_end_ok: "i < length s \<Longrightarrow> plain (s ! i) \<Longrightarrow> word_ok s (i, word_end s i)"
proof (induction s i rule: word_end.induct)
  case (1 s i)
  have eq: "word_end s i = word_end s (i + 1)" using 1(2,3) by (subst word_end.simps) simp
  show ?case
  proof (cases "i + 1 < length s \<and> plain (s ! (i + 1))")
    case True
    then have "word_ok s (i + 1, word_end s (i + 1))" using 1 by simp
    moreover have "plain (s ! j)" if "i \<le> j" "j < word_end s (i + 1)" for j
      using that 1(3) calculation by (cases "j = i") (auto simp: word_ok_def)
    ultimately show ?thesis by (simp add: word_ok_def eq)
  next
    case False
    then have "word_end s (i + 1) = i + 1" by (subst word_end.simps) auto
    then show ?thesis using 1(2,3) False by (auto simp: word_ok_def eq less_Suc_eq)
  qed
qed

lemma gettoken_pos:
  assumes "gettoken s ps = (tok, (q, e), ps')" "ps \<le> length s"
  shows "ps \<le> q" "q \<le> e" "e \<le> ps'" "ps' \<le> length s" "tok \<noteq> CHR 0x00 \<Longrightarrow> q < ps'"
proof -
  let ?q = "skip_ws s ps"
  have q: "ps \<le> ?q" "?q \<le> length s" using skip_ws_le skip_ws_bound assms(2) by blast+
  have g: "q = ?q" "ps' = skip_ws s e" using assms(1) by (auto simp: gettoken_def Let_def split: prod.splits)
  have "?q \<le> e \<and> e \<le> length s \<and> (tok = CHR 0x00 \<or> ?q < e)"
  proof (cases "?q < length s")
    case False
    then show ?thesis using assms(1) q by (auto simp: gettoken_def Let_def char_at_def)
  next
    case True
    have w: "plain (s ! ?q) \<Longrightarrow> ?q < word_end s ?q \<and> word_end s ?q \<le> length s"
      using word_end_ok [OF True] by (simp add: word_ok_def)
    have "char_at s ?q \<noteq> CHR 0x00 \<Longrightarrow> char_at s ?q \<notin> set ''|();&<'' \<Longrightarrow> char_at s ?q \<noteq> CHR ''>'' \<Longrightarrow> plain (s ! ?q)"
      using skip_ws_stop [OF True] True by (auto simp: plain_def symbols_def char_at_def)
    then show ?thesis
      using assms(1) True w by (auto simp: gettoken_def Let_def char_at_def split: if_splits)
  qed
  then show "ps \<le> q" "q \<le> e" "e \<le> ps'" "ps' \<le> length s" "tok \<noteq> CHR 0x00 \<Longrightarrow> q < ps'"
    using q g skip_ws_le [of e s] skip_ws_bound [of e s] by auto
qed

lemma gettoken_word:
  assumes "gettoken s ps = (CHR ''a'', w, ps')"
  shows "word_ok s w"
proof -
  let ?q = "skip_ws s ps"
  have t: "?q < length s" using assms by (auto simp: gettoken_def Let_def char_at_def split: if_splits)
  have w: "w = (?q, word_end s ?q)" "char_at s ?q \<notin> set ''|();&<''" "char_at s ?q \<noteq> CHR ''>''"
    using assms by (auto simp: gettoken_def Let_def split: if_splits)
  then have "plain (s ! ?q)" using skip_ws_stop [OF t] t by (auto simp: plain_def symbols_def char_at_def)
  then show ?thesis using word_end_ok [OF t] w by simp
qed

lemma peek_pos:
  assumes "peek s ps toks = (hit, ps')"
  shows "ps \<le> ps'" "ps \<le> length s \<Longrightarrow> ps' \<le> length s"
    "hit \<Longrightarrow> ps' < length s \<and> s ! ps' \<in> set toks \<and> s ! ps' \<notin> set whitespace \<and> s ! ps' \<noteq> CHR 0x00"
  using assms skip_ws_le [of ps s] skip_ws_bound [of ps s] skip_ws_stop [of s ps]
  by (auto simp: peek_def Let_def char_at_def split: if_splits)

lemma skip_ws_id: "i < length s \<Longrightarrow> s ! i \<notin> set whitespace \<Longrightarrow> skip_ws s i = i"
  by (subst skip_ws.simps) simp

text \<open>A symbol that \<open>peek\<close> has seen is consumed by \<open>gettoken\<close>.\<close>

lemma peek_gettoken:
  assumes "peek s ps toks = (True, ps1)" "gettoken s ps1 = (tok, w, ps2)"
  shows "ps1 < ps2" "ps2 \<le> length s"
proof -
  note p = peek_pos [OF assms(1)]
  obtain q e where w: "w = (q, e)" by (cases w)
  have "tok \<noteq> CHR 0x00"
    using assms(2) skip_ws_id [of ps1 s] p
    by (auto simp: gettoken_def Let_def char_at_def split: if_splits)
  then show "ps1 < ps2" "ps2 \<le> length s"
    using gettoken_pos [OF assms(2) [unfolded w]] p by auto
qed

section \<open>Parser\<close>

text \<open>
  \<open>parseredirs\<close> and the loops of \<open>parseline\<close> and \<open>parseexec\<close>. A redirection wraps the command;
  the list has them from the inside out.
\<close>

definition redir_mode :: "char \<Rightarrow> nat \<times> nat" where
  "redir_mode tok =
     (if tok = CHR ''<'' then (O_RDONLY, 0)
      else if tok = CHR ''>'' then (O_WRONLY + O_CREATE, 1)
      else (O_WRONLY + O_CREATE, 1))"

type_synonym redir = "word_at \<times> nat \<times> nat"

definition redircmd :: "cmd \<Rightarrow> redir \<Rightarrow> cmd" where
  "redircmd c r = (case r of (w, mode, fd) \<Rightarrow> RedirCmd c w mode fd)"

text \<open>A redirection names a word of the line and is of standard input or output.\<close>

definition redir_ok :: "string \<Rightarrow> redir \<Rightarrow> bool" where
  "redir_ok s r \<longleftrightarrow> word_ok s (fst r) \<and> snd (snd r) \<le> 1"

lemma redir_progress:
  assumes "peek s ps ''<>'' = (True, ps1)" "gettoken s ps1 = (tok, w0, ps2)" "gettoken s ps2 = (tok2, w, ps3)"
  shows "ps < ps3" "ps3 \<le> length s" "length s - ps3 < length s - ps"
proof -
  obtain q e where "w = (q, e)" by (cases w)
  then show "ps < ps3" "ps3 \<le> length s" "length s - ps3 < length s - ps"
    using peek_pos(1) [OF assms(1)] peek_gettoken [OF assms(1,2)] gettoken_pos [of s ps2 tok2 q e ps3] assms(3) by auto
qed

function parseredirs :: "string \<Rightarrow> nat \<Rightarrow> parse_error + redir list \<times> nat" where
  "parseredirs s ps =
     (case peek s ps ''<>'' of
        (False, ps1) \<Rightarrow> Inr ([], ps1)
      | (True, ps1) \<Rightarrow>
          (case gettoken s ps1 of
             (tok, _, ps2) \<Rightarrow>
               (case gettoken s ps2 of
                  (tok2, w, ps3) \<Rightarrow>
                    if tok2 \<noteq> CHR ''a'' then Inl (Syntax ''missing file for redirection'')
                    else
                      (case parseredirs s ps3 of
                         Inl e \<Rightarrow> Inl e
                       | Inr (rs, ps4) \<Rightarrow> Inr ((w, redir_mode tok) # rs, ps4)))))"
  by pat_completeness auto

termination
  by (relation "measure (\<lambda>(s, ps). length s - ps)")
     (auto dest!: sym [of _ "peek _ _ _"] sym [of _ "gettoken _ _"] intro: redir_progress)

declare parseredirs.simps [simp del]

lemma parseredirs_ok:
  "parseredirs s ps = Inr (rs, ps') \<Longrightarrow>
    ps \<le> ps' \<and> (ps \<le> length s \<longrightarrow> ps' \<le> length s) \<and> (\<forall>r\<in>set rs. redir_ok s r)"
proof (induction s ps arbitrary: rs ps' rule: parseredirs.induct)
  case (1 s ps)
  obtain hit ps1 where pk: "peek s ps ''<>'' = (hit, ps1)" by (cases "peek s ps ''<>''")
  obtain tok w0 ps2 where g1: "gettoken s ps1 = (tok, w0, ps2)" by (cases "gettoken s ps1")
  obtain tok2 w ps3 where g2: "gettoken s ps2 = (tok2, w, ps3)" by (cases "gettoken s ps2")
  show ?case
  proof (cases hit)
    case False
    then show ?thesis using 1(2) peek_pos [OF pk] pk by (auto simp: parseredirs.simps [of s ps])
  next
    case True
    then have pk': "peek s ps ''<>'' = (True, ps1)" using pk by simp
    note pr = redir_progress [OF pk' g1 g2]
    have t2: "tok2 = CHR ''a''"
      using 1(2) True by (auto simp: parseredirs.simps [of s ps] pk g1 g2 split: if_splits)
    then obtain rs4 where rec: "parseredirs s ps3 = Inr (rs4, ps')" and rs: "rs = (w, redir_mode tok) # rs4"
      using 1(2) True by (auto simp: parseredirs.simps [of s ps] pk g1 g2 split: sum.splits)
    have "ps3 \<le> ps' \<and> (ps3 \<le> length s \<longrightarrow> ps' \<le> length s) \<and> (\<forall>r\<in>set rs4. redir_ok s r)"
      by (rule 1(1) [OF pk'[symmetric] refl g1 [symmetric] refl g2 [symmetric] refl _ rec]) (use t2 in simp)
    then show ?thesis using pr rs gettoken_word [of s ps2 w ps3] g2 t2 by (auto simp: redir_ok_def redir_mode_def)
  qed
qed

lemma parseredirs_fuel: "parseredirs s ps \<noteq> Inl OutOfFuel"
proof (induction s ps rule: parseredirs.induct)
  case (1 s ps)
  obtain hit ps1 where pk: "peek s ps ''<>'' = (hit, ps1)" by (cases "peek s ps ''<>''")
  obtain tok w0 ps2 where g1: "gettoken s ps1 = (tok, w0, ps2)" by (cases "gettoken s ps1")
  obtain tok2 w ps3 where g2: "gettoken s ps2 = (tok2, w, ps3)" by (cases "gettoken s ps2")
  have "parseredirs s ps3 \<noteq> Inl OutOfFuel" if "hit" "tok2 = CHR ''a''"
    by (rule 1 [OF pk [symmetric] _ g1 [symmetric] refl g2 [symmetric] refl]) (use that in simp_all)
  then show ?case
    by (cases hit) (auto simp: parseredirs.simps [of s ps] pk g1 g2 split: sum.splits)
qed

lemma gettoken_progress:
  assumes "gettoken s ps = (CHR ''a'', w, ps')"
  shows "ps < ps'" "ps' \<le> length s"
proof -
  obtain q e where w: "w = (q, e)" by (cases w)
  have "q < length s" "q = skip_ws s ps" using gettoken_word [OF assms] assms w
    by (auto simp: word_ok_def gettoken_def Let_def split: prod.splits)
  then have "ps \<le> length s" using skip_ws_le [of ps s] by simp
  then show "ps < ps'" "ps' \<le> length s" using gettoken_pos [OF assms [unfolded w]] by auto
qed

lemma arg_progress:
  assumes "peek s ps toks = (hit, ps1)" "gettoken s ps1 = (CHR ''a'', w, ps2)" "parseredirs s ps2 = Inr (rs, ps3)"
  shows "ps < ps3" "ps3 \<le> length s" "length s - ps3 < length s - ps"
  using peek_pos(1) [OF assms(1)] gettoken_progress [OF assms(2)] parseredirs_ok [OF assms(3)] by auto

text \<open>The loop of \<open>parseexec\<close>: the words and the redirections among them.\<close>

function parseargs :: "string \<Rightarrow> nat \<Rightarrow> nat \<Rightarrow> parse_error + word_at list \<times> redir list \<times> nat" where
  "parseargs s ps argc =
     (case peek s ps ''|)&;'' of
        (True, ps1) \<Rightarrow> Inr ([], [], ps1)
      | (False, ps1) \<Rightarrow>
          (case gettoken s ps1 of
             (tok, w, ps2) \<Rightarrow>
               if tok = CHR 0x00 then Inr ([], [], ps2)
               else if tok \<noteq> CHR ''a'' then Inl (Syntax ''syntax'')
               else if argc + 1 \<ge> MAXARGS then Inl (Syntax ''too many args'')
               else
                 (case parseredirs s ps2 of
                    Inl e \<Rightarrow> Inl e
                  | Inr (rs, ps3) \<Rightarrow>
                      (case parseargs s ps3 (argc + 1) of
                         Inl e \<Rightarrow> Inl e
                       | Inr (ws, rs', ps4) \<Rightarrow> Inr (w # ws, rs @ rs', ps4)))))"
  by pat_completeness auto

termination
  by (relation "measure (\<lambda>(s, ps, argc). length s - ps)")
     (auto dest!: sym [of _ "peek _ _ _"] sym [of _ "gettoken _ _"] intro: arg_progress)

declare parseargs.simps [simp del]

lemma parseargs_ok:
  "parseargs s ps argc = Inr (ws, rs, ps') \<Longrightarrow> argc < MAXARGS \<Longrightarrow> ps \<le> length s \<Longrightarrow>
    ps \<le> ps' \<and> ps' \<le> length s \<and> argc + length ws < MAXARGS
    \<and> (\<forall>w\<in>set ws. word_ok s w) \<and> (\<forall>r\<in>set rs. redir_ok s r)"
proof (induction s ps argc arbitrary: ws rs ps' rule: parseargs.induct)
  case (1 s ps argc)
  note run = 1(2) and hyp = 1(3,4)
  obtain hit ps1 where pk: "peek s ps ''|)&;'' = (hit, ps1)" by (cases "peek s ps ''|)&;''")
  obtain tok w ps2 where g: "gettoken s ps1 = (tok, w, ps2)" by (cases "gettoken s ps1")
  note p = peek_pos [OF pk]
  consider "hit" | "\<not> hit" "tok = CHR 0x00" | "\<not> hit" "tok = CHR ''a''"
    using run by (cases hit; cases "tok = CHR 0x00"; cases "tok = CHR ''a''") (auto simp: parseargs.simps [of s ps] pk g)
  then show ?case
  proof cases
    case 1
    then show ?thesis using run p pk hyp by (auto simp: parseargs.simps [of s ps])
  next
    case 2
    obtain q e where "w = (q, e)" by (cases w)
    then have "ps1 \<le> ps2 \<and> ps2 \<le> length s" using gettoken_pos [of s ps1 tok q e ps2] g p hyp by auto
    then show ?thesis using 2 run p pk g hyp by (auto simp: parseargs.simps [of s ps])
  next
    case 3
    obtain rs1 ps3 where r: "parseredirs s ps2 = Inr (rs1, ps3)" and argc: "argc + 1 < MAXARGS"
      using run 3 by (auto simp: parseargs.simps [of s ps] pk g split: sum.splits if_splits)
    obtain ws1 rs2 where a: "parseargs s ps3 (argc + 1) = Inr (ws1, rs2, ps')" and eq: "ws = w # ws1" "rs = rs1 @ rs2"
      using run 3 r argc by (auto simp: parseargs.simps [of s ps] pk g split: sum.splits)
    note pr = arg_progress [OF pk _ r, of w] 
    have b: "ps < ps3" "ps3 \<le> length s" using pr g 3 by auto
    have "ps3 \<le> ps' \<and> ps' \<le> length s \<and> argc + 1 + length ws1 < MAXARGS
      \<and> (\<forall>w\<in>set ws1. word_ok s w) \<and> (\<forall>r\<in>set rs2. redir_ok s r)"
      by (rule 1(1) [OF pk [symmetric] _ g [symmetric] refl _ _ _ r refl a]) (use 3 argc b in auto)
    then show ?thesis using b eq gettoken_word [of s ps1 w ps2] g 3 parseredirs_ok [OF r] by auto
  qed
qed

lemma parseargs_fuel: "parseargs s ps argc \<noteq> Inl OutOfFuel"
proof (induction s ps argc rule: parseargs.induct)
  case (1 s ps argc)
  obtain hit ps1 where pk: "peek s ps ''|)&;'' = (hit, ps1)" by (cases "peek s ps ''|)&;''")
  obtain tok w ps2 where g: "gettoken s ps1 = (tok, w, ps2)" by (cases "gettoken s ps1")
  have "parseargs s ps3 (argc + 1) \<noteq> Inl OutOfFuel"
    if "\<not> hit" "tok = CHR ''a''" "argc + 1 < MAXARGS" "parseredirs s ps2 = Inr (rs, ps3)" for rs ps3
    by (rule 1 [OF pk [symmetric] _ g [symmetric] refl _ _ _ that(4) refl]) (use that in simp_all)
  then show ?case
    using parseredirs_fuel [of s ps2]
    by (cases hit) (auto simp: parseargs.simps [of s ps] pk g split: sum.splits)
qed

lemma back_progress:
  assumes "peek s ps toks = (True, ps1)" "gettoken s ps1 = (tok, w, ps2)"
  shows "ps < ps2" "ps2 \<le> length s" "length s - ps2 < length s - ps"
  using peek_gettoken [OF assms] peek_pos(1) [OF assms(1)] by auto

text \<open>The first loop of \<open>parseline\<close>.\<close>

function parse_backs :: "string \<Rightarrow> nat \<Rightarrow> cmd \<Rightarrow> cmd \<times> nat" where
  "parse_backs s ps c =
     (case peek s ps ''&'' of
        (False, ps1) \<Rightarrow> (c, ps1)
      | (True, ps1) \<Rightarrow> (case gettoken s ps1 of (_, _, ps2) \<Rightarrow> parse_backs s ps2 (BackCmd c)))"
  by pat_completeness auto

termination
  by (relation "measure (\<lambda>(s, ps, c). length s - ps)")
     (auto dest!: sym [of _ "peek _ _ _"] sym [of _ "gettoken _ _"] intro: back_progress)

declare parse_backs.simps [simp del]

text \<open>
  The mutually recursive functions, with fuel \<open>n\<close>. The position of a recursive call comes
  out of a call before it, and is never smaller; \<open>parsecmd\<close> gives more fuel than they use.
\<close>

fun parseline :: "nat \<Rightarrow> string \<Rightarrow> nat \<Rightarrow> parse_error + cmd \<times> nat"
and parsepipe :: "nat \<Rightarrow> string \<Rightarrow> nat \<Rightarrow> parse_error + cmd \<times> nat"
and parseblock :: "nat \<Rightarrow> string \<Rightarrow> nat \<Rightarrow> parse_error + cmd \<times> nat"
and parseexec :: "nat \<Rightarrow> string \<Rightarrow> nat \<Rightarrow> parse_error + cmd \<times> nat" where
  "parseline 0 s ps = Inl OutOfFuel"
| "parseline (Suc n) s ps =
     (case parsepipe n s ps of
        Inl e \<Rightarrow> Inl e
      | Inr (c, ps1) \<Rightarrow>
          (case parse_backs s ps1 c of
             (c', ps2) \<Rightarrow>
               (case peek s ps2 '';'' of
                  (False, ps3) \<Rightarrow> Inr (c', ps3)
                | (True, ps3) \<Rightarrow>
                    (case gettoken s ps3 of
                       (_, _, ps4) \<Rightarrow>
                         (case parseline n s ps4 of
                            Inl e \<Rightarrow> Inl e
                          | Inr (d, ps5) \<Rightarrow> Inr (ListCmd c' d, ps5))))))"
| "parsepipe 0 s ps = Inl OutOfFuel"
| "parsepipe (Suc n) s ps =
     (case parseexec n s ps of
        Inl e \<Rightarrow> Inl e
      | Inr (c, ps1) \<Rightarrow>
          (case peek s ps1 ''|'' of
             (False, ps2) \<Rightarrow> Inr (c, ps2)
           | (True, ps2) \<Rightarrow>
               (case gettoken s ps2 of
                  (_, _, ps3) \<Rightarrow>
                    (case parsepipe n s ps3 of
                       Inl e \<Rightarrow> Inl e
                     | Inr (d, ps4) \<Rightarrow> Inr (PipeCmd c d, ps4)))))"
| "parseblock 0 s ps = Inl OutOfFuel"
| "parseblock (Suc n) s ps =
     (case peek s ps ''('' of
        (False, ps1) \<Rightarrow> Inl (Syntax ''parseblock'')
      | (True, ps1) \<Rightarrow>
          (case gettoken s ps1 of
             (_, _, ps2) \<Rightarrow>
               (case parseline n s ps2 of
                  Inl e \<Rightarrow> Inl e
                | Inr (c, ps3) \<Rightarrow>
                    (case peek s ps3 '')'' of
                       (False, ps4) \<Rightarrow> Inl (Syntax ''syntax - missing )'')
                     | (True, ps4) \<Rightarrow>
                         (case gettoken s ps4 of
                            (_, _, ps5) \<Rightarrow>
                              (case parseredirs s ps5 of
                                 Inl e \<Rightarrow> Inl e
                               | Inr (rs, ps6) \<Rightarrow> Inr (foldl redircmd c rs, ps6)))))))"
| "parseexec 0 s ps = Inl OutOfFuel"
| "parseexec (Suc n) s ps =
     (case peek s ps ''('' of
        (True, ps1) \<Rightarrow> parseblock n s ps1
      | (False, ps1) \<Rightarrow>
          (case parseredirs s ps1 of
             Inl e \<Rightarrow> Inl e
           | Inr (rs, ps2) \<Rightarrow>
               (case parseargs s ps2 0 of
                  Inl e \<Rightarrow> Inl e
                | Inr (ws, rs', ps3) \<Rightarrow> Inr (foldl redircmd (ExecCmd ws) (rs @ rs'), ps3))))"

text \<open>\<open>nulterminate\<close> stores a zero after every word; \<open>m\<close> is the line with its final zero.\<close>

fun nulterminate :: "cmd \<Rightarrow> string \<Rightarrow> string" where
  "nulterminate (ExecCmd ws) m = fold (\<lambda>w m. m[snd w := CHR 0x00]) ws m"
| "nulterminate (RedirCmd c w mode fd) m = (nulterminate c m)[snd w := CHR 0x00]"
| "nulterminate (PipeCmd l r) m = nulterminate r (nulterminate l m)"
| "nulterminate (ListCmd l r) m = nulterminate r (nulterminate l m)"
| "nulterminate (BackCmd c) m = nulterminate c m"

text \<open>\<open>parsecmd\<close> yields the command and the line its words point into.\<close>

definition parsecmd :: "string \<Rightarrow> parse_error + cmd \<times> string" where
  "parsecmd s =
     (case parseline (4 * length s + 3) s 0 of
        Inl e \<Rightarrow> Inl e
      | Inr (c, ps) \<Rightarrow>
          (case peek s ps [] of
             (_, ps1) \<Rightarrow>
               if ps1 \<noteq> length s then Inl (Syntax ''syntax'')
               else Inr (c, nulterminate c (s @ [CHR 0x00]))))"

section \<open>What is parsed\<close>

fun words :: "cmd \<Rightarrow> word_at set" where
  "words (ExecCmd ws) = set ws"
| "words (RedirCmd c w mode fd) = insert w (words c)"
| "words (PipeCmd l r) = words l \<union> words r"
| "words (ListCmd l r) = words l \<union> words r"
| "words (BackCmd c) = words c"

fun shaped :: "cmd \<Rightarrow> bool" where
  "shaped (ExecCmd ws) \<longleftrightarrow> length ws < MAXARGS"
| "shaped (RedirCmd c w mode fd) \<longleftrightarrow> fd \<le> 1 \<and> shaped c"
| "shaped (PipeCmd l r) \<longleftrightarrow> shaped l \<and> shaped r"
| "shaped (ListCmd l r) \<longleftrightarrow> shaped l \<and> shaped r"
| "shaped (BackCmd c) \<longleftrightarrow> shaped c"

definition cmd_ok :: "string \<Rightarrow> cmd \<Rightarrow> bool" where
  "cmd_ok s c \<longleftrightarrow> shaped c \<and> (\<forall>w\<in>words c. word_ok s w)"

lemma cmd_ok_simps [simp]:
  "cmd_ok s (ExecCmd ws) \<longleftrightarrow> length ws < MAXARGS \<and> (\<forall>w\<in>set ws. word_ok s w)"
  "cmd_ok s (PipeCmd l r) \<longleftrightarrow> cmd_ok s l \<and> cmd_ok s r" "cmd_ok s (ListCmd l r) \<longleftrightarrow> cmd_ok s l \<and> cmd_ok s r"
  "cmd_ok s (BackCmd c) \<longleftrightarrow> cmd_ok s c"
  "cmd_ok s (RedirCmd c w mode fd) \<longleftrightarrow> word_ok s w \<and> fd \<le> 1 \<and> cmd_ok s c"
  by (auto simp: cmd_ok_def)

lemma cmd_ok_redirs: "cmd_ok s c \<Longrightarrow> \<forall>r\<in>set rs. redir_ok s r \<Longrightarrow> cmd_ok s (foldl redircmd c rs)"
  by (induction rs arbitrary: c) (auto simp: redircmd_def redir_ok_def split: prod.splits)

lemma parse_backs_ok:
  "parse_backs s ps c = (c', ps') \<Longrightarrow> ps \<le> length s \<Longrightarrow> cmd_ok s c \<Longrightarrow> ps \<le> ps' \<and> ps' \<le> length s \<and> cmd_ok s c'"
proof (induction s ps c arbitrary: c' ps' rule: parse_backs.induct)
  case (1 s ps c)
  obtain hit ps1 where pk: "peek s ps ''&'' = (hit, ps1)" by (cases "peek s ps ''&''")
  obtain tok w ps2 where g: "gettoken s ps1 = (tok, w, ps2)" by (cases "gettoken s ps1")
  show ?case
  proof (cases hit)
    case False
    then show ?thesis using 1(2-4) peek_pos [OF pk] pk by (auto simp: parse_backs.simps [of s ps])
  next
    case True
    then have pk': "peek s ps ''&'' = (True, ps1)" using pk by simp
    note pr = back_progress [OF pk' g]
    have "parse_backs s ps2 (BackCmd c) = (c', ps')" using 1(2) True by (simp add: parse_backs.simps [of s ps] pk g)
    then have "ps2 \<le> ps' \<and> ps' \<le> length s \<and> cmd_ok s c'"
      using 1(1) [OF pk'[symmetric] refl g [symmetric] refl] pr(2) 1(4) by simp
    then show ?thesis using pr by auto
  qed
qed

text \<open>What each function of the parser promises of a result, and how the functions pass it on.\<close>

definition parses :: "(string \<Rightarrow> nat \<Rightarrow> parse_error + cmd \<times> nat) \<Rightarrow> bool" where
  "parses p \<longleftrightarrow> (\<forall>s ps c ps'. p s ps = Inr (c, ps') \<longrightarrow> ps \<le> length s \<longrightarrow> ps \<le> ps' \<and> ps' \<le> length s \<and> cmd_ok s c)"

lemma parsesD:
  "parses p \<Longrightarrow> p s ps = Inr (c, ps') \<Longrightarrow> ps \<le> length s \<Longrightarrow> ps \<le> ps' \<and> ps' \<le> length s \<and> cmd_ok s c"
  by (simp add: parses_def)

lemma parsesI:
  "(\<And>s ps c ps'. p s ps = Inr (c, ps') \<Longrightarrow> ps \<le> length s \<Longrightarrow> ps \<le> ps' \<and> ps' \<le> length s \<and> cmd_ok s c) \<Longrightarrow> parses p"
  by (simp add: parses_def)

lemma parseline_parses:
  assumes "parses (parsepipe n)" "parses (parseline n)"
  shows "parses (parseline (Suc n))"
proof (rule parsesI)
  fix s ps c ps'
  assume run: "parseline (Suc n) s ps = Inr (c, ps')" and ps: "ps \<le> length s"
  obtain c1 ps1 where a: "parsepipe n s ps = Inr (c1, ps1)" using run by (auto split: sum.splits)
  obtain c2 ps2 where b: "parse_backs s ps1 c1 = (c2, ps2)" by (cases "parse_backs s ps1 c1")
  obtain hit ps3 where pk: "peek s ps2 '';'' = (hit, ps3)" by (cases "peek s ps2 '';''")
  obtain tok w ps4 where g: "gettoken s ps3 = (tok, w, ps4)" by (cases "gettoken s ps3")
  have p2: "ps \<le> ps2 \<and> ps2 \<le> length s \<and> cmd_ok s c2" using parsesD [OF assms(1) a ps] parse_backs_ok [OF b] by auto
  show "ps \<le> ps' \<and> ps' \<le> length s \<and> cmd_ok s c"
  proof (cases hit)
    case False
    then show ?thesis using run a b pk p2 peek_pos [OF pk] by auto
  next
    case True
    obtain d where d: "parseline n s ps4 = Inr (d, ps')" "c = ListCmd c2 d"
      using True run a b pk g by (auto split: sum.splits)
    show ?thesis using parsesD [OF assms(2) d(1)] d(2) p2 back_progress [of s ps2 "'';''" ps3, OF _ g] pk True by auto
  qed
qed

lemma parsepipe_parses:
  assumes "parses (parseexec n)" "parses (parsepipe n)"
  shows "parses (parsepipe (Suc n))"
proof (rule parsesI)
  fix s ps c ps'
  assume run: "parsepipe (Suc n) s ps = Inr (c, ps')" and ps: "ps \<le> length s"
  obtain c1 ps1 where a: "parseexec n s ps = Inr (c1, ps1)" using run by (auto split: sum.splits)
  obtain hit ps2 where pk: "peek s ps1 ''|'' = (hit, ps2)" by (cases "peek s ps1 ''|''")
  obtain tok w ps3 where g: "gettoken s ps2 = (tok, w, ps3)" by (cases "gettoken s ps2")
  note p1 = parsesD [OF assms(1) a ps]
  show "ps \<le> ps' \<and> ps' \<le> length s \<and> cmd_ok s c"
  proof (cases hit)
    case False
    then show ?thesis using run a pk p1 peek_pos [OF pk] by auto
  next
    case True
    obtain d where d: "parsepipe n s ps3 = Inr (d, ps')" "c = PipeCmd c1 d"
      using True run a pk g by (auto split: sum.splits)
    show ?thesis using parsesD [OF assms(2) d(1)] d(2) p1 back_progress [of s ps1 "''|''" ps2, OF _ g] pk True by auto
  qed
qed

lemma parseblock_parses:
  assumes "parses (parseline n)"
  shows "parses (parseblock (Suc n))"
proof (rule parsesI)
  fix s ps c ps'
  assume run: "parseblock (Suc n) s ps = Inr (c, ps')" and ps: "ps \<le> length s"
  obtain ps1 where pk: "peek s ps ''('' = (True, ps1)" using run by (auto split: prod.splits bool.splits)
  obtain tok w ps2 where g: "gettoken s ps1 = (tok, w, ps2)" by (cases "gettoken s ps1")
  obtain c1 ps3 where a: "parseline n s ps2 = Inr (c1, ps3)" using run pk g by (auto split: sum.splits)
  obtain ps4 where pk2: "peek s ps3 '')'' = (True, ps4)" using run pk g a by (auto split: prod.splits bool.splits)
  obtain tok2 w2 ps5 where g2: "gettoken s ps4 = (tok2, w2, ps5)" by (cases "gettoken s ps4")
  obtain rs where r: "parseredirs s ps5 = Inr (rs, ps')" "c = foldl redircmd c1 rs"
    using run pk g a pk2 g2 by (auto split: sum.splits)
  show "ps \<le> ps' \<and> ps' \<le> length s \<and> cmd_ok s c"
    using parsesD [OF assms a] back_progress [OF pk g] back_progress [OF pk2 g2] parseredirs_ok [OF r(1)] r(2)
    by (auto intro: cmd_ok_redirs)
qed

lemma parseexec_parses:
  assumes "parses (parseblock n)"
  shows "parses (parseexec (Suc n))"
proof (rule parsesI)
  fix s ps c ps'
  assume run: "parseexec (Suc n) s ps = Inr (c, ps')" and ps: "ps \<le> length s"
  obtain hit ps1 where pk: "peek s ps ''('' = (hit, ps1)" by (cases "peek s ps ''(''")
  note p1 = peek_pos [OF pk]
  show "ps \<le> ps' \<and> ps' \<le> length s \<and> cmd_ok s c"
  proof (cases hit)
    case True
    then show ?thesis using parsesD [OF assms, of s ps1 c ps'] run ps pk p1 by auto
  next
    case False
    obtain rs ps2 where r: "parseredirs s ps1 = Inr (rs, ps2)" using False run pk by (auto split: sum.splits)
    obtain ws rs' where a: "parseargs s ps2 0 = Inr (ws, rs', ps')" "c = foldl redircmd (ExecCmd ws) (rs @ rs')"
      using False run pk r by (auto split: sum.splits)
    have p2: "ps \<le> ps2" "ps2 \<le> length s" using p1 ps parseredirs_ok [OF r] by auto
    have "cmd_ok s c" unfolding a(2)
      by (rule cmd_ok_redirs) (use parseargs_ok [OF a(1)] p2 parseredirs_ok [OF r] in auto)
    then show ?thesis using parseargs_ok [OF a(1)] p2 by auto
  qed
qed

lemma parser_parses:
  "parses (parseline n) \<and> parses (parsepipe n) \<and> parses (parseblock n) \<and> parses (parseexec n)"
proof (induction n)
  case 0
  then show ?case by (simp add: parses_def)
next
  case (Suc n)
  then show ?case
    by (blast intro: parseline_parses parsepipe_parses parseblock_parses parseexec_parses)
qed

lemmas parseline_ok = parser_parses [THEN conjunct1, THEN parsesD]
lemmas parsepipe_ok = parser_parses [THEN conjunct2, THEN conjunct1, THEN parsesD]
lemmas parseexec_ok = parser_parses [THEN conjunct2, THEN conjunct2, THEN conjunct2, THEN parsesD]

subsection \<open>The fuel is enough\<close>

text \<open>
  Four units for every character that is left: a line, a pipe, a command and a block may all
  begin at one position, and a block then consumes its parenthesis.
\<close>

definition fed :: "nat \<Rightarrow> nat \<Rightarrow> (nat \<Rightarrow> string \<Rightarrow> nat \<Rightarrow> parse_error + cmd \<times> nat) \<Rightarrow> bool" where
  "fed k n p \<longleftrightarrow> (\<forall>s ps. ps \<le> length s \<and> 0 < n \<and> 4 * (length s - ps) + k \<le> n \<longrightarrow> p n s ps \<noteq> Inl OutOfFuel)"

lemma fedD: "fed k n p \<Longrightarrow> ps \<le> length s \<Longrightarrow> 0 < n \<Longrightarrow> 4 * (length s - ps) + k \<le> n \<Longrightarrow> p n s ps \<noteq> Inl OutOfFuel"
  by (simp add: fed_def)

lemma fedI:
  "(\<And>s ps. ps \<le> length s \<Longrightarrow> 4 * (length s - ps) + k \<le> n \<Longrightarrow> p n s ps \<noteq> Inl OutOfFuel) \<Longrightarrow> fed k n p"
  by (simp add: fed_def)

lemma parseline_fed:
  assumes "fed 2 n parsepipe" "fed 3 n parseline"
  shows "fed 3 (Suc n) parseline"
proof (rule fedI)
  fix s :: string and ps
  assume ps: "ps \<le> length s" and n: "4 * (length s - ps) + 3 \<le> Suc n"
  have pipe: "parsepipe n s ps \<noteq> Inl OutOfFuel" by (rule fedD [OF assms(1)]) (use ps n in auto)
  have "parseline n s ps4 \<noteq> Inl OutOfFuel"
    if a: "parsepipe n s ps = Inr (c1, ps1)" and b: "parse_backs s ps1 c1 = (c2, ps2)"
      and pk: "peek s ps2 '';'' = (True, ps3)" and g: "gettoken s ps3 = (tok, w, ps4)" for c1 ps1 c2 ps2 ps3 tok w ps4
    by (rule fedD [OF assms(2)])
       (use n parsepipe_ok [OF a ps] parse_backs_ok [OF b] back_progress [OF pk g] in auto)
  then show "parseline (Suc n) s ps \<noteq> Inl OutOfFuel"
    using pipe by (auto split: sum.splits prod.splits bool.splits)
qed

lemma parsepipe_fed:
  assumes "fed 1 n parseexec" "fed 2 n parsepipe"
  shows "fed 2 (Suc n) parsepipe"
proof (rule fedI)
  fix s :: string and ps
  assume ps: "ps \<le> length s" and n: "4 * (length s - ps) + 2 \<le> Suc n"
  have exec: "parseexec n s ps \<noteq> Inl OutOfFuel" by (rule fedD [OF assms(1)]) (use ps n in auto)
  have "parsepipe n s ps3 \<noteq> Inl OutOfFuel"
    if a: "parseexec n s ps = Inr (c1, ps1)" and pk: "peek s ps1 ''|'' = (True, ps2)"
      and g: "gettoken s ps2 = (tok, w, ps3)" for c1 ps1 ps2 tok w ps3
    by (rule fedD [OF assms(2)]) (use n parseexec_ok [OF a ps] back_progress [OF pk g] in auto)
  then show "parsepipe (Suc n) s ps \<noteq> Inl OutOfFuel"
    using exec by (auto split: sum.splits prod.splits bool.splits)
qed

lemma parseblock_fed:
  assumes "fed 3 n parseline"
  shows "fed 0 (Suc n) parseblock"
proof (rule fedI)
  fix s :: string and ps
  assume ps: "ps \<le> length s" and n: "4 * (length s - ps) + 0 \<le> Suc n"
  have "parseline n s ps2 \<noteq> Inl OutOfFuel"
    if pk: "peek s ps ''('' = (True, ps1)" and g: "gettoken s ps1 = (tok, w, ps2)" for ps1 tok w ps2
    by (rule fedD [OF assms]) (use n back_progress [OF pk g] in auto)
  then show "parseblock (Suc n) s ps \<noteq> Inl OutOfFuel"
    using parseredirs_fuel by (auto split: sum.splits prod.splits bool.splits)
qed

lemma parseexec_fed:
  assumes "fed 0 n parseblock"
  shows "fed 1 (Suc n) parseexec"
proof (rule fedI)
  fix s :: string and ps
  assume ps: "ps \<le> length s" and n: "4 * (length s - ps) + 1 \<le> Suc n"
  have "parseblock n s ps1 \<noteq> Inl OutOfFuel" if pk: "peek s ps ''('' = (True, ps1)" for ps1
    by (rule fedD [OF assms]) (use n peek_pos [OF pk] in auto)
  then show "parseexec (Suc n) s ps \<noteq> Inl OutOfFuel"
    using parseredirs_fuel parseargs_fuel by (auto split: sum.splits prod.splits bool.splits)
qed

lemma parser_fed: "fed 3 n parseline \<and> fed 2 n parsepipe \<and> fed 0 n parseblock \<and> fed 1 n parseexec"
proof (induction n)
  case 0
  then show ?case by (simp add: fed_def)
next
  case (Suc n)
  then show ?case by (blast intro: parseline_fed parsepipe_fed parseblock_fed parseexec_fed)
qed

section \<open>The words are terminated in place\<close>

lemma fold_update_nth:
  "i < length m \<Longrightarrow> fold (\<lambda>w m. m[snd w := z]) ws m ! i = (if \<exists>w\<in>set ws. snd w = i then z else m ! i)"
  by (induction ws arbitrary: m) (auto simp: nth_list_update)

lemma fold_update_length [simp]: "length (fold (\<lambda>w m. m[snd w := z]) ws m) = length m"
  by (induction ws arbitrary: m) auto

lemma nulterminate_length [simp]: "length (nulterminate c m) = length m"
  by (induction c arbitrary: m) auto

lemma nulterminate_nth:
  "i < length m \<Longrightarrow> nulterminate c m ! i = (if \<exists>w\<in>words c. snd w = i then CHR 0x00 else m ! i)"
proof (induction c arbitrary: m)
  case (RedirCmd c w mode fd)
  then show ?case by (cases "snd w = i") (simp_all add: nth_list_update)
qed (auto simp: fold_update_nth)

text \<open>The C string at a position of the buffer.\<close>

definition c_string :: "string \<Rightarrow> nat \<Rightarrow> string" where
  "c_string m q = takeWhile (\<lambda>c. c \<noteq> CHR 0x00) (drop q m)"

lemma c_stringI:
  assumes "q \<le> e" "e < length m" "m ! e = CHR 0x00" "\<And>i. q \<le> i \<Longrightarrow> i < e \<Longrightarrow> m ! i = s ! i \<and> s ! i \<noteq> CHR 0x00" "e \<le> length s"
  shows "c_string m q = take (e - q) (drop q s)"
proof -
  have "take (e - q) (drop q m) = take (e - q) (drop q s)"
    using assms by (intro nth_equalityI) auto
  moreover have "drop q m = take (e - q) (drop q m) @ CHR 0x00 # drop (Suc e) m"
    using append_take_drop_id [of "e - q" "drop q m"] Cons_nth_drop_Suc [of e m] assms(1-3) by simp
  moreover have "\<forall>c\<in>set (take (e - q) (drop q s)). c \<noteq> CHR 0x00"
    using assms(4,5) by (auto simp: in_set_conv_nth)
  ultimately show ?thesis
    unfolding c_string_def by (subst \<open>drop q m = _\<close>) (simp add: takeWhile_append)
qed

lemma word_terminated:
  assumes c: "cmd_ok s c" and w: "(q, e) \<in> words c" and z: "CHR 0x00 \<notin> set s"
  shows "c_string (nulterminate c (s @ [CHR 0x00])) q = take (e - q) (drop q s)"
proof -
  have ok: "word_ok s (q, e)" using c w by (simp add: cmd_ok_def)
  have other: "\<not> (q \<le> e' \<and> e' < e)" if "(q', e') \<in> words c" for q' e'
    using that c ok by (auto simp: cmd_ok_def word_ok_def)
  show ?thesis
  proof (rule c_stringI)
    fix i assume i: "q \<le> i" "i < e"
    then have "s ! i \<in> set s" using ok by (auto simp: word_ok_def)
    then have "s ! i \<noteq> CHR 0x00" using z by metis
    then show "nulterminate c (s @ [CHR 0x00]) ! i = s ! i \<and> s ! i \<noteq> CHR 0x00"
      using i ok other by (auto simp: nulterminate_nth word_ok_def nth_append)
  qed (use ok w in \<open>auto simp: word_ok_def nulterminate_nth\<close>)
qed

section \<open>Running a command\<close>

text \<open>
  \<open>runcmd\<close> as the tree of the system calls the process makes: a call that may fail has the
  continuation after a failure first; a fork has the child and the parent. Allocation of the
  command structures is not modelled.
\<close>

datatype act =
    Exit
  | Exec string "string list" act
  | Print string act
  | Close nat act
  | Dup nat act
  | Wait act
  | Open string nat act act
  | Chdir string act act
  | Pipe act "nat \<times> nat \<Rightarrow> act"
  | Fork act act act

definition sh_panic :: "string \<Rightarrow> act" where
  "sh_panic s = Print (s @ [CHR 0x0A]) Exit"

definition fork1 :: "act \<Rightarrow> act \<Rightarrow> act" where
  "fork1 child parent = Fork (sh_panic ''fork'') child parent"

fun runcmd :: "string \<Rightarrow> cmd \<Rightarrow> act" where
  "runcmd m (ExecCmd ws) =
     (case ws of
        [] \<Rightarrow> Exit
      | w # _ \<Rightarrow>
          Exec (c_string m (fst w)) (map (\<lambda>w. c_string m (fst w)) ws)
            (Print (''exec '' @ c_string m (fst w) @ '' failed'' @ [CHR 0x0A]) Exit))"
| "runcmd m (RedirCmd c w mode fd) =
     Close fd
       (Open (c_string m (fst w)) mode
         (Print (''open '' @ c_string m (fst w) @ '' failed'' @ [CHR 0x0A]) Exit)
         (runcmd m c))"
| "runcmd m (ListCmd l r) = fork1 (runcmd m l) (Wait (runcmd m r))"
| "runcmd m (PipeCmd l r) =
     Pipe (sh_panic ''pipe'') (\<lambda>(p0, p1).
       fork1 (Close 1 (Dup p1 (Close p0 (Close p1 (runcmd m l)))))
         (fork1 (Close 0 (Dup p0 (Close p0 (Close p1 (runcmd m r)))))
           (Close p0 (Close p1 (Wait (Wait Exit))))))"
| "runcmd m (BackCmd c) = fork1 (runcmd m c) Exit"

text \<open>
  \<open>gets\<close> of \<^verbatim>\<open>ulib.c\<close> on the characters that standard input still has, with room for \<open>n\<close> of
  them and the zero: the line, and what is left.
\<close>

fun gets :: "nat \<Rightarrow> string \<Rightarrow> string \<times> string" where
  "gets 0 inp = ([], inp)"
| "gets (Suc n) [] = ([], [])"
| "gets (Suc n) (c # inp) =
     (if c = CHR 0x0A \<or> c = CHR 0x0D then ([c], inp)
      else case gets n inp of (l, rest) \<Rightarrow> (c # l, rest))"

text \<open>\<open>getcmd\<close>: None at the end of the input, or on a line that begins with a zero.\<close>

definition getcmd :: "nat \<Rightarrow> string \<Rightarrow> (string \<times> string) option" where
  "getcmd nbuf inp =
     (case gets (nbuf - 1) inp of (buf, rest) \<Rightarrow>
        if char_at buf 0 = CHR 0x00 then None
        else Some (takeWhile (\<lambda>c. c \<noteq> CHR 0x00) buf, rest))"

lemma gets_rest: "gets n inp = (l, rest) \<Longrightarrow> length rest + length l = length inp"
  by (induction n inp arbitrary: l rest rule: gets.induct) (auto split: if_splits prod.splits)

lemma getcmd_rest:
  assumes "getcmd nbuf inp = Some (l, rest)"
  shows "length rest < length inp"
proof (cases "gets (nbuf - 1) inp")
  case (Pair b r)
  then have "b \<noteq> []" "r = rest" using assms by (auto simp: getcmd_def char_at_def split: if_splits)
  then show ?thesis using gets_rest [OF Pair] by (cases b) auto
qed

text \<open>
  The loop of \<open>main\<close>, on the whole input. A child that runs a command is given by its parse;
  \<open>chdir\<close> is called with the last character of the line cut off.
\<close>

definition runline :: "string \<Rightarrow> act" where
  "runline l =
     (case parsecmd l of
        Inr (c, m) \<Rightarrow> runcmd m c
      | Inl (Syntax e) \<Rightarrow> sh_panic e
      | Inl OutOfFuel \<Rightarrow> Exit)"

function sh_main :: "string \<Rightarrow> act" where
  "sh_main inp =
     Print ''$ ''
       (case getcmd 100 inp of
          None \<Rightarrow> Exit
        | Some (l, rest) \<Rightarrow>
            if take 3 l = ''cd '' then
              (let path = drop 3 (butlast l) in
               Chdir path (Print (''cannot cd '' @ path @ [CHR 0x0A]) (sh_main rest)) (sh_main rest))
            else fork1 (runline l) (Wait (sh_main rest)))"
  by pat_completeness auto
termination
  by (relation "measure length") (auto dest: getcmd_rest)

declare sh_main.simps [simp del]

section \<open>The programs a command starts\<close>

text \<open>
  Descriptor tables: what stands at each descriptor. \<open>started\<close> follows the tree when no call
  fails; \<open>open\<close>, \<open>dup\<close> and \<open>pipe\<close> take the lowest free descriptors, as \<open>fdalloc\<close> in
  \<^verbatim>\<open>sysfile.c\<close> does. It collects the programs that are started, each with its arguments and
  descriptors; \<open>n\<close> numbers the pipes.
\<close>

datatype chan = Given nat | Opened string nat | ReadEnd nat | WriteEnd nat

type_synonym fds = "nat \<Rightarrow> chan option"

definition free_fd :: "fds \<Rightarrow> nat" where
  "free_fd F = hd (filter (\<lambda>i. F i = None) [0..<16])"

primrec started :: "act \<Rightarrow> fds \<Rightarrow> nat \<Rightarrow> (string list \<times> fds) list \<times> nat" where
  "started Exit = (\<lambda>F n. ([], n))"
| "started (Exec path argv k) = (\<lambda>F n. ([(argv, F)], n))"
| "started (Print s k) = started k"
| "started (Close fd k) = (\<lambda>F n. started k (F(fd := None)) n)"
| "started (Dup fd k) = (\<lambda>F n. started k (F(free_fd F := F fd)) n)"
| "started (Wait k) = started k"
| "started (Open path mode bad k) = (\<lambda>F n. started k (F(free_fd F \<mapsto> Opened path mode)) n)"
| "started (Chdir path bad k) = started k"
| "started (Pipe bad k) = (\<lambda>F n.
     let r = free_fd F; F1 = F(r \<mapsto> ReadEnd n); w = free_fd F1
     in started (k (r, w)) (F1(w \<mapsto> WriteEnd n)) (n + 1))"
| "started (Fork bad child parent) = (\<lambda>F n.
     case started child F n of (ps, n1) \<Rightarrow> case started parent F n1 of (qs, n2) \<Rightarrow> (ps @ qs, n2))"

text \<open>What a command means: standard input, output and error, and nothing else.\<close>

definition std :: "chan \<Rightarrow> chan \<Rightarrow> chan \<Rightarrow> fds" where
  "std i out err = [0 \<mapsto> i, 1 \<mapsto> out, 2 \<mapsto> err]"

fun plan :: "string \<Rightarrow> cmd \<Rightarrow> chan \<Rightarrow> chan \<Rightarrow> chan \<Rightarrow> nat \<Rightarrow> (string list \<times> fds) list \<times> nat" where
  "plan s (ExecCmd ws) i out err n =
     (if ws = [] then [] else [(map (\<lambda>(q, e). take (e - q) (drop q s)) ws, std i out err)], n)"
| "plan s (RedirCmd c (q, e) mode fd) i out err n =
     (let f = Opened (take (e - q) (drop q s)) mode
      in if fd = 0 then plan s c f out err n else plan s c i f err n)"
| "plan s (ListCmd l r) i out err n =
     (case plan s l i out err n of (ps, n1) \<Rightarrow> case plan s r i out err n1 of (qs, n2) \<Rightarrow> (ps @ qs, n2))"
| "plan s (PipeCmd l r) i out err n =
     (case plan s l i (WriteEnd n) err (n + 1) of
        (ps, n1) \<Rightarrow> case plan s r (ReadEnd n) out err n1 of (qs, n2) \<Rightarrow> (ps @ qs, n2))"
| "plan s (BackCmd c) i out err n = plan s c i out err n"

lemma upt16: "[0..<16] = [0, 1, 2, 3, 4, 5, 6, 7, 8, 9, 10, 11, 12, 13, 14, 15::nat]"
  by (simp add: upt_rec)

lemma free_std [simp]:
  "free_fd (std i out err) = 3"
  "free_fd ((std i out err)(3 \<mapsto> r)) = 4"
  "free_fd ((std i out err)(0 := None)) = 0"
  "free_fd ((std i out err)(Suc 0 := None)) = 1"
  "free_fd ((std i out err)(3 \<mapsto> r, 4 \<mapsto> w, 0 := None)) = 0"
  "free_fd ((std i out err)(3 \<mapsto> r, 4 \<mapsto> w, Suc 0 := None)) = 1"
  by (simp_all add: free_fd_def std_def upt16)

lemma std_closed [simp]: "(std i out err)(3 := None, 4 := None) = std i out err"
  by (auto simp: std_def)

lemma std_redir [simp]:
  "(std i out err)(0 \<mapsto> f) = std f out err"
  "(std i out err)(Suc 0 \<mapsto> f) = std i f err"
  by (auto simp: std_def)

lemma started_plan:
  assumes "\<And>w. w \<in> words c \<Longrightarrow> c_string m (fst w) = take (snd w - fst w) (drop (fst w) s)" "shaped c"
  shows "started (runcmd m c) (std i out err) n = plan s c i out err n"
  using assms
proof (induction c arbitrary: i out err n)
  case (ExecCmd ws)
  then show ?case by (cases ws) (auto simp: case_prod_beta)
next
  case (RedirCmd c w mode fd)
  obtain q e where w: "w = (q, e)" by (cases w)
  then have f: "c_string m q = take (e - q) (drop q s)" using RedirCmd.prems(1) [of w] by simp
  have "fd = 0 \<or> fd = 1" using RedirCmd.prems(2) by auto
  then show ?case using RedirCmd by (auto simp: w f)
next
  case (PipeCmd l r)
  show ?case using PipeCmd by (simp add: fork1_def Let_def split: prod.splits)
qed (simp_all add: fork1_def split: prod.splits)

section \<open>Properties\<close>

text \<open>
  C11. The parser always ends: on every line \<open>parsecmd\<close> either reports a syntax error or
  yields a command, never running out of the fuel it is given, four units for a character. The
  words of the command are words of the line, inside it, without a white space or symbol
  character and as long as possible; no program has more than nine arguments, so that
  the terminating null pointer fits in \<open>argv\<close>; only the descriptors 0 and 1 are redirected; and
  the buffer that \<open>nulterminate\<close> leaves has its old length.
\<close>

theorem parsecmd_ends:
  "case parsecmd s of
     Inl e \<Rightarrow> e \<noteq> OutOfFuel
   | Inr (c, m) \<Rightarrow> shaped c \<and> words c \<subseteq> Collect (word_ok s) \<and> length m = length s + 1"
proof -
  have "parseline (4 * length s + 3) s 0 \<noteq> Inl OutOfFuel"
    by (rule fedD [OF parser_fed [THEN conjunct1]]) auto
  moreover have "cmd_ok s c" if "parseline (4 * length s + 3) s 0 = Inr (c, ps)" for c ps
    using parseline_ok [OF that] by simp
  ultimately show ?thesis
    by (auto simp: parsecmd_def cmd_ok_def split: sum.splits prod.splits if_splits)
qed

text \<open>
  C9. Running a parsed line starts the right programs on the right descriptors. When no system
  call fails, the processes that \<open>runcmd\<close> makes call \<open>exec\<close> once for every simple command of the
  line, with exactly the words of the line as arguments (the zeros that \<open>nulterminate\<close>
  stores end each word and damage none), with the files of the redirections and the ends of
  the pipes at descriptors 0 and 1, and with no other descriptor open: no
  program holds a pipe end it does not read from or write to.
\<close>

theorem runcmd_follows_plan:
  assumes "CHR 0x00 \<notin> set s" "parsecmd s = Inr (c, m)"
  shows "started (runcmd m c) (std i out err) n = plan s c i out err n"
proof (rule started_plan)
  obtain ps where run: "parseline (4 * length s + 3) s 0 = Inr (c, ps)" and m: "m = nulterminate c (s @ [CHR 0x00])"
    using assms(2) by (auto simp: parsecmd_def split: sum.splits prod.splits if_splits)
  have ok: "cmd_ok s c" using parseline_ok [OF run] by simp
  then show "shaped c" by (simp add: cmd_ok_def)
  show "c_string m (fst w) = take (snd w - fst w) (drop (fst w) s)" if "w \<in> words c" for w
    using word_terminated [OF ok _ assms(1), of "fst w" "snd w"] that m by simp
qed

theorem runcmd_follows_plan_witness:
  "CHR 0x00 \<notin> set ''cat<f|wc -l''
   \<and> parsecmd ''cat<f|wc -l'' =
       Inr (PipeCmd (RedirCmd (ExecCmd [(0, 3)]) (4, 5) 0 0) (ExecCmd [(6, 8), (9, 11)]),
         ''cat'' @ [CHR 0x00] @ ''f'' @ [CHR 0x00] @ ''wc'' @ [CHR 0x00] @ ''-l'' @ [CHR 0x00])
   \<and> started (runcmd (''cat'' @ [CHR 0x00] @ ''f'' @ [CHR 0x00] @ ''wc'' @ [CHR 0x00] @ ''-l'' @ [CHR 0x00])
         (PipeCmd (RedirCmd (ExecCmd [(0, 3)]) (4, 5) 0 0) (ExecCmd [(6, 8), (9, 11)])))
       (std (Given 0) (Given 1) (Given 2)) 0
     = ([([''cat''], std (Opened ''f'' 0) (WriteEnd 0) (Given 2)),
         ([''wc'', ''-l''], std (ReadEnd 0) (Given 1) (Given 2))], 1)"
proof -
  let ?s = "''cat<f|wc -l''"
  let ?c = "PipeCmd (RedirCmd (ExecCmd [(0, 3)]) (4, 5) 0 0) (ExecCmd [(6, 8), (9, 11)])"
  let ?m = "''cat'' @ [CHR 0x00] @ ''f'' @ [CHR 0x00] @ ''wc'' @ [CHR 0x00] @ ''-l'' @ [CHR 0x00]"
  have z: "CHR 0x00 \<notin> set ?s" by simp
  have p: "parsecmd ?s = Inr (?c, ?m)" by code_simp
  show ?thesis using runcmd_follows_plan [OF z p, of "Given 0" "Given 1" "Given 2" 0] z p by simp
qed

end
