(* ===== verification/Spec2Isabelle.thy ===== *)
theory Spec2Isabelle
  imports Races Types Ide Grep Shell
begin

text \<open>
  \<^bold>\<open>xv6 with signals.\<close> The program is the teaching operating system xv6 for 32-bit x86 machines, extended by
  signals (pending bits, masks, handlers of the program, \<open>SIGSTOP\<close> and \<open>SIGCONT\<close>) and by \<open>cas\<close>. All files are
  directly under \<^verbatim>\<open>src/\<close>. This development models the C kernel, function by function, together with two of its user
  programs, and proves properties of the model.

  \<^bold>\<open>How kernel functions are modelled.\<close> A kernel function is a value of the monad of \<open>Prelude\<close>: it takes the state
  and a schedule, and returns (\<open>Ret\<close>), panics (\<open>Panic\<close>), gives up the processor for good (\<open>Asleep\<close>) or spins on
  a lock (\<open>Spin\<close>). The schedule is a list of state changes: what the rest of the machine does each time
  the function is off the processor, in \<open>sched\<close>. Conditions, early returns, panics and locks are where the source has them. The
  state is a record that grows from component to component in the order in which the kernel stacks
  them:
  \<^item> \<open>mach\<close> (processors, spin locks, screen and serial port), \<open>kmem\<close> (memory, free list), \<open>vm\<close> (page table register),
    \<open>ptable\<close> (process table, clock), \<open>sltable\<close> (sleep locks), \<open>bcache\<close> (buffers, disk), \<open>log\<close>, \<open>icache\<close> (inodes), \<open>console\<close>,
    \<open>pipes\<close>, \<open>ftable\<close> (open files), \<open>kernel\<close> (interrupts).
  Memory is a function from 32-bit addresses to bytes; the kernel reads user memory through the page table, and a
  page that is not there is a page fault in the kernel, on which \<open>trap\<close> panics. Pointers to elements of
  a table are indices, machine integers are words of their width. Interleavings of processors inside one function are
  separate step relations (\<open>Spinlock\<close>, \<open>Races\<close>).

  \<^bold>\<open>Theories, sources, and what is shown.\<close>
  \<^item> \<open>Prelude\<close>: monad, loops, word and list lemmas. \<open>Bytes\<close>, \<open>Pages\<close>: integers in byte lists and in memory, pages.
  \<^item> \<open>Cstring\<close> (\<^verbatim>\<open>string.c\<close>, string instructions of \<^verbatim>\<open>x86.h\<close>): every function. \<open>memmove\<close> on overlapping regions;
    \<open>safestrcpy\<close> terminates within its bound.
  \<^item> \<open>Mmu\<close> (\<^verbatim>\<open>mmu.h\<close>, \<^verbatim>\<open>memlayout.h\<close>): address macros and descriptors; an address is the sum of its parts.
  \<^item> \<open>Spinlock\<close> (\<^verbatim>\<open>spinlock.c\<close>): \<open>acquire\<close> and \<open>release\<close> run by one processor, nesting of \<open>pushcli\<close>, and
    mutual exclusion for any number of processors, one memory access at a time.
  \<^item> \<open>Printf\<close> (\<open>cprintf\<close> and below, in \<^verbatim>\<open>console.c\<close> and \<^verbatim>\<open>uart.c\<close>): the cursor stays on the screen, digits fit the buffer.
  \<^item> \<open>Kalloc\<close> (\<^verbatim>\<open>kalloc.c\<close>): the interface \<open>page_allocator\<close>; pages are neither lost nor given out twice; \<open>freerange\<close> ends and frees
    the whole pages of its range.
  \<^item> \<open>Vm\<close> (\<^verbatim>\<open>vm.c\<close>): page tables; \<open>mappages\<close> maps exactly what it is asked to.
  \<^item> \<open>Proc\<close> (\<^verbatim>\<open>proc.c\<close>): the process table, scheduling, \<open>sleep\<close>, \<open>wakeup\<close>, \<open>kill\<close>, masks and handlers. \<open>Races\<close>: \<open>cas\<close> in
    \<open>allocpid\<close>, and \<open>sleep\<close> against \<open>wakeup\<close>, under every interleaving.
  \<^item> \<open>Signals\<close> (\<^verbatim>\<open>trap.c\<close>, \<^verbatim>\<open>trapasm.S\<close>): delivery of signals on the way out of the kernel; default actions, stopping and continuing,
    blocked signals, the frame saved for a handler.
  \<^item> \<open>Sleeplock\<close> (\<^verbatim>\<open>sleeplock.c\<close>), \<open>Bio\<close> (\<^verbatim>\<open>bio.c\<close>, \<^verbatim>\<open>memide.c\<close>): the doubly linked list of buffers; the interface
    \<open>block_cache\<close> and its laws; reading, changing and writing a block refines an update of an abstract disk.
  \<^item> \<open>Ide\<close> (\<^verbatim>\<open>ide.c\<close>): the driver of the IDE disk; requests are served in the order in which they came.
  \<^item> \<open>Log\<close> (\<^verbatim>\<open>log.c\<close>): a commit that is cut off at any disk write recovers to the blocks before or after the transaction;
    admission of operations, and the case in which the log is too small for what was admitted.
  \<^item> \<open>Inode\<close>, \<open>Fs\<close> (\<^verbatim>\<open>fs.c\<close>): blocks, inodes, files, directories and paths. \<open>balloc\<close> gives out a free block once, inside a
    transaction, by the laws of \<open>Log\<close> and \<open>Bio\<close>.
  \<^item> \<open>Console\<close> (\<^verbatim>\<open>console.c\<close>), \<open>Kbd\<close> (\<^verbatim>\<open>kbd.c\<close>): line editing, console input and output, the keyboard decoder.
  \<^item> \<open>Pipe\<close> (\<^verbatim>\<open>pipe.c\<close>): the interface \<open>bounded_queue\<close>, interpreted on the ring buffer with its wrapping counters; reading and
    writing are the operations of a queue.
  \<^item> \<open>File\<close> (\<^verbatim>\<open>file.c\<close>), \<open>Lifecycle\<close> (\<open>userinit\<close>, \<open>fork\<close>, \<open>exit\<close>), \<open>Exec\<close> (\<^verbatim>\<open>exec.c\<close>), \<open>Sysproc\<close>, \<open>Sysfile\<close> (\<^verbatim>\<open>syscall.c\<close>,
    \<^verbatim>\<open>sysproc.c\<close>, \<^verbatim>\<open>sysfile.c\<close>): open files, processes, programs, and the 24 system calls. Pointers that a system call accepts lie in
    the process.
  \<^item> \<open>Trap\<close> (\<^verbatim>\<open>trap.c\<close>, \<^verbatim>\<open>syscall.c\<close>, \<^verbatim>\<open>main.c\<close>): the trap handler; the system call \<open>sigret\<close>.
  \<^item> \<open>Types\<close>: one invariant for the whole kernel, kept by every function above: array lengths and pointers into
    the process table. The rules follow the structure of the monad, so that the proof for a function is its definition and the
    lemmas of the functions it calls.
  \<^item> \<open>Grep\<close> (\<^verbatim>\<open>grep.c\<close>): the matcher is equivalent to the regular expression that the pattern denotes; which lines are
    printed. \<open>Shell\<close> (\<^verbatim>\<open>sh.c\<close>, \<open>gets\<close> of \<^verbatim>\<open>ulib.c\<close>): lexer, parser, termination of words in the line buffer, and the
    system calls of a command; the parser ends, and the programs of a line are started with the right arguments
    and descriptors.

  \<^bold>\<open>Bounds and fuel.\<close> Loops without a bound in the source go round only after \<open>sched\<close>; \<open>kloop\<close> bounds them by the
  length of the schedule, and \<open>kloop_unfold\<close> shows that this bound never ends a loop. \<open>kiter\<close> loops take one
  round per page, block or buffer; each has more rounds than the address space, the bitmap or the
  table allows, and running out is \<open>Spin\<close>, which the theorems exclude where they state a result. The shell's parser has four
  units of fuel for each character; that this is enough is a theorem. \<open>strlen\<close> is a partial function, since it returns only if
  there is a zero.

  \<^bold>\<open>Not modelled.\<close>
  \<^item> \<^verbatim>\<open>lapic.c\<close> (except the end of an interrupt), \<^verbatim>\<open>ioapic.c\<close>, \<^verbatim>\<open>picirq.c\<close>, \<^verbatim>\<open>mp.c\<close>, \<^verbatim>\<open>mp.h\<close>: device registers and BIOS tables. What
    they establish, the processors with their APIC numbers, is part of the state.
  \<^item> \<^verbatim>\<open>bootasm.S\<close>, \<^verbatim>\<open>bootmain.c\<close>, \<^verbatim>\<open>entry.S\<close>, \<^verbatim>\<open>entryother.S\<close>, \<^verbatim>\<open>initcode.S\<close> and the order of initialisation in \<^verbatim>\<open>main.c\<close>: code that
    runs before the C kernel, and straight-line calls.
  \<^item> \<^verbatim>\<open>swtch.S\<close> and \<^verbatim>\<open>vectors.S\<close>: the switch of stacks is the schedule of the monad; the vectors are generated.
  \<^item> The other user programs and \<^verbatim>\<open>mkfs.c\<close>: programs that only call the kernel, tests (\<^verbatim>\<open>usertests.c\<close>, \<^verbatim>\<open>SigSanity.c\<close>, \<^verbatim>\<open>forktest.c\<close>,
    \<^verbatim>\<open>stressfs.c\<close>), and a tool of the build machine.
  \<^item> Memory ordering weaker than one access at a time; the call stack that \<open>acquire\<close> stores for debugging; port input and output of
    the serial port's start-up.
\<close>

end
